(* ===== verification/MushPrelude.thy ===== *)
theory MushPrelude
  imports Main "HOL-Library.Word"
begin

unbundle bit_operations_syntax

text \<open>
  Shared vocabulary of the development: the fixed-width types of \<^verbatim>\<open>lib/base/generic.h\<close>,
  the outcome of a C computation that may fail to return, address ranges that are safe
  under wrap-around, and the generic facts on words and lists that the component theories
  use through the collections declared here.
\<close>

section \<open>Fixed-width types\<close>

type_synonym u_byte = "8 word"
type_synonym u_word = "16 word"
type_synonym u_dword = "32 word"
type_synonym u_qword = "64 word"

text \<open>A pointer is its 32-bit value; \<^verbatim>\<open>nullptr\<close> is zero (\<^verbatim>\<open>generic.h\<close>, line 24).\<close>

type_synonym addr = u_dword

abbreviation nullptr :: addr where
  "nullptr \<equiv> 0"

named_theorems range_simps "rules that decide membership in and overlap of address ranges"
named_theorems frame_simps "what a store leaves unchanged"
named_theorems result_simps "rules for sequencing computations that may fault"

section \<open>Outcomes\<close>

text \<open>
  \<^verbatim>\<open>exceptions.h\<close>: the record a throw site builds. The string fields are pointers; a
  null pointer means that the field is absent.
\<close>

record exception =
  exc_id :: u_byte
  exc_type :: addr
  exc_message :: addr
  exc_file :: addr
  exc_line :: u_dword

text \<open>
  A C function may fail to return: it spins for ever (\<^verbatim>\<open>jmp .\<close> or a loop over a cyclic
  list), it throws an exception nobody handles, or it executes something to which the
  language gives no meaning (a function that falls off its end and whose value is used, a
  signed counter that overflows). Each outcome keeps the state in which it happened.
\<close>

datatype 's fault =
    Hang 's
  | Unhandled exception 's
  | Undefined 's

type_synonym ('s, 'a) result = "'s fault + ('a \<times> 's)"

definition and_then :: "('s, 'a) result \<Rightarrow> ('a \<Rightarrow> 's \<Rightarrow> ('s, 'b) result) \<Rightarrow> ('s, 'b) result" where
  "and_then r f = (case r of Inl e \<Rightarrow> Inl e | Inr (a, s) \<Rightarrow> f a s)"

lemma and_then_Inl [simp, result_simps]: "and_then (Inl e) f = Inl e"
  by (simp add: and_then_def)

lemma and_then_Inr [simp, result_simps]: "and_then (Inr (a, s)) f = f a s"
  by (simp add: and_then_def)

lemma and_then_eq_Inr:
  "and_then r f = Inr (b, t) \<longleftrightarrow> (\<exists>a s. r = Inr (a, s) \<and> f a s = Inr (b, t))"
  by (auto simp: and_then_def split: sum.splits)

lemma and_then_assoc:
  "and_then (and_then r f) g = and_then r (\<lambda>a s. and_then (f a s) g)"
  by (auto simp: and_then_def split: sum.splits)

lemma and_then_return: "and_then r (\<lambda>a s. Inr (a, s)) = r"
  by (auto simp: and_then_def split: sum.splits)

section \<open>Address ranges\<close>

text \<open>
  \<open>in_range a n x\<close>: the address \<open>x\<close> is one of the \<open>n\<close> bytes that start at \<open>a\<close>. The
  distance is taken on words, so a range that runs over the top of memory is handled too.
\<close>

definition in_range :: "addr \<Rightarrow> nat \<Rightarrow> addr \<Rightarrow> bool" where
  "in_range a n x \<longleftrightarrow> unat (x - a) < n"

definition disjoint_ranges :: "addr \<Rightarrow> nat \<Rightarrow> addr \<Rightarrow> nat \<Rightarrow> bool" where
  "disjoint_ranges a n b k \<longleftrightarrow> (\<forall>x. \<not> (in_range a n x \<and> in_range b k x))"

lemma in_range_offset [range_simps]:
  "i < 4294967296 \<Longrightarrow> in_range a n (a + of_nat i) \<longleftrightarrow> i < n"
  by (simp add: in_range_def unat_of_nat)

lemma in_range_imp_offset:
  "in_range a n x \<Longrightarrow> \<exists>i < n. x = a + of_nat i"
  unfolding in_range_def by (rule exI [of _ "unat (x - a)"]) simp

lemma in_range_linear [range_simps]:
  assumes "unat a + n \<le> 4294967296"
  shows "in_range a n x \<longleftrightarrow> unat a \<le> unat x \<and> unat x < unat a + n"
proof -
  have bx: "unat x < 4294967296"
    using unsigned_less [of x] by simp
  show ?thesis
  proof (cases "a \<le> x")
    case True
    then have "unat (x - a) = unat x - unat a" and "unat a \<le> unat x"
      by (simp_all add: unat_sub word_le_nat_alt)
    then show ?thesis by (auto simp: in_range_def)
  next
    case False
    then have lt: "unat x < unat a"
      by (simp add: word_le_nat_alt)
    then have "unat (x - a) = 4294967296 + unat x - unat a"
      using bx by (simp add: unat_sub_if_size word_size word_le_nat_alt)
    then show ?thesis using assms lt by (auto simp: in_range_def)
  qed
qed

lemma disjoint_ranges_commute: "disjoint_ranges a n b k \<longleftrightarrow> disjoint_ranges b k a n"
  by (auto simp: disjoint_ranges_def)

lemma disjoint_ranges_linear [range_simps]:
  assumes "unat a + n \<le> 4294967296" and "unat b + k \<le> 4294967296"
    and "unat a + n \<le> unat b \<or> unat b + k \<le> unat a"
  shows "disjoint_ranges a n b k"
  using assms by (auto simp: disjoint_ranges_def in_range_linear)

lemma disjoint_rangesD:
  "disjoint_ranges a n b k \<Longrightarrow> in_range a n x \<Longrightarrow> in_range b k x \<Longrightarrow> False"
  by (auto simp: disjoint_ranges_def)

lemma disjoint_by_distance:
  assumes "n \<le> unat (b - a)" and "k \<le> unat (a - b)"
  shows "disjoint_ranges a n b k"
  unfolding disjoint_ranges_def
proof (intro allI notI)
  fix x
  assume "in_range a n x \<and> in_range b k x"
  then have a: "unat (x - a) < n" and b: "unat (x - b) < k"
    by (simp_all add: in_range_def)
  show False
  proof (cases "unat (x - b) \<le> unat (x - a)")
    case True
    then have "unat ((x - a) - (x - b)) = unat (x - a) - unat (x - b)"
      by (simp only: unat_sub word_le_nat_alt)
    then show False using assms(1) a by simp
  next
    case False
    then have "unat (x - a) \<le> unat (x - b)" by simp
    then have "unat ((x - b) - (x - a)) = unat (x - b) - unat (x - a)"
      by (simp only: unat_sub word_le_nat_alt)
    then show False using assms(2) b by simp
  qed
qed

section \<open>Words as numbers\<close>

lemma unat_lt32: "unat (x :: u_dword) < 4294967296"
  using unsigned_less [of x] by simp

lemma unat_plus_small:
  "unat (x :: u_dword) + unat y < 4294967296 \<Longrightarrow> unat (x + y) = unat x + unat y"
  by (simp add: unat_word_ariths)

lemma unat_minus_ge:
  "unat (y :: u_dword) \<le> unat x \<Longrightarrow> unat (x - y) = unat x - unat y"
  by (simp add: unat_sub word_le_nat_alt)

lemma unat_minus_lt:
  "unat (x :: u_dword) < unat y \<Longrightarrow> unat (x - y) = 4294967296 + unat x - unat y"
  by (simp add: unat_sub_if_size word_size word_le_nat_alt)

lemma unat_of_nat32: "n < 4294967296 \<Longrightarrow> unat (of_nat n :: u_dword) = n"
  by (simp add: unat_of_nat)

lemma word_of_nat_unat: "of_nat (unat (x :: u_dword)) = x"
  by simp

lemma word_eq_unatI: "unat (x :: u_dword) = unat y \<Longrightarrow> x = y"
  by (simp add: word_unat_eq_iff)

end
