(* ===== verification/Memory.thy ===== *)
theory Memory
  imports MushPrelude
begin

text \<open>
  The machine a MushOS program runs on, as far as C code sees it, and the raw memory
  routines of \<^verbatim>\<open>lib/base/memory.c\<close> and \<^verbatim>\<open>lib/base/math.c\<close>: byte-addressed memory with
  little-endian loads and stores, loops that copy, fill and compare bytes, and the two
  unsigned comparisons.
\<close>

section \<open>Bytes, words and double words\<close>

type_synonym memory = "addr \<Rightarrow> u_byte"

definition load32 :: "memory \<Rightarrow> addr \<Rightarrow> u_dword" where
  "load32 m a = ucast (m a) OR push_bit 8 (ucast (m (a + 1)))
     OR push_bit 16 (ucast (m (a + 2))) OR push_bit 24 (ucast (m (a + 3)))"

definition store32 :: "memory \<Rightarrow> addr \<Rightarrow> u_dword \<Rightarrow> memory" where
  "store32 m a v = m(a := ucast v, a + 1 := ucast (drop_bit 8 v),
     a + 2 := ucast (drop_bit 16 v), a + 3 := ucast (drop_bit 24 v))"

lemma load32_store32_same [simp, frame_simps]: "load32 (store32 m a v) a = v"
proof (rule bit_word_eqI)
  fix n
  assume "n < LENGTH(32)"
  then consider "n < 8" | "8 \<le> n \<and> n < 16" | "16 \<le> n \<and> n < 24" | "24 \<le> n \<and> n < 32"
    by fastforce
  then show "bit (load32 (store32 m a v) a) n = bit v n"
    by cases (auto simp: load32_def store32_def bit_or_iff bit_push_bit_iff bit_ucast_iff
      bit_drop_bit_eq)
qed

lemma store32_outside [frame_simps]: "\<not> in_range a 4 x \<Longrightarrow> store32 m a v x = m x"
  unfolding store32_def in_range_def by (auto split: if_splits)

lemma load32_cong: "(\<And>x. in_range a 4 x \<Longrightarrow> m x = m' x) \<Longrightarrow> load32 m a = load32 m' a"
  unfolding load32_def in_range_def by simp

lemma load32_store32_other:
  "disjoint_ranges a 4 b 4 \<Longrightarrow> load32 (store32 m a v) b = load32 m b"
  by (rule load32_cong) (auto intro: store32_outside dest: disjoint_rangesD)

definition load16 :: "memory \<Rightarrow> addr \<Rightarrow> u_word" where
  "load16 m a = ucast (m a) OR push_bit 8 (ucast (m (a + 1)))"

definition store16 :: "memory \<Rightarrow> addr \<Rightarrow> u_word \<Rightarrow> memory" where
  "store16 m a v = m(a := ucast v, a + 1 := ucast (drop_bit 8 v))"

lemma load16_store16_same [simp, frame_simps]: "load16 (store16 m a v) a = v"
proof (rule bit_word_eqI)
  fix n
  assume "n < LENGTH(16)"
  then consider "n < 8" | "8 \<le> n \<and> n < 16"
    by fastforce
  then show "bit (load16 (store16 m a v) a) n = bit v n"
    by cases (auto simp: load16_def store16_def bit_or_iff bit_push_bit_iff bit_ucast_iff
      bit_drop_bit_eq)
qed

lemma store16_outside [frame_simps]: "\<not> in_range a 2 x \<Longrightarrow> store16 m a v x = m x"
  unfolding store16_def in_range_def by (auto split: if_splits)

lemma load16_cong: "(\<And>x. in_range a 2 x \<Longrightarrow> m x = m' x) \<Longrightarrow> load16 m a = load16 m' a"
  unfolding load16_def in_range_def by simp

section \<open>The unsigned comparisons of math.c\<close>

definition min_dword :: "u_dword \<Rightarrow> u_dword \<Rightarrow> u_dword" where
  "min_dword first second = (if first > second then second else first)"

definition max_dword :: "u_dword \<Rightarrow> u_dword \<Rightarrow> u_dword" where
  "max_dword first second = (if first > second then first else second)"

section \<open>The byte loops of memory.c\<close>

text \<open>
  Each C loop \<^verbatim>\<open>for (int i = 0; i < n; ++i)\<close> is a recursion on the number of rounds done:
  the equation for \<open>Suc k\<close> runs rounds \<open>0\<close> to \<open>k - 1\<close> first and round \<open>k\<close> on the memory
  they leave, so an overlap of source and destination is seen as the code sees it. (A count
  of \<open>2 ^ 31\<close> or more overflows the signed counter; C gives such a call no meaning.)
\<close>

primrec copy_rounds :: "addr \<Rightarrow> addr \<Rightarrow> nat \<Rightarrow> memory \<Rightarrow> memory" where
  "copy_rounds source dest 0 m = m"
| "copy_rounds source dest (Suc k) m =
     (let m' = copy_rounds source dest k m
      in m'(dest + of_nat k := m' (source + of_nat k)))"

definition memory_copy :: "addr \<Rightarrow> addr \<Rightarrow> u_dword \<Rightarrow> memory \<Rightarrow> memory" where
  "memory_copy source dest num_bytes m = copy_rounds source dest (unat num_bytes) m"

primrec clear_rounds :: "addr \<Rightarrow> u_byte \<Rightarrow> nat \<Rightarrow> memory \<Rightarrow> memory" where
  "clear_rounds start sample 0 m = m"
| "clear_rounds start sample (Suc k) m =
     (clear_rounds start sample k m)(start + of_nat k := sample)"

definition memory_clear :: "addr \<Rightarrow> u_dword \<Rightarrow> u_byte \<Rightarrow> memory \<Rightarrow> memory" where
  "memory_clear start num_bytes sample m = clear_rounds start sample (unat num_bytes) m"

text \<open>
  The inner loop of \<^verbatim>\<open>memory_fill\<close> copies one sample to offset \<open>i * source_bytes\<close>; the
  index is computed on unsigned double words, as the mixed \<^verbatim>\<open>int\<close>/\<^verbatim>\<open>u_dword\<close> expression is.
\<close>

primrec fill_sample :: "addr \<Rightarrow> addr \<Rightarrow> u_dword \<Rightarrow> nat \<Rightarrow> nat \<Rightarrow> memory \<Rightarrow> memory" where
  "fill_sample dest source source_bytes i 0 m = m"
| "fill_sample dest source source_bytes i (Suc j) m =
     (let m' = fill_sample dest source source_bytes i j m
      in m'(dest + (of_nat i * source_bytes + of_nat j) := m' (source + of_nat j)))"

primrec fill_rounds :: "addr \<Rightarrow> addr \<Rightarrow> u_dword \<Rightarrow> nat \<Rightarrow> memory \<Rightarrow> memory" where
  "fill_rounds dest source source_bytes 0 m = m"
| "fill_rounds dest source source_bytes (Suc i) m =
     fill_sample dest source source_bytes i (unat source_bytes)
       (fill_rounds dest source source_bytes i m)"

definition memory_fill :: "addr \<Rightarrow> addr \<Rightarrow> u_dword \<Rightarrow> u_dword \<Rightarrow> memory \<Rightarrow> memory" where
  "memory_fill dest source source_bytes n_times m =
     fill_rounds dest source source_bytes (unat n_times) m"

primrec compare_rounds :: "addr \<Rightarrow> addr \<Rightarrow> nat \<Rightarrow> memory \<Rightarrow> bool" where
  "compare_rounds comp1 comp2 0 m = True"
| "compare_rounds comp1 comp2 (Suc i) m =
     (compare_rounds comp1 comp2 i m \<and> m (comp1 + of_nat i) = m (comp2 + of_nat i))"

definition memory_compare :: "addr \<Rightarrow> addr \<Rightarrow> u_dword \<Rightarrow> memory \<Rightarrow> bool" where
  "memory_compare comp1 comp2 num_bytes m = compare_rounds comp1 comp2 (unat num_bytes) m"

subsection \<open>What the loops compute\<close>

lemma in_range_0 [simp]: "\<not> in_range a 0 x"
  by (simp add: in_range_def)

lemma in_range_Suc:
  "k < 4294967296 \<Longrightarrow> in_range a (Suc k) x \<longleftrightarrow> in_range a k x \<or> x = a + of_nat k"
proof -
  assume k: "k < 4294967296"
  have "unat (x - a) = k \<longleftrightarrow> x = a + of_nat k"
  proof
    assume "unat (x - a) = k"
    then have "x - a = of_nat k" by (metis word_of_nat_unat)
    then show "x = a + of_nat k" by (simp add: algebra_simps)
  next
    assume "x = a + of_nat k"
    then show "unat (x - a) = k" using k by (simp add: unat_of_nat)
  qed
  then show ?thesis
    by (auto simp: in_range_def less_Suc_eq)
qed

lemma clear_rounds_apply:
  "k \<le> 4294967296 \<Longrightarrow>
    clear_rounds start sample k m x = (if in_range start k x then sample else m x)"
  by (induction k) (auto simp: in_range_Suc)

lemma memory_clear_apply:
  "memory_clear start n sample m x = (if in_range start (unat n) x then sample else m x)"
  by (simp add: memory_clear_def clear_rounds_apply less_imp_le unat_lt32)

lemma copy_rounds_apply:
  assumes "k < 4294967296" and "dest = source \<or> k \<le> unat (dest - source)"
  shows "copy_rounds source dest k m x =
    (if in_range dest k x then m (source + (x - dest)) else m x)"
  using assms
proof (induction k arbitrary: x)
  case 0
  then show ?case by simp
next
  case (Suc k)
  have IH: "copy_rounds source dest k m y =
      (if in_range dest k y then m (source + (y - dest)) else m y)" for y
    using Suc by auto
  have "copy_rounds source dest k m (source + of_nat k) = m (source + of_nat k)"
  proof (cases "dest = source")
    case True
    then show ?thesis using IH by simp
  next
    case False
    have "\<not> in_range dest k (source + of_nat k)"
    proof
      assume "in_range dest k (source + of_nat k)"
      then obtain j where j: "j < k" "source + of_nat k = dest + of_nat j"
        using in_range_imp_offset by blast
      then have "dest - source = of_nat (k - j)"
        by (simp add: of_nat_diff algebra_simps)
      then have "unat (dest - source) = k - j"
        using Suc.prems(1) by (simp add: unat_of_nat)
      then show False using Suc.prems(2) False j(1) by simp
    qed
    then show ?thesis using IH by simp
  qed
  then show ?case
    using Suc.prems(1) IH by (auto simp: Let_def in_range_Suc)
qed

lemma memory_copy_apply:
  assumes "dest = source \<or> unat n \<le> unat (dest - source)"
  shows "memory_copy source dest n m x =
    (if in_range dest (unat n) x then m (source + (x - dest)) else m x)"
  using copy_rounds_apply [of "unat n" dest source m x] assms by (simp add: memory_copy_def unat_lt32)

lemma memory_copy_outside:
  "\<not> in_range dest (unat n) x \<Longrightarrow> memory_copy source dest n m x = m x"
proof -
  have "k \<le> unat n \<Longrightarrow> \<not> in_range dest (unat n) x \<Longrightarrow> copy_rounds source dest k m x = m x" for k
  proof (induction k)
    case (Suc k)
    have "k < 4294967296"
      using Suc.prems(1) unat_lt32 [of n] by simp
    then have "in_range dest (unat n) (dest + of_nat k)"
      using Suc.prems(1) by (simp add: in_range_offset)
    then show ?case using Suc by (auto simp: Let_def)
  qed simp
  then show "\<not> in_range dest (unat n) x \<Longrightarrow> memory_copy source dest n m x = m x"
    by (simp add: memory_copy_def)
qed

lemma memory_compare_iff:
  "memory_compare a b n m \<longleftrightarrow> (\<forall>i < unat n. m (a + of_nat i) = m (b + of_nat i))"
proof -
  have "compare_rounds a b k m \<longleftrightarrow> (\<forall>i < k. m (a + of_nat i) = m (b + of_nat i))" for k
    by (induction k) (auto simp: less_Suc_eq)
  then show ?thesis by (simp add: memory_compare_def)
qed

lemma fill_sample_copy_rounds:
  "fill_sample dest source sb i j m = copy_rounds source (dest + of_nat i * sb) j m"
  by (induction j) (simp_all add: Let_def add.assoc)

lemma unat_shift_back:
  assumes "unat (y - of_nat a :: u_dword) < b" and "a + b \<le> 4294967296"
  shows "unat y = a + unat (y - of_nat a)"
proof -
  have a: "unat (of_nat a :: u_dword) = a"
    using assms by (intro unat_of_nat32) linarith
  have "unat (y - of_nat a) + unat (of_nat a :: u_dword) < 4294967296"
    using assms unfolding a by linarith
  then have "unat ((y - of_nat a) + of_nat a) = unat (y - of_nat a) + a"
    by (simp only: unat_plus_small a)
  then show ?thesis by simp
qed

lemma in_range_append_offset:
  assumes "in_range (d + of_nat a) b x" and "a + b \<le> 4294967296"
  shows "unat (x - d) = a + unat (x - (d + of_nat a))"
  using unat_shift_back [of "x - d" a b] assms
  by (simp add: in_range_def diff_diff_add)

lemma in_range_append:
  assumes "a + b \<le> 4294967296"
  shows "in_range d (a + b) x \<longleftrightarrow> in_range d a x \<or> in_range (d + of_nat a) b x"
proof
  assume l: "in_range d (a + b) x"
  show "in_range d a x \<or> in_range (d + of_nat a) b x"
  proof (cases "in_range d a x")
    case False
    then have ge: "a \<le> unat (x - d)" and lt: "unat (x - d) < a + b"
      using l by (simp_all add: in_range_def)
    have "unat (of_nat a :: u_dword) = a"
      using ge unat_lt32 [of "x - d"] by (intro unat_of_nat32) linarith
    then have "unat (x - d - of_nat a) = unat (x - d) - a"
      using ge by (simp only: unat_minus_ge)
    then show ?thesis using ge lt by (simp add: in_range_def diff_diff_add)
  qed simp
next
  assume "in_range d a x \<or> in_range (d + of_nat a) b x"
  then show "in_range d (a + b) x"
    using in_range_append_offset [OF _ assms] by (auto simp: in_range_def)
qed

lemma disjoint_ranges_distance:
  assumes "disjoint_ranges source k dest n" and "0 < n"
  shows "k \<le> unat (dest - source)"
proof (rule ccontr)
  assume "\<not> ?thesis"
  then have "in_range source k dest" by (simp add: in_range_def)
  moreover have "in_range dest n dest" using assms(2) by (simp add: in_range_def)
  ultimately show False using assms(1) by (auto dest: disjoint_rangesD)
qed

lemma fill_rounds_apply:
  assumes "i * unat sb \<le> 4294967296" and "disjoint_ranges source (unat sb) dest (i * unat sb)"
  shows "fill_rounds dest source sb i m x =
    (if in_range dest (i * unat sb) x then m (source + of_nat (unat (x - dest) mod unat sb))
     else m x)"
  using assms
proof (induction i arbitrary: x)
  case 0
  then show ?case by simp
next
  case (Suc i)
  let ?k = "unat sb" and ?d = "dest + of_nat i * sb"
  have le: "i * ?k + ?k \<le> 4294967296" and Suc_eq: "Suc i * ?k = i * ?k + ?k" and d: "?d = dest + of_nat (i * ?k)"
    using Suc.prems(1) by simp_all
  have split: "in_range dest (Suc i * ?k) y \<longleftrightarrow> in_range dest (i * ?k) y \<or> in_range ?d ?k y" for y
    unfolding Suc_eq d by (rule in_range_append [OF le])
  have sub: "disjoint_ranges source ?k dest (i * ?k)" and sub': "disjoint_ranges source ?k ?d ?k"
    using Suc.prems(2) unfolding disjoint_ranges_def split by blast+
  have IH: "fill_rounds dest source sb i m y =
    (if in_range dest (i * ?k) y then m (source + of_nat (unat (y - dest) mod ?k)) else m y)" for y
    using Suc.IH [OF _ sub] Suc.prems(1) by simp
  have src: "fill_rounds dest source sb i m (source + (x - ?d)) = m (source + (x - ?d))"
    if "in_range ?d ?k x"
  proof -
    have "in_range source ?k (source + (x - ?d))"
      using that by (simp add: in_range_def)
    then show ?thesis using sub IH by (auto dest: disjoint_rangesD)
  qed
  have cond: "?d = source \<or> ?k \<le> unat (?d - source)"
    using disjoint_ranges_distance [OF sub'] by (cases "?k = 0") auto
  have "fill_rounds dest source sb (Suc i) m x =
    (if in_range ?d ?k x then fill_rounds dest source sb i m (source + (x - ?d))
     else fill_rounds dest source sb i m x)"
    using copy_rounds_apply [OF _ cond] by (simp add: fill_sample_copy_rounds unat_lt32)
  also have "\<dots> = (if in_range dest (Suc i * ?k) x
      then m (source + of_nat (unat (x - dest) mod ?k)) else m x)"
  proof (cases "in_range ?d ?k x")
    case True
    then have "unat (x - dest) = i * ?k + unat (x - ?d)" and "unat (x - ?d) < ?k"
      using in_range_append_offset [OF _ le, of dest x] unfolding d by (simp_all add: in_range_def)
    then have "unat (x - dest) mod ?k = unat (x - ?d)"
      by (simp only: mod_mult_self3 mod_less)
    then show ?thesis using True src split by simp
  next
    case False
    then show ?thesis using IH split by simp
  qed
  finally show ?case .
qed

lemma memory_fill_apply:
  assumes "unat n * unat sb \<le> 4294967296"
    and "disjoint_ranges source (unat sb) dest (unat n * unat sb)"
  shows "memory_fill dest source sb n m x =
    (if in_range dest (unat n * unat sb) x
     then m (source + of_nat (unat (x - dest) mod unat sb)) else m x)"
  using fill_rounds_apply [OF assms] by (simp add: memory_fill_def)

section \<open>C strings\<close>

text \<open>\<open>cstring m p xs\<close>: at \<open>p\<close> lie the non-zero bytes \<open>xs\<close> and then the terminating zero.\<close>

primrec cstring :: "memory \<Rightarrow> addr \<Rightarrow> u_byte list \<Rightarrow> bool" where
  "cstring m p [] \<longleftrightarrow> m p = 0"
| "cstring m p (x # xs) \<longleftrightarrow> m p = x \<and> x \<noteq> 0 \<and> cstring m (p + 1) xs"

lemma cstring_iff:
  "cstring m p xs \<longleftrightarrow>
    (\<forall>i < length xs. m (p + of_nat i) = xs ! i) \<and> m (p + of_nat (length xs)) = 0 \<and> 0 \<notin> set xs"
proof (induction xs arbitrary: p)
  case Nil
  then show ?case by simp
next
  case (Cons x xs)
  have "(\<forall>i < length (x # xs). m (p + of_nat i) = (x # xs) ! i) \<longleftrightarrow>
      m p = x \<and> (\<forall>i < length xs. m (p + 1 + of_nat i) = xs ! i)"
    by (auto simp: less_Suc_eq_0_disj add.assoc)
  then show ?case using Cons.IH [of "p + 1"] by (auto simp: add.assoc)
qed

lemma cstring_cong:
  assumes "\<And>i. i \<le> length xs \<Longrightarrow> m' (p + of_nat i) = m (p + of_nat i)"
  shows "cstring m' p xs \<longleftrightarrow> cstring m p xs"
  using assms by (simp add: cstring_iff)

lemma cstring_unique: "cstring m p xs \<Longrightarrow> cstring m p ys \<Longrightarrow> xs = ys"
proof (induction xs arbitrary: p ys)
  case Nil
  then show ?case by (cases ys) auto
next
  case (Cons x xs)
  then show ?case by (cases ys) auto
qed

section \<open>The machine: memory, devices and the port log\<close>

text \<open>
  \<^verbatim>\<open>core/drivers/ports_io.asm\<close> moves bytes between registers and I/O ports. What a port
  answers is decided by the hardware, which is not part of the program: \<open>device\<close> gives the
  byte read from a port after a given history of port traffic (newest event first), and no
  operation changes it, and \<open>word_device\<close> does so for reads of words. The log \<open>io_trace\<close> is that history. Locals live in registers, but
  two routines of the screen driver take the address of a local; \<open>stack_slot\<close> is the stack
  address the compiler gives it.
\<close>

datatype io_event = In u_word u_byte | Out u_word u_byte | InW u_word u_word

record machine =
  mem :: memory
  device :: "io_event list \<Rightarrow> u_word \<Rightarrow> u_byte"
  io_trace :: "io_event list"
  stack_slot :: addr
  word_device :: "io_event list \<Rightarrow> u_word \<Rightarrow> u_word"

definition port_byte_in :: "u_word \<Rightarrow> 'a machine_scheme \<Rightarrow> u_byte \<times> 'a machine_scheme" where
  "port_byte_in port s =
     (let v = device s (io_trace s) port in (v, s\<lparr>io_trace := In port v # io_trace s\<rparr>))"

definition port_byte_out :: "u_word \<Rightarrow> u_byte \<Rightarrow> 'a machine_scheme \<Rightarrow> 'a machine_scheme" where
  "port_byte_out port v s = s\<lparr>io_trace := Out port v # io_trace s\<rparr>"

definition port_word_in :: "u_word \<Rightarrow> 'a machine_scheme \<Rightarrow> u_word \<times> 'a machine_scheme" where
  "port_word_in port s =
     (let v = word_device s (io_trace s) port in (v, s\<lparr>io_trace := InW port v # io_trace s\<rparr>))"

end
