(* ===== verification/Screen.thy ===== *)
theory Screen
  imports Memory
begin

text \<open>
  The VGA text driver \<^verbatim>\<open>core/drivers/screen.c\<close>: cursor position through the CRTC ports,
  character output with newline, backspace and tab, scrolling, clearing, and the body of the
  system call on vector 48. The abstract screen is a list of 2000 cells and a cursor;
  character output refines an operation on it.
\<close>

section \<open>Constants and coordinates\<close>

definition REG_SCREEN_CTRL :: u_word where "REG_SCREEN_CTRL = 0x3d4"
definition REG_SCREEN_DATA :: u_word where "REG_SCREEN_DATA = 0x3d5"
definition VIDEO_MEMORY :: addr where "VIDEO_MEMORY = 0xb8000"

abbreviation ROWS_NUM :: u_dword where "ROWS_NUM \<equiv> 25"
abbreviation COLS_NUM :: u_dword where "COLS_NUM \<equiv> 80"

record screen_coords =
  row :: u_word
  column :: u_word

section \<open>Cursor\<close>

definition get_cursor_offset :: "'a machine_scheme \<Rightarrow> u_dword \<times> 'a machine_scheme" where
  "get_cursor_offset s =
     (let s = port_byte_out REG_SCREEN_CTRL 14 s;
          (hi, s) = port_byte_in REG_SCREEN_DATA s;
          offset = push_bit 8 (scast hi) AND 0xff00;
          s = port_byte_out REG_SCREEN_CTRL 15 s;
          (lo, s) = port_byte_in REG_SCREEN_DATA s
      in (offset + (scast lo AND 0x00ff), s))"

definition set_cursor_offset :: "u_dword \<Rightarrow> 'a machine_scheme \<Rightarrow> 'a machine_scheme" where
  "set_cursor_offset offset s =
     (let s = port_byte_out REG_SCREEN_CTRL 14 s;
          s = port_byte_out REG_SCREEN_DATA (ucast (drop_bit 8 (offset AND 0xff00))) s;
          s = port_byte_out REG_SCREEN_CTRL 15 s
      in port_byte_out REG_SCREEN_DATA (ucast (offset AND 0x00ff)) s)"

definition get_cursor :: "'a machine_scheme \<Rightarrow> screen_coords \<times> 'a machine_scheme" where
  "get_cursor s =
     (let (offset, s) = get_cursor_offset s
      in (\<lparr>row = ucast (offset mod COLS_NUM + 1), column = ucast (offset div COLS_NUM)\<rparr>, s))"

definition set_cursor :: "screen_coords \<Rightarrow> 'a machine_scheme \<Rightarrow> 'a machine_scheme" where
  "set_cursor coords s =
     set_cursor_offset (scast (row coords) * COLS_NUM + scast (column coords)) s"

section \<open>Scrolling and output\<close>

text \<open>The blank cell \<^verbatim>\<open>(BLACK << 12) + (LIGHT_GRAY << 8) + ' '\<close>.\<close>

definition blank_sample :: u_word where
  "blank_sample = push_bit 12 0 + push_bit 8 7 + 32"

primrec scroll_rows :: "nat \<Rightarrow> memory \<Rightarrow> memory" where
  "scroll_rows 0 m = m"
| "scroll_rows (Suc k) m =
     (let i = of_nat (Suc k);
          curr_row = VIDEO_MEMORY + i * COLS_NUM * 2;
          prev_row = VIDEO_MEMORY + (i - 1) * COLS_NUM * 2
      in memory_copy curr_row prev_row (COLS_NUM * 2) (scroll_rows k m))"

definition scroll :: "u_dword \<Rightarrow> 'a machine_scheme \<Rightarrow> u_dword \<times> 'a machine_scheme" where
  "scroll cursor_offset s =
     (if cursor_offset < COLS_NUM * ROWS_NUM * 2 then (cursor_offset, s)
      else
        (let m = scroll_rows (unat ROWS_NUM - 1) (mem s);
             last_row = VIDEO_MEMORY + (ROWS_NUM - 1) * COLS_NUM * 2;
             m = store16 m (stack_slot s) blank_sample;
             m = memory_fill last_row (stack_slot s) 2 COLS_NUM m
         in (cursor_offset - COLS_NUM * 2, s\<lparr>mem := m\<rparr>)))"

definition put_cell :: "memory \<Rightarrow> u_dword \<Rightarrow> u_byte \<Rightarrow> u_byte \<Rightarrow> memory" where
  "put_cell m mem_offset c attributes =
     m(VIDEO_MEMORY + mem_offset := c, VIDEO_MEMORY + (mem_offset + 1) := attributes)"

primrec put_tab :: "nat \<Rightarrow> memory \<Rightarrow> u_dword \<Rightarrow> u_byte \<Rightarrow> memory" where
  "put_tab 0 m mem_offset attributes = m"
| "put_tab (Suc i) m mem_offset attributes =
     put_cell (put_tab i m mem_offset attributes) (mem_offset + 2 * of_nat i) 32 attributes"

definition print_char_color ::
    "u_byte \<Rightarrow> u_byte \<Rightarrow> u_byte \<Rightarrow> 'a machine_scheme \<Rightarrow> 'a machine_scheme" where
  "print_char_color c text_color back_color s =
     (let attributes = push_bit 4 back_color + text_color;
          (offset, s) = get_cursor_offset s;
          mem_offset = offset * 2;
          (mem_offset, s) =
            (if c = 10 then
               (let rows = (mem_offset div 2) div COLS_NUM + 1
                in (2 * COLS_NUM * rows - 2, s))
             else if c = 8 then
               (let mem_offset = mem_offset - 2
                in (mem_offset - 2, s\<lparr>mem := put_cell (mem s) mem_offset 32 attributes\<rparr>))
             else if c = 9 then
               (mem_offset + 6, s\<lparr>mem := put_tab 4 (mem s) mem_offset attributes\<rparr>)
             else
               (mem_offset, s\<lparr>mem := put_cell (mem s) mem_offset c attributes\<rparr>));
          mem_offset = mem_offset + 2;
          (mem_offset, s) = scroll mem_offset s
      in set_cursor_offset (mem_offset div 2) s)"

definition get_char :: "screen_coords \<Rightarrow> 'a machine_scheme \<Rightarrow> u_byte" where
  "get_char coords s = mem s (VIDEO_MEMORY + scast (row coords) * scast (column coords))"

text \<open>
  \<^verbatim>\<open>print_string_color\<close> counts with a signed \<^verbatim>\<open>int\<close>: after \<open>2 ^ 31\<close> rounds the counter
  overflows, which C leaves undefined, so the rounds left are an exact bound and running out
  of them is the outcome \<open>Undefined\<close>.
\<close>

primrec print_until_nul ::
    "nat \<Rightarrow> addr \<Rightarrow> u_byte \<Rightarrow> u_byte \<Rightarrow> 'a machine_scheme \<Rightarrow> ('a machine_scheme, unit) result" where
  "print_until_nul 0 p text_color back_color s = Inl (Undefined s)"
| "print_until_nul (Suc rounds) p text_color back_color s =
     (if mem s p = 0 then Inr ((), s)
      else print_until_nul rounds (p + 1) text_color back_color
        (print_char_color (mem s p) text_color back_color s))"

primrec print_counted ::
    "nat \<Rightarrow> addr \<Rightarrow> u_byte \<Rightarrow> u_byte \<Rightarrow> 'a machine_scheme \<Rightarrow> 'a machine_scheme" where
  "print_counted 0 p text_color back_color s = s"
| "print_counted (Suc n) p text_color back_color s =
     print_counted n (p + 1) text_color back_color
       (print_char_color (mem s p) text_color back_color s)"

definition print_string_color ::
    "addr \<Rightarrow> u_byte \<Rightarrow> u_byte \<Rightarrow> u_dword \<Rightarrow> 'a machine_scheme \<Rightarrow> ('a machine_scheme, unit) result" where
  "print_string_color str text_color back_color num s =
     (if num = 0 then print_until_nul (2 ^ 31) str text_color back_color s
      else if unat num \<ge> 2 ^ 31 then Inl (Undefined s)
      else Inr ((), print_counted (unat num) str text_color back_color s))"

definition clear_screen :: "'a machine_scheme \<Rightarrow> 'a machine_scheme" where
  "clear_screen s =
     (let m = store16 (mem s) (stack_slot s) blank_sample;
          m = memory_fill VIDEO_MEMORY (stack_slot s) 2 (COLS_NUM * ROWS_NUM) m
      in set_cursor \<lparr>row = 0, column = 0\<rparr> (s\<lparr>mem := m\<rparr>))"

section \<open>The system call on vector 48\<close>

text \<open>
  \<^verbatim>\<open>syscall.h\<close>: argument \<open>n\<close> of a system call lies above the saved frame pointer, and the
  result replaces argument 0.
\<close>

definition system_get_arg :: "addr \<Rightarrow> u_dword \<Rightarrow> 'a machine_scheme \<Rightarrow> u_dword" where
  "system_get_arg stack_base arg_num s = load32 (mem s) (stack_base + 4 + arg_num * 4)"

definition system_push :: "addr \<Rightarrow> u_dword \<Rightarrow> 'a machine_scheme \<Rightarrow> 'a machine_scheme" where
  "system_push stack_base v s = s\<lparr>mem := store32 (mem s) (stack_base + 4) v\<rparr>"

text \<open>
  The \<^verbatim>\<open>switch\<close> of \<^verbatim>\<open>screen_callback\<close>. The \<^verbatim>\<open>SET_CHARS\<close> case has no \<^verbatim>\<open>break\<close> and runs on
  into \<^verbatim>\<open>GET_CURSOR\<close>, so a printing call answers with the cursor position.
\<close>

definition screen_callback :: "addr \<Rightarrow> 'a machine_scheme \<Rightarrow> ('a machine_scheme, unit) result" where
  "screen_callback ebp s =
     (let call_type = system_get_arg ebp 0 s in
      and_then
        (if call_type = 0 then
           Inr (scast (get_char \<lparr>row = 0, column = 0\<rparr> s), s)
         else if call_type = 1 then
           (let character = system_get_arg ebp 1 s; front_color = system_get_arg ebp 2 s;
                back_color = system_get_arg ebp 3 s
            in Inr (0, print_char_color (ucast character) (ucast front_color) (ucast back_color) s))
         else if call_type = 2 then
           (let str = system_get_arg ebp 1 s; front_color = system_get_arg ebp 2 s;
                back_color = system_get_arg ebp 3 s; num = system_get_arg ebp 4 s
            in and_then (print_string_color str (ucast front_color) (ucast back_color) num s)
                 (\<lambda>_ s. Inr (get_cursor_offset s)))
         else if call_type = 3 then Inr (get_cursor_offset s)
         else if call_type = 4 then Inr (0, set_cursor_offset (system_get_arg ebp 1 s) s)
         else if call_type = 5 then Inr (0, clear_screen s)
         else Inr (0, s))
        (\<lambda>ret_value s. Inr ((), system_push ebp ret_value s)))"

section \<open>The CRTC\<close>

text \<open>
  What the driver relies on from the VGA hardware: a write to the control port selects a
  register, a write to the data port sets the selected register, and a read of the data port
  answers with the last value the selected register was given. Registers 14 and 15 hold the
  cursor location. \<open>crtc_index\<close> and \<open>crtc_reg\<close> read that state off the port history.
\<close>

fun crtc_index :: "io_event list \<Rightarrow> u_byte option" where
  "crtc_index [] = None"
| "crtc_index (Out p v # t) = (if p = 0x3d4 then Some v else crtc_index t)"
| "crtc_index (In p v # t) = crtc_index t"
| "crtc_index (InW p w # t) = crtc_index t"

fun crtc_reg :: "u_byte \<Rightarrow> io_event list \<Rightarrow> u_byte option" where
  "crtc_reg r [] = None"
| "crtc_reg r (Out p v # t) =
     (if p = 0x3d5 \<and> crtc_index t = Some r then Some v else crtc_reg r t)"
| "crtc_reg r (In p v # t) = crtc_reg r t"
| "crtc_reg r (InW p w # t) = crtc_reg r t"

definition vga_crtc :: "(io_event list \<Rightarrow> u_word \<Rightarrow> u_byte) \<Rightarrow> bool" where
  "vga_crtc dev \<longleftrightarrow>
     (\<forall>t r v. (r = 14 \<or> r = 15) \<longrightarrow> crtc_index t = Some r \<longrightarrow> crtc_reg r t = Some v \<longrightarrow>
        dev t REG_SCREEN_DATA = v)"

definition cursor_is :: "'a machine_scheme \<Rightarrow> u_word \<Rightarrow> bool" where
  "cursor_is s c \<longleftrightarrow> crtc_reg 14 (io_trace s) = Some (ucast (drop_bit 8 c))
     \<and> crtc_reg 15 (io_trace s) = Some (ucast c)"

text \<open>A device that behaves so; the other ports answer zero.\<close>

definition vga_device :: "io_event list \<Rightarrow> u_word \<Rightarrow> u_byte" where
  "vga_device t port =
     (if port = REG_SCREEN_DATA then
        (case crtc_index t of None \<Rightarrow> 0
         | Some r \<Rightarrow> (case crtc_reg r t of None \<Rightarrow> 0 | Some v \<Rightarrow> v))
      else 0)"

lemma vga_device_crtc: "vga_crtc vga_device"
  by (simp add: vga_crtc_def vga_device_def)

lemmas port_defs = port_byte_in_def port_byte_out_def REG_SCREEN_CTRL_def REG_SCREEN_DATA_def

lemma bit_255_iff: "bit (0xff :: u_dword) n \<longleftrightarrow> n < 8"
proof -
  have e: "(0xff :: u_dword) = mask 8"
    by (simp add: mask_eq_exp_minus_1)
  show ?thesis unfolding e by (auto simp: bit_mask_iff)
qed

lemma bit_65280_iff: "bit (0xff00 :: u_dword) n \<longleftrightarrow> 8 \<le> n \<and> n < 16"
proof -
  have e: "(0xff00 :: u_dword) = push_bit 8 (mask 8)"
    by (simp add: mask_eq_exp_minus_1 push_bit_eq_mult)
  show ?thesis unfolding e by (auto simp only: bit_push_bit_iff bit_mask_iff, auto)
qed

lemma halves_of_cursor:
  fixes c :: u_word
  shows "(push_bit 8 (scast (ucast (drop_bit 8 c) :: u_byte)) AND 0xff00) + (scast (ucast c :: u_byte) AND 0xff)
    = (ucast c :: u_dword)" (is "?h + ?l = _")
proof -
  have "?h AND ?l = 0"
    by (rule bit_word_eqI) (simp only: bit_and_iff bit_255_iff bit_65280_iff bit_0_eq, auto)
  then have "?h + ?l = ?h OR ?l"
    by (simp add: disjunctive_add_eq_or)
  also have "\<dots> = ucast c"
  proof (rule bit_word_eqI)
    fix n assume "n < LENGTH(32)"
    then consider "n < 8" | "8 \<le> n \<and> n < 16" | "16 \<le> n \<and> n < 32" by fastforce
    then show "bit (?h OR ?l) n = bit (ucast c :: u_dword) n"
      by cases (simp_all only: bit_or_iff bit_and_iff bit_255_iff bit_65280_iff bit_push_bit_iff,
        auto simp: bit_signed_iff bit_ucast_iff bit_drop_bit_eq dest: bit_imp_le_length)
  qed
  finally show ?thesis .
qed

lemma get_cursor_offset_eq:
  assumes "vga_crtc (device s)" and "cursor_is s c"
  shows "fst (get_cursor_offset s) = ucast c"
    and "\<exists>t. snd (get_cursor_offset s) = s\<lparr>io_trace := t\<rparr> \<and> cursor_is (s\<lparr>io_trace := t\<rparr>) c"
proof -
  have hi: "device s (Out REG_SCREEN_CTRL 14 # io_trace s) REG_SCREEN_DATA = ucast (drop_bit 8 c)"
    and lo: "device s (Out REG_SCREEN_CTRL 15 # In p v # Out REG_SCREEN_CTRL 14 # io_trace s) REG_SCREEN_DATA = ucast c" for p v
    using assms unfolding vga_crtc_def cursor_is_def by (auto simp: REG_SCREEN_CTRL_def)
  show "fst (get_cursor_offset s) = ucast c"
    by (simp add: get_cursor_offset_def port_byte_in_def port_byte_out_def Let_def hi lo halves_of_cursor)
  show "\<exists>t. snd (get_cursor_offset s) = s\<lparr>io_trace := t\<rparr> \<and> cursor_is (s\<lparr>io_trace := t\<rparr>) c"
    using assms(2) by (auto simp: get_cursor_offset_def port_defs cursor_is_def Let_def)
qed

lemma set_cursor_offset_cursor: "cursor_is (set_cursor_offset off s) (ucast off)"
proof -
  have "ucast (drop_bit 8 (off AND 0xff00)) = (ucast (drop_bit 8 (ucast off :: u_word)) :: u_byte)"
    by (rule bit_word_eqI)
      (simp only: bit_ucast_iff bit_drop_bit_eq bit_and_iff bit_65280_iff o_apply, auto)
  moreover have "ucast (off AND 0xff) = (ucast (ucast off :: u_word) :: u_byte)"
    by (rule bit_word_eqI) (simp only: bit_ucast_iff bit_and_iff bit_255_iff, auto)
  ultimately show ?thesis
    by (simp add: cursor_is_def set_cursor_offset_def port_defs)
qed

lemma set_cursor_offset_frame [simp]:
  "mem (set_cursor_offset off s) = mem s" "device (set_cursor_offset off s) = device s"
  "stack_slot (set_cursor_offset off s) = stack_slot s"
  by (simp_all add: set_cursor_offset_def port_byte_out_def)

lemma get_cursor_offset_frame [simp]:
  "mem (snd (get_cursor_offset s)) = mem s" "device (snd (get_cursor_offset s)) = device s"
  "stack_slot (snd (get_cursor_offset s)) = stack_slot s"
  by (simp_all add: get_cursor_offset_def port_byte_out_def port_byte_in_def Let_def)

section \<open>The abstract screen\<close>

text \<open>
  The visible part of video memory is a list of 2000 cells (character and attribute), row
  after row. \<open>cells_of\<close> reads it off memory, \<open>spec_scroll\<close> and \<open>spec_print\<close> say what output
  does to it.
\<close>

type_synonym cell = "u_byte \<times> u_byte"

definition cell_at :: "memory \<Rightarrow> nat \<Rightarrow> cell" where
  "cell_at m i = (m (VIDEO_MEMORY + of_nat (2 * i)), m (VIDEO_MEMORY + of_nat (2 * i + 1)))"

definition cells_of :: "memory \<Rightarrow> cell list" where
  "cells_of m = map (cell_at m) [0..<2000]"

definition blank_row :: "cell list" where
  "blank_row = replicate 80 (0x20, 0x07)"

definition spec_scroll :: "cell list \<times> nat \<Rightarrow> cell list \<times> nat" where
  "spec_scroll v = (if snd v < 2000 then v else (drop 80 (fst v) @ blank_row, snd v - 80))"

definition spec_print :: "u_byte \<Rightarrow> u_byte \<Rightarrow> cell list \<times> nat \<Rightarrow> cell list \<times> nat" where
  "spec_print c attr v =
     (let (cells, cur) = v in spec_scroll
       (if c = 10 then (cells, 80 * (cur div 80 + 1))
        else if c = 8 then (cells[cur - 1 := (32, attr)], cur - 1)
        else if c = 9 then
          (cells[cur := (32, attr), cur + 1 := (32, attr), cur + 2 := (32, attr), cur + 3 := (32, attr)],
           cur + 4)
        else (cells[cur := (c, attr)], cur + 1)))"

lemma length_cells_of [simp]: "length (cells_of m) = 2000"
  by (simp add: cells_of_def)

lemma nth_cells_of [simp]: "i < 2000 \<Longrightarrow> cells_of m ! i = cell_at m i"
  by (simp add: cells_of_def)

lemma video_offset_eq:
  "i < 4294967296 \<Longrightarrow> j < 4294967296 \<Longrightarrow>
    VIDEO_MEMORY + of_nat i = VIDEO_MEMORY + of_nat j \<longleftrightarrow> i = j"
  by (metis add_left_cancel unat_of_nat32)

lemma cells_of_put_cell:
  assumes "k < 3000"
  shows "cells_of (put_cell m (of_nat (2 * k)) c a) = (cells_of m)[k := (c, a)]"
proof (rule nth_equalityI)
  fix i
  assume "i < length (cells_of (put_cell m (of_nat (2 * k)) c a))"
  then have i: "i < 2000" by simp
  have e: "(of_nat (2 * k) + 1 :: u_dword) = of_nat (2 * k + 1)" by simp
  have ne: "2 * i \<noteq> 2 * k + 1" "2 * i + 1 \<noteq> 2 * k" by presburger+
  have "cell_at (put_cell m (of_nat (2 * k)) c a) i = (if i = k then (c, a) else cell_at m i)"
    using i assms ne unfolding cell_at_def put_cell_def e
    by (simp only: fun_upd_apply video_offset_eq) (simp add: video_offset_eq)
  then show "cells_of (put_cell m (of_nat (2 * k)) c a) ! i = (cells_of m)[k := (c, a)] ! i"
    using i by (simp add: nth_list_update)
qed simp

lemma scroll_rows_apply:
  assumes "k \<le> 24"
  shows "scroll_rows k m x = (if in_range VIDEO_MEMORY (160 * k) x then m (x + 160) else m x)"
  using assms
proof (induction k arbitrary: x)
  case 0
  then show ?case by simp
next
  case (Suc k)
  let ?d = "VIDEO_MEMORY + of_nat (160 * k)"
  have d: "VIDEO_MEMORY + (of_nat (Suc k) - 1) * COLS_NUM * 2 = ?d"
    and src: "VIDEO_MEMORY + of_nat (Suc k) * COLS_NUM * 2 = ?d + 160"
    by (simp_all add: algebra_simps)
  have cond: "?d = ?d + 160 \<or> unat (160 :: u_dword) \<le> unat (?d - (?d + 160))"
    by simp
  have app: "in_range VIDEO_MEMORY (160 * Suc k) x \<longleftrightarrow>
      in_range VIDEO_MEMORY (160 * k) x \<or> in_range ?d 160 x"
    using in_range_append [of "160 * k" 160 VIDEO_MEMORY x] Suc.prems by (simp add: add.commute)
  have "scroll_rows (Suc k) m x = memory_copy (?d + 160) ?d 160 (scroll_rows k m) x"
    by (simp only: scroll_rows.simps Let_def d src) simp
  also have "\<dots> = (if in_range ?d 160 x then scroll_rows k m (?d + 160 + (x - ?d)) else scroll_rows k m x)"
    using memory_copy_apply [OF cond, of "scroll_rows k m" x] by simp
  also have "\<dots> = (if in_range VIDEO_MEMORY (160 * Suc k) x then m (x + 160) else m x)"
  proof (cases "in_range ?d 160 x")
    case True
    have "\<not> in_range VIDEO_MEMORY (160 * k) (x + 160)"
    proof -
      have x: "unat (x - VIDEO_MEMORY) = 160 * k + unat (x - ?d)" "unat (x - ?d) < 160"
        using in_range_append_offset [OF True] Suc.prems True by (simp_all add: in_range_def)
      have "unat ((x - VIDEO_MEMORY) + 160) = unat (x - VIDEO_MEMORY) + unat (160 :: u_dword)"
        using x Suc.prems by (intro unat_plus_small) simp
      moreover have "x + 160 - VIDEO_MEMORY = (x - VIDEO_MEMORY) + 160" and "unat (160 :: u_dword) = 160"
        by simp_all
      ultimately have "unat (x + 160 - VIDEO_MEMORY) = 160 * k + unat (x - ?d) + 160"
        using x by (simp only:)
      then show ?thesis unfolding in_range_def by linarith
    qed
    then show ?thesis using True Suc app by (simp add: add.commute [of 160])
  next
    case False
    then show ?thesis using Suc app by simp
  qed
  finally show ?case .
qed

definition slot_ok :: "'a machine_scheme \<Rightarrow> bool" where
  "slot_ok s \<longleftrightarrow> disjoint_ranges (stack_slot s) 2 VIDEO_MEMORY 4000"

lemma video_nat:
  "off < 4294967296 - 0xb8000 \<Longrightarrow> unat (VIDEO_MEMORY + of_nat off) = 0xb8000 + off"
  unfolding VIDEO_MEMORY_def by (subst unat_plus_small) (simp_all add: unat_of_nat32)

lemma in_video_offset:
  "off < 4294967296 \<Longrightarrow> in_range VIDEO_MEMORY n (VIDEO_MEMORY + of_nat off) \<longleftrightarrow> off < n"
  by (rule in_range_offset)

lemma slot_outside:
  "slot_ok s \<Longrightarrow> off < 4000 \<Longrightarrow> \<not> in_range (stack_slot s) 2 (VIDEO_MEMORY + of_nat off)"
  unfolding slot_ok_def by (auto dest!: disjoint_rangesD simp: in_video_offset)

lemma slot_last_row:
  assumes "slot_ok s"
  shows "disjoint_ranges (stack_slot s) 2 (VIDEO_MEMORY + of_nat 3840) 160"
proof -
  have "in_range VIDEO_MEMORY (3840 + 160) x" if "in_range (VIDEO_MEMORY + of_nat 3840) 160 x" for x
    using that in_range_append [of 3840 160 VIDEO_MEMORY x] by simp
  then show ?thesis using assms unfolding slot_ok_def disjoint_ranges_def by auto
qed

lemma fill_from_slot:
  assumes "disjoint_ranges slot 2 dest (unat n * 2)" and "unat n * 2 \<le> 4294967296"
  shows "memory_fill dest slot 2 n (store16 m slot v) x =
    (if in_range dest (unat n * 2) x
     then (if even (unat (x - dest)) then ucast v else ucast (drop_bit 8 v))
     else store16 m slot v x)"
proof -
  have "(2 :: nat) = unat (2 :: u_dword)" by simp
  then have "memory_fill dest slot 2 n (store16 m slot v) x =
    (if in_range dest (unat n * 2) x
     then store16 m slot v (slot + of_nat (unat (x - dest) mod 2)) else store16 m slot v x)"
    using memory_fill_apply [of n 2 slot dest] assms by simp
  moreover have "store16 m slot v (slot + of_nat (k mod 2)) =
    (if even k then ucast v else ucast (drop_bit 8 v))" for k :: nat
    by (cases "even k") (auto simp: store16_def odd_iff_mod_2_eq_one)
  ultimately show ?thesis by simp
qed

definition scrolled :: "'a machine_scheme \<Rightarrow> memory" where
  "scrolled s = memory_fill (VIDEO_MEMORY + 3840) (stack_slot s) 2 80
     (store16 (scroll_rows 24 (mem s)) (stack_slot s) blank_sample)"

lemma scroll_eq:
  "scroll off s = (if off < 4000 then (off, s) else (off - 160, s\<lparr>mem := scrolled s\<rparr>))"
  by (simp add: scroll_def scrolled_def)

lemma scrolled_apply:
  assumes "slot_ok s" and "off < 4000"
  shows "scrolled s (VIDEO_MEMORY + of_nat off) =
    (if off < 3840 then mem s (VIDEO_MEMORY + of_nat (off + 160))
     else if even off then 0x20 else 0x07)"
proof -
  let ?x = "VIDEO_MEMORY + of_nat off :: addr"
  have d: "VIDEO_MEMORY + 3840 = VIDEO_MEMORY + of_nat 3840" by simp
  have last: "in_range (VIDEO_MEMORY + of_nat 3840) 160 ?x \<longleftrightarrow> 3840 \<le> off"
    using in_range_append [of 3840 160 VIDEO_MEMORY ?x] assms(2)
      in_range_append_offset [of VIDEO_MEMORY 3840 160 ?x]
    by (auto simp: in_video_offset unat_of_nat32)
  have par: "even (unat (?x - (VIDEO_MEMORY + of_nat 3840))) \<longleftrightarrow> even off" if "3840 \<le> off"
  proof -
    have "?x - (VIDEO_MEMORY + of_nat 3840) = of_nat (off - 3840)"
      using that by (simp add: of_nat_diff)
    then have "unat (?x - (VIDEO_MEMORY + of_nat 3840)) = off - 3840"
      using assms(2) by (simp only: unat_of_nat32)
    then show ?thesis using that by simp
  qed
  have "scrolled s ?x =
    (if in_range (VIDEO_MEMORY + of_nat 3840) 160 ?x
     then (if even (unat (?x - (VIDEO_MEMORY + of_nat 3840))) then ucast blank_sample
           else ucast (drop_bit 8 blank_sample))
     else store16 (scroll_rows 24 (mem s)) (stack_slot s) blank_sample ?x)"
    unfolding scrolled_def d
    using fill_from_slot [of "stack_slot s" "VIDEO_MEMORY + of_nat 3840" 80 "scroll_rows 24 (mem s)" blank_sample ?x]
      slot_last_row [OF assms(1)] by simp
  also have "\<dots> = (if off < 3840 then mem s (VIDEO_MEMORY + of_nat (off + 160))
     else if even off then 0x20 else 0x07)"
  proof (cases "off < 3840")
    case True
    have "store16 (scroll_rows 24 (mem s)) (stack_slot s) blank_sample ?x =
        mem s (VIDEO_MEMORY + of_nat (off + 160))"
      using True assms
      by (simp add: store16_outside slot_outside scroll_rows_apply in_video_offset add.assoc)
    with True show ?thesis unfolding last by (simp only: not_le) simp
  next
    case False
    then have "3840 \<le> off" by simp
    with False show ?thesis
      unfolding last par [OF \<open>3840 \<le> off\<close>] by (simp add: blank_sample_def)
  qed
  finally show ?thesis .
qed

lemma cells_of_scrolled:
  assumes "slot_ok s"
  shows "cells_of (scrolled s) = drop 80 (cells_of (mem s)) @ blank_row"
proof (rule nth_equalityI)
  fix i
  assume "i < length (cells_of (scrolled s))"
  then have i: "i < 2000" by simp
  have "cell_at (scrolled s) i = (if i < 1920 then cell_at (mem s) (i + 80) else (0x20, 0x07))"
    using i unfolding cell_at_def
    by (simp only: scrolled_apply [OF assms]) (auto simp: algebra_simps)
  then show "cells_of (scrolled s) ! i = (drop 80 (cells_of (mem s)) @ blank_row) ! i"
    using i by (auto simp: nth_append blank_row_def add.commute)
qed (simp add: blank_row_def)

lemma of_nat_double_div2: "n < 2147483648 \<Longrightarrow> (of_nat (2 * n) :: u_dword) div 2 = of_nat n"
  by (rule word_eq_unatI) (simp add: unat_div unat_of_nat32 del: of_nat_mult)

lemma scroll_refines:
  assumes "slot_ok s" and "cur < 2080"
  shows "cells_of (mem (snd (scroll (of_nat (2 * cur)) s))) = fst (spec_scroll (cells_of (mem s), cur))"
    and "fst (scroll (of_nat (2 * cur)) s) = of_nat (2 * snd (spec_scroll (cells_of (mem s), cur)))"
    and "snd (spec_scroll (cells_of (mem s), cur)) < 2000"
    and "device (snd (scroll (of_nat (2 * cur)) s)) = device s"
    and "stack_slot (snd (scroll (of_nat (2 * cur)) s)) = stack_slot s"
proof -
  have lt: "(of_nat (2 * cur) :: u_dword) < 4000 \<longleftrightarrow> cur < 2000"
    using assms(2) by (simp add: word_less_nat_alt unat_of_nat32 del: of_nat_mult)
  show "cells_of (mem (snd (scroll (of_nat (2 * cur)) s))) = fst (spec_scroll (cells_of (mem s), cur))"
    unfolding scroll_eq lt by (simp add: spec_scroll_def cells_of_scrolled assms(1))
  show "fst (scroll (of_nat (2 * cur)) s) = of_nat (2 * snd (spec_scroll (cells_of (mem s), cur)))"
    unfolding scroll_eq lt by (simp add: spec_scroll_def of_nat_diff algebra_simps)
  show "snd (spec_scroll (cells_of (mem s), cur)) < 2000"
    using assms(2) by (auto simp: spec_scroll_def)
  show "device (snd (scroll (of_nat (2 * cur)) s)) = device s"
    and "stack_slot (snd (scroll (of_nat (2 * cur)) s)) = stack_slot s"
    by (simp_all add: scroll_eq)
qed

text \<open>One character before scrolling: the new memory and the (undivided) offset it leaves.\<close>

definition put_char :: "u_byte \<Rightarrow> u_byte \<Rightarrow> u_dword \<Rightarrow> memory \<Rightarrow> memory \<times> u_dword" where
  "put_char c attributes mem_offset m =
     (if c = 10 then (m, 2 * COLS_NUM * ((mem_offset div 2) div COLS_NUM + 1) - 2)
      else if c = 8 then (put_cell m (mem_offset - 2) 32 attributes, mem_offset - 2 - 2)
      else if c = 9 then (put_tab 4 m mem_offset attributes, mem_offset + 6)
      else (put_cell m mem_offset c attributes, mem_offset))"

lemma print_char_color_eq:
  "print_char_color c f b s =
     (let (m, off) = put_char c (push_bit 4 b + f) (fst (get_cursor_offset s) * 2) (mem s);
          (off, s) = scroll (off + 2) ((snd (get_cursor_offset s))\<lparr>mem := m\<rparr>)
      in set_cursor_offset (off div 2) s)"
proof (cases "get_cursor_offset s")
  case (Pair a t)
  then have m: "mem s = mem t"
    using get_cursor_offset_frame(1) [of s] by simp
  have "t\<lparr>mem := mem t\<rparr> = t" by simp
  with Pair m show ?thesis
    by (simp add: print_char_color_def put_char_def Let_def split_def)
qed

lemma put_char_refines:
  assumes "cur < 2000" and "\<not> (c = 8 \<and> cur = 0)"
  shows "\<exists>cur'. cur' < 2080 \<and> snd (put_char c attr (of_nat (2 * cur)) m) + 2 = of_nat (2 * cur') \<and>
    spec_print c attr (cells_of m, cur) =
      spec_scroll (cells_of (fst (put_char c attr (of_nat (2 * cur)) m)), cur')"
proof -
  have w: "(of_nat (2 * cur) :: u_dword) + of_nat (2 * i) = of_nat (2 * (cur + i))" for i
    by (simp add: algebra_simps)
  consider "c = 10" | "c = 8" | "c = 9" | "c \<noteq> 10" "c \<noteq> 8" "c \<noteq> 9" by blast
  then show ?thesis
  proof cases
    case 1
    have "(of_nat cur :: u_dword) div 80 = of_nat (cur div 80)"
      using assms(1) by (intro word_eq_unatI) (simp add: unat_div unat_of_nat32 del: of_nat_div)
    then have "snd (put_char c attr (of_nat (2 * cur)) m) + 2 = of_nat (2 * (80 * (cur div 80 + 1)))"
      using 1 assms(1) by (simp only: put_char_def of_nat_double_div2 if_True snd_conv) simp
    moreover have "cur div 80 < 25"
      by (rule less_mult_imp_div_less) (use assms(1) in simp)
    then have "80 * (cur div 80 + 1) < 2080" by simp
    moreover have "fst (put_char c attr (of_nat (2 * cur)) m) = m"
      using 1 by (simp add: put_char_def)
    ultimately show ?thesis
      using 1 by (intro exI [of _ "80 * (cur div 80 + 1)"]) (simp add: spec_print_def)
  next
    case 2
    then have "0 < cur" using assms(2) by auto
    then have "(of_nat (2 * cur) :: u_dword) - 2 = of_nat (2 * (cur - 1))"
      by (simp add: of_nat_diff algebra_simps)
    then show ?thesis
      using 2 assms(1) by (intro exI [of _ "cur - 1"])
        (simp add: put_char_def spec_print_def cells_of_put_cell del: of_nat_mult)
  next
    case 3
    have "cells_of (put_tab 4 m (of_nat (2 * cur)) attr) =
      (cells_of m)[cur := (32, attr), cur + 1 := (32, attr), cur + 2 := (32, attr), cur + 3 := (32, attr)]"
    proof -
      have "put_tab 4 m (of_nat (2 * cur)) attr =
        put_cell (put_cell (put_cell (put_cell m (of_nat (2 * (cur + 0))) 32 attr)
          (of_nat (2 * (cur + 1))) 32 attr) (of_nat (2 * (cur + 2))) 32 attr)
          (of_nat (2 * (cur + 3))) 32 attr"
        unfolding w [symmetric] by (simp add: eval_nat_numeral)
      then show ?thesis
        using assms(1) by (simp only: cells_of_put_cell) (simp add: cells_of_put_cell del: of_nat_mult)
    qed
    then show ?thesis
      using 3 assms(1) w [of 4] by (intro exI [of _ "cur + 4"])
        (simp add: put_char_def spec_print_def del: of_nat_mult)
  next
    case 4
    then show ?thesis
      using assms(1) w [of 1] by (intro exI [of _ "cur + 1"])
        (simp add: put_char_def spec_print_def cells_of_put_cell del: of_nat_mult)
  qed
qed

lemma ucast_of_nat16: "ucast (of_nat n :: u_dword) = (of_nat n :: u_word)"
  by transfer simp

lemma print_char_step:
  assumes "vga_crtc (device s)" and "cursor_is s c" and "slot_ok s"
    and "unat c < 2000" and "\<not> (ch = 8 \<and> c = 0)"
  shows "cells_of (mem (print_char_color ch f b s)) =
      fst (spec_print ch (push_bit 4 b + f) (cells_of (mem s), unat c))"
    and "cursor_is (print_char_color ch f b s)
      (of_nat (snd (spec_print ch (push_bit 4 b + f) (cells_of (mem s), unat c))))"
    and "snd (spec_print ch (push_bit 4 b + f) (cells_of (mem s), unat c)) < 2000"
    and "device (print_char_color ch f b s) = device s"
    and "stack_slot (print_char_color ch f b s) = stack_slot s"
proof -
  let ?attr = "push_bit 4 b + f" and ?n = "unat c"
  have off: "fst (get_cursor_offset s) * 2 = of_nat (2 * ?n)"
    using get_cursor_offset_eq(1) [OF assms(1,2)] by (simp add: mult.commute)
  let ?m = "fst (put_char ch ?attr (of_nat (2 * ?n)) (mem s))"
  let ?s = "(snd (get_cursor_offset s))\<lparr>mem := ?m\<rparr>"
  have nz: "\<not> (ch = 8 \<and> ?n = 0)"
    using assms(5) unat_eq_zero by blast
  obtain cur' where cur': "cur' < 2080" "snd (put_char ch ?attr (of_nat (2 * ?n)) (mem s)) + 2 = of_nat (2 * cur')"
    "spec_print ch ?attr (cells_of (mem s), ?n) = spec_scroll (cells_of ?m, cur')"
    using put_char_refines [OF assms(4) nz] by blast
  have eq: "print_char_color ch f b s =
    set_cursor_offset (fst (scroll (of_nat (2 * cur')) ?s) div 2) (snd (scroll (of_nat (2 * cur')) ?s))"
    by (simp only: print_char_color_eq off Let_def split_def cur'(2))
  have "slot_ok ?s" using assms(3) by (simp add: slot_ok_def)
  have "mem ?s = ?m" by simp
  note r = scroll_refines [OF \<open>slot_ok ?s\<close> cur'(1), unfolded \<open>mem ?s = ?m\<close>]
  show "cells_of (mem (print_char_color ch f b s)) = fst (spec_print ch ?attr (cells_of (mem s), ?n))"
    using r(1) by (simp add: eq cur'(3))
  show lt: "snd (spec_print ch ?attr (cells_of (mem s), ?n)) < 2000"
    using r(3) by (simp add: cur'(3))
  have "fst (scroll (of_nat (2 * cur')) ?s) div 2 = of_nat (snd (spec_print ch ?attr (cells_of (mem s), ?n)))"
    using r(2) lt by (simp only: cur'(3) of_nat_double_div2)
  then show "cursor_is (print_char_color ch f b s) (of_nat (snd (spec_print ch ?attr (cells_of (mem s), ?n))))"
    unfolding eq using set_cursor_offset_cursor by (metis ucast_of_nat16)
  show "device (print_char_color ch f b s) = device s"
    and "stack_slot (print_char_color ch f b s) = stack_slot s"
    using r(4,5) by (simp_all add: eq)
qed

section \<open>What output may touch\<close>

text \<open>
  A tab printed in the last three cells of the screen writes up to six bytes behind the
  visible 4000; with the scratch word of the scrolling routine these are the only bytes any
  output operation writes.
\<close>

definition screen_bytes :: "'a machine_scheme \<Rightarrow> addr \<Rightarrow> bool" where
  "screen_bytes s x \<longleftrightarrow> in_range VIDEO_MEMORY 4006 x \<or> in_range (stack_slot s) 2 x"

lemma put_cell_outside:
  assumes "\<not> in_range VIDEO_MEMORY 4006 x" and "k < 2003"
  shows "put_cell m (of_nat (2 * k)) c a x = m x"
proof -
  have "in_range VIDEO_MEMORY 4006 (VIDEO_MEMORY + of_nat (2 * k))"
    "in_range VIDEO_MEMORY 4006 (VIDEO_MEMORY + of_nat (2 * k + 1))"
    using assms(2) by (simp_all only: in_video_offset)
  moreover have "(of_nat (2 * k) + 1 :: u_dword) = of_nat (2 * k + 1)" by simp
  ultimately show ?thesis
    using assms(1) unfolding put_cell_def by (metis fun_upd_other)
qed

lemma scrolled_outside:
  assumes "slot_ok s" and "\<not> screen_bytes s x"
  shows "scrolled s x = mem s x"
proof -
  have sub: "in_range VIDEO_MEMORY n x \<Longrightarrow> n \<le> 4006 \<Longrightarrow> False" for n
    using assms(2) by (auto simp: screen_bytes_def in_range_def)
  have "\<not> in_range (VIDEO_MEMORY + of_nat 3840) 160 x"
    using sub [of 4000] in_range_append [of 3840 160 VIDEO_MEMORY x] by auto
  then have "scrolled s x = store16 (scroll_rows 24 (mem s)) (stack_slot s) blank_sample x"
    using fill_from_slot [of "stack_slot s" "VIDEO_MEMORY + of_nat 3840" 80 "scroll_rows 24 (mem s)" blank_sample x]
      slot_last_row [OF assms(1)] by (simp add: scrolled_def)
  then show ?thesis
    using assms(2) sub [of 3840] by (auto simp: store16_outside screen_bytes_def scroll_rows_apply)
qed

lemma put_char_outside:
  assumes "\<not> in_range VIDEO_MEMORY 4006 x" and "cur < 2000" and "\<not> (c = 8 \<and> cur = 0)"
  shows "fst (put_char c a (of_nat (2 * cur)) m) x = m x"
proof -
  have w: "(of_nat (2 * cur) :: u_dword) + 2 * of_nat i = of_nat (2 * (cur + i))" for i
    by (simp add: algebra_simps)
  have bs: "(of_nat (2 * cur) :: u_dword) - 2 = of_nat (2 * (cur - 1))" if "0 < cur"
    using that by (simp add: of_nat_diff algebra_simps)
  have tab: "i \<le> 4 \<Longrightarrow> put_tab i m (of_nat (2 * cur)) a x = m x" for i
    using assms(2) by (induction i) (simp_all only: put_tab.simps w put_cell_outside [OF assms(1)])
  consider "c = 10" | "c = 8" "0 < cur" | "c = 9" | "c \<noteq> 10" "c \<noteq> 8" "c \<noteq> 9"
    using assms(3) by blast
  then show ?thesis
  proof cases
    case 2
    then show ?thesis
      using assms(2) by (simp add: put_char_def bs put_cell_outside [OF assms(1)] del: of_nat_mult)
  next
    case 3
    then show ?thesis using tab by (simp add: put_char_def)
  next
    case 4
    then show ?thesis
      using assms(2) by (simp add: put_char_def put_cell_outside [OF assms(1)] del: of_nat_mult)
  qed (simp add: put_char_def)
qed

lemma print_char_outside:
  assumes "vga_crtc (device s)" and "cursor_is s c" and "slot_ok s"
    and "unat c < 2000" and "\<not> (ch = 8 \<and> c = 0)" and "\<not> screen_bytes s x"
  shows "mem (print_char_color ch f b s) x = mem s x"
proof -
  let ?attr = "push_bit 4 b + f" and ?n = "unat c"
  let ?m = "fst (put_char ch ?attr (of_nat (2 * ?n)) (mem s))"
  let ?s = "(snd (get_cursor_offset s))\<lparr>mem := ?m\<rparr>"
  have off: "fst (get_cursor_offset s) * 2 = of_nat (2 * ?n)"
    using get_cursor_offset_eq(1) [OF assms(1,2)] by (simp add: mult.commute)
  have nz: "\<not> (ch = 8 \<and> ?n = 0)"
    using assms(5) unat_eq_zero by blast
  have m: "mem ?s x = mem s x"
    using put_char_outside [OF _ assms(4) nz] assms(6) by (simp add: screen_bytes_def)
  have "mem (snd (scroll off' ?s)) x = mem s x" for off'
    using scrolled_outside [of ?s x] assms(3,6) m
    by (auto simp: scroll_eq slot_ok_def screen_bytes_def)
  then show ?thesis
    by (simp only: print_char_color_eq off Let_def split_def set_cursor_offset_frame)
qed

text \<open>
  Output changes memory and the port history and nothing else of the state; and the ports it touches are the two
  of the display.
\<close>

definition io_only :: "'a machine_scheme \<Rightarrow> 'a machine_scheme \<Rightarrow> bool" where
  "io_only s s' \<longleftrightarrow> s' = s\<lparr>mem := mem s', io_trace := io_trace s'\<rparr>"

fun event_port :: "io_event \<Rightarrow> u_word" where
  "event_port (In p v) = p"
| "event_port (Out p v) = p"
| "event_port (InW p w) = p"

definition display_ports :: "io_event list \<Rightarrow> bool" where
  "display_ports es \<longleftrightarrow> (\<forall>e \<in> set es. event_port e = REG_SCREEN_CTRL \<or> event_port e = REG_SCREEN_DATA)"

definition output_only :: "'a machine_scheme \<Rightarrow> 'a machine_scheme \<Rightarrow> bool" where
  "output_only s s' \<longleftrightarrow> io_only s s' \<and> (\<exists>es. io_trace s' = es @ io_trace s \<and> display_ports es)"

lemma output_io_only: "output_only s s' \<Longrightarrow> io_only s s'"
  by (simp add: output_only_def)

lemma output_only_refl [simp]: "output_only s s"
  by (simp add: output_only_def io_only_def display_ports_def)

lemma io_only_trans:
  assumes "io_only s s'" and "io_only s' s''"
  shows "io_only s s''"
proof -
  have "s'' = s\<lparr>mem := mem s', io_trace := io_trace s'\<rparr>\<lparr>mem := mem s'', io_trace := io_trace s''\<rparr>"
    using assms unfolding io_only_def by metis
  then show ?thesis by (simp add: io_only_def)
qed

lemma output_only_trans:
  assumes "output_only s s'" and "output_only s' s''"
  shows "output_only s s''"
proof -
  obtain es es' where "io_trace s' = es @ io_trace s" "io_trace s'' = es' @ io_trace s'" "display_ports es" "display_ports es'"
    using assms by (auto simp: output_only_def)
  then have "io_trace s'' = (es' @ es) @ io_trace s" "display_ports (es' @ es)" by (auto simp: display_ports_def)
  then show ?thesis using io_only_trans assms unfolding output_only_def by blast
qed

lemma output_only_step:
  assumes "s' = s\<lparr>mem := m, io_trace := es @ io_trace s\<rparr>" and "display_ports es"
  shows "output_only s s'"
  using assms by (auto simp: output_only_def io_only_def)

lemma port_output_only:
  assumes "p = REG_SCREEN_CTRL \<or> p = REG_SCREEN_DATA"
  shows "output_only s (port_byte_out p v s)" and "output_only s (snd (port_byte_in p s))"
proof -
  show "output_only s (port_byte_out p v s)"
    by (rule output_only_step [where m = "mem s" and es = "[Out p v]"]) (use assms in \<open>simp_all add: port_byte_out_def display_ports_def\<close>)
  show "output_only s (snd (port_byte_in p s))"
    by (rule output_only_step [where m = "mem s" and es = "[In p (device s (io_trace s) p)]"])
      (use assms in \<open>simp_all add: port_byte_in_def Let_def display_ports_def\<close>)
qed

lemmas display_out = port_output_only(1) [OF disjI1 [OF refl]] port_output_only(1) [OF disjI2 [OF refl]]
lemmas display_in = port_output_only(2) [OF disjI2 [OF refl]]

lemma get_cursor_offset_only: "output_only s (snd (get_cursor_offset s))"
proof -
  have "snd (get_cursor_offset s) = snd (port_byte_in REG_SCREEN_DATA (port_byte_out REG_SCREEN_CTRL 15
      (snd (port_byte_in REG_SCREEN_DATA (port_byte_out REG_SCREEN_CTRL 14 s)))))"
    by (simp add: get_cursor_offset_def Let_def split_def)
  then show ?thesis
    using output_only_trans [OF output_only_trans [OF output_only_trans [OF display_out(1) display_in] display_out(1)] display_in] by metis
qed

lemma print_char_color_only: "output_only s (print_char_color ch f b s)"
proof -
  note get_cursor_offset_only [of s]
  moreover have "output_only s' (set_cursor_offset off s')" for off and s' :: "'a machine_scheme"
    unfolding set_cursor_offset_def Let_def
    by (rule output_only_trans [OF output_only_trans [OF output_only_trans [OF display_out(1) display_out(2)] display_out(1)] display_out(2)])
  moreover have "output_only s' (s'\<lparr>mem := m\<rparr>)" for m and s' :: "'a machine_scheme"
    by (rule output_only_step [where es = "[]"]) (simp_all add: display_ports_def)
  moreover from this have "output_only s' (snd (scroll off s'))" for off and s' :: "'a machine_scheme"
    by (simp add: scroll_eq)
  ultimately show ?thesis unfolding print_char_color_eq Let_def split_def by (blast intro: output_only_trans)
qed

lemma print_until_nul_refines:
  assumes "vga_crtc (device s)" and "cursor_is s c" and "slot_ok s" and "unat c < 2000"
    and "cstring (mem s) p xs" and "8 \<notin> set xs" and "length xs < rounds"
    and "\<And>i. i \<le> length xs \<Longrightarrow> \<not> screen_bytes s (p + of_nat i)"
  shows "\<exists>s'. print_until_nul rounds p f b s = Inr ((), s') \<and>
    cells_of (mem s') = fst (fold (\<lambda>ch. spec_print ch (push_bit 4 b + f)) xs (cells_of (mem s), unat c)) \<and>
    cursor_is s' (of_nat (snd (fold (\<lambda>ch. spec_print ch (push_bit 4 b + f)) xs (cells_of (mem s), unat c)))) \<and>
    snd (fold (\<lambda>ch. spec_print ch (push_bit 4 b + f)) xs (cells_of (mem s), unat c)) < 2000 \<and>
    output_only s s' \<and> (\<forall>x. \<not> screen_bytes s x \<longrightarrow> mem s' x = mem s x)"
  using assms
proof (induction xs arbitrary: s p c rounds)
  case Nil
  then show ?case by (cases rounds) auto
next
  case (Cons x xs)
  let ?attr = "push_bit 4 b + f"
  let ?s = "print_char_color x f b s" and ?v = "spec_print x (push_bit 4 b + f) (cells_of (mem s), unat c)"
  let ?c = "of_nat (snd (spec_print x (push_bit 4 b + f) (cells_of (mem s), unat c))) :: u_word"
  have nb: "\<not> (x = 8 \<and> c = 0)" using Cons.prems(6) by auto
  note step = print_char_step [OF Cons.prems(1-4) nb, where f = f and b = b]
  note frame = print_char_outside [OF Cons.prems(1-4) nb, where f = f and b = b]
  have c: "unat ?c = snd ?v"
    using step(3) by (simp add: unat_of_nat)
  have apart: "\<not> screen_bytes s (p + 1 + of_nat i)" if "i \<le> length xs" for i
    using Cons.prems(8) [of "Suc i"] that by (simp add: add.assoc)
  have "cstring (mem ?s) (p + 1) xs"
    using Cons.prems(5) cstring_cong [of xs "mem ?s" "p + 1" "mem s"] apart frame by auto
  moreover have "slot_ok ?s" using Cons.prems(3) step(5) by (simp add: slot_ok_def)
  moreover have "\<not> screen_bytes ?s (p + 1 + of_nat i)" if "i \<le> length xs" for i
    using apart [OF that] step(5) by (simp add: screen_bytes_def)
  ultimately have ih: "\<exists>s'. print_until_nul r (p + 1) f b ?s = Inr ((), s') \<and>
    cells_of (mem s') = fst (fold (\<lambda>ch. spec_print ch ?attr) xs (cells_of (mem ?s), unat ?c)) \<and>
    cursor_is s' (of_nat (snd (fold (\<lambda>ch. spec_print ch ?attr) xs (cells_of (mem ?s), unat ?c)))) \<and>
    snd (fold (\<lambda>ch. spec_print ch ?attr) xs (cells_of (mem ?s), unat ?c)) < 2000 \<and>
    output_only ?s s' \<and> (\<forall>x. \<not> screen_bytes ?s x \<longrightarrow> mem s' x = mem ?s x)"
    if "length xs < r" for r
    using that Cons.prems(1,6) step(2,3,4) c by (intro Cons.IH) auto
  have v: "(cells_of (mem ?s), unat ?c) = ?v"
    using step(1) c by (simp add: prod_eq_iff)
  from Cons.prems(7) obtain r where r: "rounds = Suc r" "length xs < r" by (cases rounds) auto
  from ih [OF r(2)] obtain s' where s': "print_until_nul r (p + 1) f b ?s = Inr ((), s')"
    "cells_of (mem s') = fst (fold (\<lambda>ch. spec_print ch ?attr) xs ?v)"
    "cursor_is s' (of_nat (snd (fold (\<lambda>ch. spec_print ch ?attr) xs ?v)))"
    "snd (fold (\<lambda>ch. spec_print ch ?attr) xs ?v) < 2000" "output_only ?s s'"
    "\<And>x. \<not> screen_bytes ?s x \<Longrightarrow> mem s' x = mem ?s x" unfolding v by blast
  have "print_until_nul rounds p f b s = Inr ((), s')" using s'(1) r(1) Cons.prems(5) by simp
  moreover have "output_only s s'" using print_char_color_only s'(5) by (rule output_only_trans)
  moreover have "mem s' y = mem s y" if "\<not> screen_bytes s y" for y
    using s'(6) [of y] frame [OF that] that step(5) by (simp add: screen_bytes_def)
  ultimately show ?case using s'(2-4) by auto
qed

lemma cells_of_cleared:
  assumes "slot_ok s"
  shows "cells_of (mem (clear_screen s)) = replicate 2000 (0x20, 0x07)"
proof (rule nth_equalityI)
  let ?m = "mem (clear_screen s)"
  fix i
  assume "i < length (cells_of ?m)"
  then have i: "i < 2000" by simp
  have at: "?m (VIDEO_MEMORY + of_nat off) = (if even off then 0x20 else 0x07)" if "off < 4000" for off
  proof -
    have "unat (VIDEO_MEMORY + of_nat off - VIDEO_MEMORY) = off"
      using that by (simp add: unat_of_nat32)
    then show ?thesis
      using fill_from_slot [of "stack_slot s" VIDEO_MEMORY 2000 "mem s" blank_sample "VIDEO_MEMORY + of_nat off"]
        assms that
      by (simp add: clear_screen_def set_cursor_def slot_ok_def in_video_offset blank_sample_def)
  qed
  have "cell_at ?m i = (0x20, 0x07)"
    unfolding cell_at_def using at [of "2 * i"] at [of "2 * i + 1"] i by simp
  then show "cells_of ?m ! i = replicate 2000 (0x20, 0x07) ! i" using i by simp
qed simp

section \<open>Properties of the screen driver\<close>

text \<open>A state for the witnesses: blank memory, the VGA device, cursor at cell 1999.\<close>

definition demo_screen :: machine where
  "demo_screen = set_cursor_offset 1999
     \<lparr>mem = (\<lambda>_. 0), device = vga_device, io_trace = [], stack_slot = 0x6000, word_device = (\<lambda>_ _. 0)\<rparr>"

lemma demo_screen_facts:
  "vga_crtc (device demo_screen)" "cursor_is demo_screen 1999" "slot_ok demo_screen"
proof -
  show "vga_crtc (device demo_screen)"
    by (simp add: demo_screen_def vga_device_crtc)
  show "cursor_is demo_screen 1999"
    using set_cursor_offset_cursor [of 1999] by (simp add: demo_screen_def)
  show "slot_ok demo_screen"
    unfolding slot_ok_def
    by (rule disjoint_ranges_linear) (simp_all add: demo_screen_def VIDEO_MEMORY_def)
qed

text \<open>
  (C7) Character output refines the abstract screen: on a cursor inside the grid, printing any
  character but a backspace at the origin changes the visible cells and the cursor exactly as
  \<open>spec_print\<close> says (newline to the next row, backspace blanks the previous cell, tab blanks
  four, everything else is written at the cursor; past the last cell the rows move up and a
  blank row appears), and the cursor stays inside the grid.
\<close>

theorem print_char_color_refines:
  assumes "vga_crtc (device s)" and "cursor_is s c" and "slot_ok s"
    and "unat c < 2000" and "\<not> (ch = 8 \<and> c = 0)"
  shows "let (cells, cur) = spec_print ch (push_bit 4 b + f) (cells_of (mem s), unat c);
             s' = print_char_color ch f b s
         in cells_of (mem s') = cells \<and> cursor_is s' (of_nat cur) \<and> cur < 2000 \<and>
            (\<forall>x. \<not> screen_bytes s x \<longrightarrow> mem s' x = mem s x)"
  using print_char_step [OF assms, where f = f and b = b]
    print_char_outside [OF assms, where f = f and b = b]
  by (simp add: Let_def split_def)

theorem print_char_color_refines_witness:
  "let (cells, cur) = spec_print 65 (push_bit 4 0 + 7) (cells_of (mem demo_screen), unat (1999 :: u_word));
       s' = print_char_color 65 7 0 demo_screen
   in cells_of (mem s') = cells \<and> cursor_is s' (of_nat cur) \<and> cur < 2000 \<and>
      (\<forall>x. \<not> screen_bytes demo_screen x \<longrightarrow> mem s' x = mem demo_screen x)"
  by (rule print_char_color_refines) (simp_all add: demo_screen_facts)

text \<open>
  The cursor registers round-trip: what \<^verbatim>\<open>set_cursor_offset\<close> writes through the CRTC
  ports, \<^verbatim>\<open>get_cursor_offset\<close> reads back, up to the sixteen bits the hardware keeps.
\<close>

lemma cursor_roundtrip:
  assumes "vga_crtc (device s)"
  shows "fst (get_cursor_offset (set_cursor_offset off s)) = off AND 0xffff"
proof -
  have "fst (get_cursor_offset (set_cursor_offset off s)) = ucast (ucast off :: u_word)"
    using assms by (intro get_cursor_offset_eq(1)) (simp_all add: set_cursor_offset_cursor)
  also have "\<dots> = off AND mask 16"
    by (rule bit_word_eqI) (auto simp: bit_ucast_iff bit_and_iff bit_mask_iff)
  finally show ?thesis by (simp add: mask_eq_exp_minus_1)
qed

text \<open>
  (C33) Printing a string: a zero-terminated string that lies outside the bytes the driver
  writes is printed character by character as the abstract screen prescribes, the call
  returns, and nothing but the bytes of the driver and the port history changes.
\<close>

theorem print_string_color_refines:
  assumes "vga_crtc (device s)" and "cursor_is s c" and "slot_ok s" and "unat c < 2000"
    and "cstring (mem s) str xs" and "8 \<notin> set xs" and "length xs < 2 ^ 31"
    and "\<And>i. i \<le> length xs \<Longrightarrow> \<not> screen_bytes s (str + of_nat i)"
  shows "\<exists>s'. print_string_color str f b 0 s = Inr ((), s') \<and>
    (cells_of (mem s'), snd (fold (\<lambda>ch. spec_print ch (push_bit 4 b + f)) xs (cells_of (mem s), unat c)))
      = fold (\<lambda>ch. spec_print ch (push_bit 4 b + f)) xs (cells_of (mem s), unat c) \<and>
    cursor_is s' (of_nat (snd (fold (\<lambda>ch. spec_print ch (push_bit 4 b + f)) xs (cells_of (mem s), unat c)))) \<and>
    output_only s s' \<and> (\<forall>x. \<not> screen_bytes s x \<longrightarrow> mem s' x = mem s x)"
  using print_until_nul_refines [OF assms, where f = f and b = b]
  by (auto simp: print_string_color_def prod_eq_iff)

definition demo_text :: machine where
  "demo_text = demo_screen\<lparr>mem := (\<lambda>_. 0)(0x9000 := 72, 0x9001 := 105)\<rparr>"

theorem print_string_color_refines_witness:
  "\<exists>s'. print_string_color 0x9000 7 0 0 demo_text = Inr ((), s') \<and>
    (cells_of (mem s'), snd (fold (\<lambda>ch. spec_print ch (push_bit 4 0 + 7)) [72, 105] (cells_of (mem demo_text), unat (1999 :: u_word))))
      = fold (\<lambda>ch. spec_print ch (push_bit 4 0 + 7)) [72, 105] (cells_of (mem demo_text), unat (1999 :: u_word)) \<and>
    cursor_is s' (of_nat (snd (fold (\<lambda>ch. spec_print ch (push_bit 4 0 + 7)) [72, 105] (cells_of (mem demo_text), unat (1999 :: u_word))))) \<and>
    output_only demo_text s' \<and> (\<forall>x. \<not> screen_bytes demo_text x \<longrightarrow> mem s' x = mem demo_text x)"
proof (rule print_string_color_refines)
  show "vga_crtc (device demo_text)" "cursor_is demo_text 1999" "slot_ok demo_text"
    using demo_screen_facts by (simp_all add: demo_text_def cursor_is_def slot_ok_def)
  show "cstring (mem demo_text) 0x9000 [72, 105]"
    by (simp add: demo_text_def)
  fix i
  assume "i \<le> length [72, 105 :: u_byte]"
  then have "i = 0 \<or> i = 1 \<or> i = 2" by auto
  then show "\<not> screen_bytes demo_text (0x9000 + of_nat i)"
    by (auto simp: screen_bytes_def in_range_def demo_text_def demo_screen_def set_cursor_offset_def
      port_byte_out_def VIDEO_MEMORY_def)
qed simp_all

text \<open>Clearing blanks all 2000 cells and moves the cursor to the origin.\<close>

lemma clear_screen_blank:
  assumes "slot_ok s"
  shows "cells_of (mem (clear_screen s)) = replicate 2000 (0x20, 0x07) \<and> cursor_is (clear_screen s) 0"
  using cells_of_cleared [OF assms] set_cursor_offset_cursor [of 0]
  by (simp add: clear_screen_def set_cursor_def)

lemma clear_screen_blank_demo:
  "cells_of (mem (clear_screen demo_screen)) = replicate 2000 (0x20, 0x07) \<and>
    cursor_is (clear_screen demo_screen) 0"
  using clear_screen_blank demo_screen_facts by blast

text \<open>
  (C34) Backspace at the origin is not guarded: the offset wraps below zero, the byte pair in
  front of video memory is overwritten, the screen scrolls and the cursor register is left at
  65455, far outside the grid.
\<close>

theorem backspace_at_origin_leaves_screen:
  assumes "vga_crtc (device s)" and "cursor_is s 0"
  shows "cursor_is (print_char_color 8 f b s) 65455"
proof -
  have "fst (get_cursor_offset s) = 0"
    using get_cursor_offset_eq(1) [OF assms] by simp
  then have eq: "\<exists>t. print_char_color 8 f b s = set_cursor_offset 0x7fffffaf t"
    by (auto simp: print_char_color_eq put_char_def scroll_eq Let_def)
  moreover have "(ucast (0x7fffffaf :: u_dword) :: u_word) = 65455"
    by (simp add: word_unat_eq_iff)
  ultimately show ?thesis
    using set_cursor_offset_cursor by metis
qed

theorem backspace_at_origin_leaves_screen_witness:
  "cursor_is (print_char_color 8 7 0 (set_cursor_offset 0 demo_screen)) 65455"
  using backspace_at_origin_leaves_screen [of "set_cursor_offset 0 demo_screen"]
    set_cursor_offset_cursor [of 0 demo_screen] demo_screen_facts by simp

end
