(* ===== verification/Exceptions.thy ===== *)
theory Exceptions
  imports Screen
begin

text \<open>
  \<^verbatim>\<open>lib/base/exceptions.c\<close>: a table of 256 handlers, registration and dispatch; and the two
  handlers the sources register for allocation exceptions, the one of the library heap
  (\<^verbatim>\<open>lib/base/heap.c\<close>) and the one of the kernel (\<^verbatim>\<open>core/kernel/heap.c\<close>).
\<close>

section \<open>State\<close>

text \<open>
  A handler is a function pointer; the sources define two. \<open>literal\<close> is the address the linker
  gives a string literal in \<^verbatim>\<open>.rodata\<close>; no operation changes it.
\<close>

datatype exception_handler = Lib_allocation_handler | Kernel_allocation_handler

record exc_state = machine +
  handlers :: "u_byte \<Rightarrow> exception_handler option"
  literal :: "string \<Rightarrow> addr"

definition chars :: "string \<Rightarrow> u_byte list" where
  "chars l = map of_char l"

definition literal_ok :: "'a exc_state_scheme \<Rightarrow> string \<Rightarrow> bool" where
  "literal_ok s l \<longleftrightarrow> cstring (mem s) (literal s l) (chars l)"

section \<open>Operations\<close>

definition terminate :: "u_byte \<Rightarrow> 'a exc_state_scheme \<Rightarrow> 'a exc_state_scheme" where
  "terminate code s = s"

definition handle_exceptions ::
    "u_byte \<Rightarrow> exception_handler \<Rightarrow> 'a exc_state_scheme \<Rightarrow> 'a exc_state_scheme" where
  "handle_exceptions i handler s = s\<lparr>handlers := (handlers s)(i := Some handler)\<rparr>"

text \<open>
  The two handlers. The kernel's prints a constant text in light red (colour 12) on black
  without touching the heap and then spins on \<^verbatim>\<open>jmp .\<close>; the library's calls \<^verbatim>\<open>terminate\<close>,
  which has an empty body, and returns.
\<close>

definition heap_exhausted_text :: string where
  "heap_exhausted_text = ''Kernel heap exhausted!'' @ [CHR 0x0A]"

definition lib_handle_allocation_exception ::
    "'a exc_state_scheme \<Rightarrow> ('a exc_state_scheme, unit) result" where
  "lib_handle_allocation_exception s = Inr ((), terminate 2 s)"

definition kernel_handle_allocation_exception ::
    "'a exc_state_scheme \<Rightarrow> ('a exc_state_scheme, unit) result" where
  "kernel_handle_allocation_exception s =
     and_then (print_string_color (literal s heap_exhausted_text) 12 0 0 s) (\<lambda>_ s. Inl (Hang s))"

fun call_exception_handler ::
    "exception_handler \<Rightarrow> exception \<Rightarrow> 'a exc_state_scheme \<Rightarrow> ('a exc_state_scheme, unit) result" where
  "call_exception_handler Lib_allocation_handler exc s = lib_handle_allocation_exception s"
| "call_exception_handler Kernel_allocation_handler exc s = kernel_handle_allocation_exception s"

text \<open>
  Dispatch. With no handler registered the code prints a report, which needs the formatter
  and through it the heap; that path is the outcome \<open>Unhandled\<close>, with the exception and the
  state in which it was thrown.
\<close>

definition throw_exception ::
    "exception \<Rightarrow> 'a exc_state_scheme \<Rightarrow> ('a exc_state_scheme, unit) result" where
  "throw_exception exc s =
     (case handlers s (exc_id exc) of
        None \<Rightarrow> Inl (Unhandled exc s)
      | Some h \<Rightarrow> call_exception_handler h exc s)"

definition throw_verbose ::
    "u_byte \<Rightarrow> string \<Rightarrow> string \<Rightarrow> string \<Rightarrow> u_dword \<Rightarrow> 'a exc_state_scheme \<Rightarrow>
      ('a exc_state_scheme, unit) result" where
  "throw_verbose i type message file line s =
     throw_exception \<lparr>exc_id = i, exc_type = literal s type, exc_message = literal s message,
       exc_file = literal s file, exc_line = line\<rparr> s"

definition initialize_kernel_heap_handler :: "'a exc_state_scheme \<Rightarrow> 'a exc_state_scheme" where
  "initialize_kernel_heap_handler s = handle_exceptions 1 Kernel_allocation_handler s"

section \<open>The handler table as an interface\<close>

locale handler_table =
  fixes registered :: "'s \<Rightarrow> 'k \<Rightarrow> 'h option"
    and register :: "'k \<Rightarrow> 'h \<Rightarrow> 's \<Rightarrow> 's"
  assumes registered_register: "registered (register k h s) k' = (if k' = k then Some h else registered s k')"
begin

lemma last_registration_wins: "registered (register k h2 (register k h1 s)) k = Some h2"
  by (simp add: registered_register)

lemma registrations_independent:
  "k1 \<noteq> k2 \<Longrightarrow>
    registered (register k1 h1 (register k2 h2 s)) = registered (register k2 h2 (register k1 h1 s))"
  by (rule ext) (simp add: registered_register)

end

interpretation exc_table: handler_table handlers handle_exceptions
  by unfold_locales (simp add: handle_exceptions_def)

end
