(* ===== verification/Heap.thy ===== *)
theory Heap
  imports Exceptions
begin

text \<open>
  \<^verbatim>\<open>lib/base/heap.c\<close>: the best-fit allocator with intrusive block headers, translated to the
  byte memory. The heap header (three pointers) lies at the address in the global
  \<^verbatim>\<open>header\<close>; every block is preceded by its own header (size, previous, next).
\<close>

section \<open>State and layout\<close>

record heap_state = exc_state +
  header :: addr

definition first_address :: "'a heap_state_scheme \<Rightarrow> addr" where
  "first_address s = load32 (mem s) (header s)"

definition heap_start :: "'a heap_state_scheme \<Rightarrow> addr" where
  "heap_start s = load32 (mem s) (header s + 4)"

definition heap_end :: "'a heap_state_scheme \<Rightarrow> addr" where
  "heap_end s = load32 (mem s) (header s + 8)"

definition set_first_address :: "addr \<Rightarrow> 'a heap_state_scheme \<Rightarrow> 'a heap_state_scheme" where
  "set_first_address p s = s\<lparr>mem := store32 (mem s) (header s) p\<rparr>"

text \<open>Fields of the block header at address \<open>h\<close>: size at offset 0, previous at 4, next at 8.\<close>

definition block_size :: "memory \<Rightarrow> addr \<Rightarrow> u_dword" where
  "block_size m h = load32 m h"

definition block_previous :: "memory \<Rightarrow> addr \<Rightarrow> addr" where
  "block_previous m h = load32 m (h + 4)"

definition block_next :: "memory \<Rightarrow> addr \<Rightarrow> addr" where
  "block_next m h = load32 m (h + 8)"

definition set_block_size :: "addr \<Rightarrow> u_dword \<Rightarrow> 'a heap_state_scheme \<Rightarrow> 'a heap_state_scheme" where
  "set_block_size h v s = s\<lparr>mem := store32 (mem s) h v\<rparr>"

definition set_block_previous :: "addr \<Rightarrow> addr \<Rightarrow> 'a heap_state_scheme \<Rightarrow> 'a heap_state_scheme" where
  "set_block_previous h v s = s\<lparr>mem := store32 (mem s) (h + 4) v\<rparr>"

definition set_block_next :: "addr \<Rightarrow> addr \<Rightarrow> 'a heap_state_scheme \<Rightarrow> 'a heap_state_scheme" where
  "set_block_next h v s = s\<lparr>mem := store32 (mem s) (h + 8) v\<rparr>"

abbreviation header_size :: u_dword where
  "header_size \<equiv> 12"

definition allocation_exception_id :: u_byte where "allocation_exception_id = 1"
definition heap_exception_id :: u_byte where "heap_exception_id = 2"

section \<open>Operations\<close>

definition is_in_heap :: "addr \<Rightarrow> 'a heap_state_scheme \<Rightarrow> bool" where
  "is_in_heap p s \<longleftrightarrow> p > heap_start s \<and> p < heap_end s"

text \<open>
  Outside the heap \<^verbatim>\<open>get_header\<close> throws and then reaches its closing brace without a
  \<^verbatim>\<open>return\<close>; every caller uses the missing value, so should the throw return the outcome is
  \<open>Undefined\<close>.
\<close>

definition get_header :: "addr \<Rightarrow> 'a heap_state_scheme \<Rightarrow> ('a heap_state_scheme, addr) result" where
  "get_header p s =
     (if is_in_heap p s then Inr (p - header_size, s)
      else and_then
        (throw_verbose heap_exception_id ''Heap Exception''
          ''Requested structure is located outside of the heap!'' ''./lib/base/heap.c'' 62 s)
        (\<lambda>_ s. Inl (Undefined s)))"

definition size_bytes :: "addr \<Rightarrow> 'a heap_state_scheme \<Rightarrow> ('a heap_state_scheme, u_dword) result" where
  "size_bytes p s = and_then (get_header p s) (\<lambda>h s. Inr (block_size (mem s) h, s))"

text \<open>
  A walk along the block list moves a 32-bit pointer through memory the walk does not change,
  so after \<open>2 ^ 32\<close> steps a pointer has repeated and the walk never ends: that many steps of
  fuel are exact, and running out is the outcome \<open>Hang\<close>.
\<close>

definition walk_fuel :: nat where
  "walk_fuel = 2 ^ 32"

primrec occupation_walk ::
    "nat \<Rightarrow> addr \<Rightarrow> u_dword \<Rightarrow> u_dword \<Rightarrow> 'a heap_state_scheme \<Rightarrow> ('a heap_state_scheme, u_dword) result" where
  "occupation_walk 0 current_address acc num s =
     (if current_address = nullptr then Inr (num, s) else Inl (Hang s))"
| "occupation_walk (Suc fuel) current_address acc num s =
     (if current_address = nullptr then Inr (num, s)
      else and_then (get_header current_address s) (\<lambda>current_block s.
        occupation_walk fuel (block_next (mem s) current_block)
          (acc + block_size (mem s) current_block) (num + 1) s))"

text \<open>The result is converted to \<^verbatim>\<open>double\<close>, which represents every 32-bit count exactly.\<close>

definition occupation :: "'a heap_state_scheme \<Rightarrow> ('a heap_state_scheme, u_dword) result" where
  "occupation s =
     (if first_address s = nullptr then Inr (0, s)
      else occupation_walk walk_fuel (first_address s) 0 0 s)"

definition allocate_space ::
    "addr \<Rightarrow> u_dword \<Rightarrow> addr \<Rightarrow> addr \<Rightarrow> 'a heap_state_scheme \<Rightarrow> ('a heap_state_scheme, addr) result" where
  "allocate_space free_pointer sz previous next_block s =
     (let s = set_block_size free_pointer sz s;
          s = set_block_previous free_pointer previous s;
          s = set_block_next free_pointer next_block s;
          memory_address = free_pointer + header_size
      in and_then
        (if previous \<noteq> nullptr then
           and_then (get_header previous s) (\<lambda>h s. Inr ((), set_block_next h memory_address s))
         else Inr ((), s)) (\<lambda>_ s. and_then
        (if next_block \<noteq> nullptr then
           and_then (get_header next_block s) (\<lambda>h s. Inr ((), set_block_previous h memory_address s))
         else Inr ((), s)) (\<lambda>_ s.
        Inr (memory_address, s))))"

definition initialize_heap :: "addr \<Rightarrow> u_dword \<Rightarrow> 'a heap_state_scheme \<Rightarrow> 'a heap_state_scheme" where
  "initialize_heap start_address initial_size s =
     (let s = s\<lparr>header := start_address\<rparr>;
          s = s\<lparr>mem := memory_clear start_address header_size 0 (mem s)\<rparr>;
          s = s\<lparr>mem := store32 (mem s) (header s + 4) (start_address + header_size)\<rparr>;
          s = s\<lparr>mem := store32 (mem s) (header s + 8) (start_address + initial_size)\<rparr>;
          s = set_first_address nullptr s
      in handle_exceptions allocation_exception_id Lib_allocation_handler s)"

text \<open>
  The search of \<^verbatim>\<open>ralloc\<close> keeps the smallest fitting gap seen so far; a candidate gap is its
  size as the code computes it, its address and the blocks around it.
\<close>

record gap =
  gap_size :: u_dword
  gap_address :: addr
  gap_previous :: addr
  gap_next :: addr

definition consider_gap :: "u_dword \<Rightarrow> gap \<Rightarrow> gap \<Rightarrow> gap" where
  "consider_gap sz g best =
     (if gap_size g \<ge> sz + header_size \<and> gap_size g < gap_size best then g else best)"

primrec ralloc_walk ::
    "nat \<Rightarrow> u_dword \<Rightarrow> addr \<Rightarrow> addr \<Rightarrow> addr \<Rightarrow> gap \<Rightarrow> 'a heap_state_scheme \<Rightarrow>
      ('a heap_state_scheme, addr \<times> addr \<times> gap) result" where
  "ralloc_walk 0 sz current_address current_block next_address best s =
     (if next_address = nullptr then Inr ((current_address, current_block, best), s) else Inl (Hang s))"
| "ralloc_walk (Suc fuel) sz current_address current_block next_address best s =
     (if next_address = nullptr then Inr ((current_address, current_block, best), s)
      else
        (let free_space_size =
               next_address - current_address - block_size (mem s) current_block - header_size;
             best = consider_gap sz
               \<lparr>gap_size = free_space_size,
                gap_address = current_address + block_size (mem s) current_block,
                gap_previous = current_address, gap_next = next_address\<rparr> best
         in and_then (get_header next_address s) (\<lambda>block s.
              ralloc_walk fuel sz next_address block (block_next (mem s) block) best s)))"

definition ralloc :: "u_dword \<Rightarrow> 'a heap_state_scheme \<Rightarrow> ('a heap_state_scheme, addr) result" where
  "ralloc sz s =
     (if first_address s = nullptr then
        and_then (allocate_space (heap_start s) sz nullptr nullptr s) (\<lambda>p s.
          (let s = set_first_address p s in Inr (first_address s, s)))
      else
        (let best = \<lparr>gap_size = heap_end s - heap_start s, gap_address = nullptr,
                     gap_previous = nullptr, gap_next = nullptr\<rparr>;
             current_address = heap_start s;
             next_address = first_address s;
             best = consider_gap sz
               \<lparr>gap_size = next_address - current_address - header_size,
                gap_address = current_address, gap_previous = nullptr, gap_next = next_address\<rparr> best
         in and_then (get_header next_address s) (\<lambda>current_block s. and_then
           (ralloc_walk walk_fuel sz next_address current_block
             (block_next (mem s) current_block) best s) (\<lambda>(current_address, current_block, best) s.
           (let best = consider_gap sz
                  \<lparr>gap_size = heap_end s - current_address - block_size (mem s) current_block - header_size,
                   gap_address = current_address + block_size (mem s) current_block,
                   gap_previous = current_address, gap_next = nullptr\<rparr> best
            in and_then
              (if gap_address best \<noteq> nullptr then
                 allocate_space (gap_address best) sz (gap_previous best) (gap_next best) s
               else Inr (nullptr, s)) (\<lambda>final_address s.
               (let s = (if gap_address best = heap_start s then set_first_address final_address s else s)
                in and_then
                  (if final_address = nullptr then
                     throw_verbose allocation_exception_id ''Allocation Exception''
                       ''No space left in heap available for allocation!'' ''./lib/base/heap.c'' 167 s
                   else Inr ((), s)) (\<lambda>_ s.
                   Inr (final_address, s)))))))))"

definition zalloc :: "u_dword \<Rightarrow> 'a heap_state_scheme \<Rightarrow> ('a heap_state_scheme, addr) result" where
  "zalloc sz s =
     and_then (ralloc sz s) (\<lambda>p s. Inr (p, s\<lparr>mem := memory_clear p sz 0 (mem s)\<rparr>))"

definition unalloc :: "addr \<Rightarrow> 'a heap_state_scheme \<Rightarrow> ('a heap_state_scheme, unit) result" where
  "unalloc p s =
     and_then (get_header p s) (\<lambda>block s.
       (let s = (if p = first_address s then set_first_address (block_next (mem s) block) s else s)
        in and_then
          (if block_next (mem s) block \<noteq> nullptr then
             and_then (get_header (block_next (mem s) block) s) (\<lambda>h s.
               Inr ((), set_block_previous h (block_previous (mem s) block) s))
           else Inr ((), s)) (\<lambda>_ s.
           if block_previous (mem s) block \<noteq> nullptr then
             and_then (get_header (block_previous (mem s) block) s) (\<lambda>h s.
               Inr ((), set_block_next h (block_next (mem s) block) s))
           else Inr ((), s))))"

text \<open>
  \<^verbatim>\<open>new_size < block->next - structure\<close> compares an unsigned double word with a pointer
  difference, which is converted to unsigned: the comparison is on words and wraps.
\<close>

definition challoc :: "addr \<Rightarrow> u_dword \<Rightarrow> 'a heap_state_scheme \<Rightarrow> ('a heap_state_scheme, addr) result" where
  "challoc p new_size s =
     and_then (get_header p s) (\<lambda>block s.
       if new_size < block_size (mem s) block then Inr (p, set_block_size block new_size s)
       else if new_size > block_size (mem s) block then
         (if new_size < block_next (mem s) block - p then Inr (p, set_block_size block new_size s)
          else and_then (ralloc new_size s) (\<lambda>new_structure s.
            (let s = s\<lparr>mem := memory_copy p new_structure (block_size (mem s) block) (mem s)\<rparr>
             in and_then (unalloc p s) (\<lambda>_ s. Inr (new_structure, s)))))
       else Inr (p, s))"

end
