(* ===== verification/HeapLayout.thy ===== *)
theory HeapLayout
  imports Heap
begin

text \<open>
  The heap as a list of blocks. \<open>blocks\<close> are pairs of payload address and size in address
  order; \<open>layout\<close> says that headers and payloads fit between the heap bounds without overlap,
  \<open>linked\<close> that the doubly linked list in memory is this list, and \<open>heap_inv\<close> joins them to
  the heap header. Positions in the list count gaps: gap \<open>i\<close> lies in front of block \<open>i\<close>.
\<close>

section \<open>Lists of blocks\<close>

type_synonym blocks = "(addr \<times> u_dword) list"

definition next_at :: "blocks \<Rightarrow> nat \<Rightarrow> addr" where
  "next_at bs i = (if i < length bs then fst (bs ! i) else nullptr)"

definition prev_at :: "blocks \<Rightarrow> nat \<Rightarrow> addr" where
  "prev_at bs i = (if i = 0 then nullptr else fst (bs ! (i - 1)))"

definition gap_begin :: "nat \<Rightarrow> blocks \<Rightarrow> nat \<Rightarrow> nat" where
  "gap_begin lo bs i = (if i = 0 then lo else unat (fst (bs ! (i - 1))) + unat (snd (bs ! (i - 1))))"

definition gap_limit :: "nat \<Rightarrow> blocks \<Rightarrow> nat \<Rightarrow> nat" where
  "gap_limit hi bs i = (if i < length bs then unat (fst (bs ! i)) else hi)"

definition layout :: "nat \<Rightarrow> nat \<Rightarrow> blocks \<Rightarrow> bool" where
  "layout lo hi bs \<longleftrightarrow> (\<forall>i \<le> length bs. gap_begin lo bs i + 12 \<le> gap_limit hi bs i)"

definition insert_block :: "nat \<Rightarrow> addr \<times> u_dword \<Rightarrow> blocks \<Rightarrow> blocks" where
  "insert_block i b bs = take i bs @ b # drop i bs"

definition remove_block :: "nat \<Rightarrow> blocks \<Rightarrow> blocks" where
  "remove_block i bs = take i bs @ drop (Suc i) bs"

named_theorems block_simps "how positions, gaps and neighbours change under insertion and removal"

lemma length_insert_block [block_simps]:
  "i \<le> length bs \<Longrightarrow> length (insert_block i b bs) = Suc (length bs)"
  by (simp add: insert_block_def)

lemma nth_insert_block [block_simps]:
  "i \<le> length bs \<Longrightarrow> j \<le> length bs \<Longrightarrow>
    insert_block i b bs ! j = (if j < i then bs ! j else if j = i then b else bs ! (j - 1))"
  by (auto simp: insert_block_def nth_append nth_Cons')

lemma length_remove_block [block_simps]:
  "i < length bs \<Longrightarrow> length (remove_block i bs) = length bs - 1"
  by (simp add: remove_block_def)

lemma nth_remove_block [block_simps]:
  "i < length bs \<Longrightarrow> j < length bs - 1 \<Longrightarrow>
    remove_block i bs ! j = (if j < i then bs ! j else bs ! Suc j)"
  by (auto simp: remove_block_def nth_append)

lemma set_insert_block: "i \<le> length bs \<Longrightarrow> set (insert_block i b bs) = insert b (set bs)"
  by (metis append_take_drop_id insert_block_def list.simps(15) set_append Un_insert_right)

lemma set_remove_block_subset: "set (remove_block i bs) \<subseteq> set bs"
  by (auto simp: remove_block_def dest: in_set_takeD in_set_dropD)

lemma remove_insert_block: "i \<le> length bs \<Longrightarrow> remove_block i (insert_block i b bs) = bs"
  by (simp add: remove_block_def insert_block_def)

lemma insert_remove_block: "i < length bs \<Longrightarrow> insert_block i (bs ! i) (remove_block i bs) = bs"
  by (simp add: remove_block_def insert_block_def id_take_nth_drop [symmetric])

lemma layoutD: "layout lo hi bs \<Longrightarrow> i \<le> length bs \<Longrightarrow> gap_begin lo bs i + 12 \<le> gap_limit hi bs i"
  by (simp add: layout_def)

lemma gap_begin_0 [simp]: "gap_begin lo bs 0 = lo"
  by (simp add: gap_begin_def)

lemma gap_begin_Suc [simp]: "gap_begin lo bs (Suc i) = unat (fst (bs ! i)) + unat (snd (bs ! i))"
  by (simp add: gap_begin_def)

lemma gap_limit_less [simp]: "i < length bs \<Longrightarrow> gap_limit hi bs i = unat (fst (bs ! i))"
  by (simp add: gap_limit_def)

lemma gap_limit_length [simp]: "gap_limit hi bs (length bs) = hi"
  by (simp add: gap_limit_def)

lemma gap_begin_insert [block_simps]:
  assumes "i \<le> length bs" and "j \<le> Suc (length bs)"
  shows "gap_begin lo (insert_block i b bs) j =
    (if j \<le> i then gap_begin lo bs j
     else if j = Suc i then unat (fst b) + unat (snd b) else gap_begin lo bs (j - 1))"
proof (cases j)
  case (Suc k)
  then have eq: "insert_block i b bs ! k = (if k < i then bs ! k else if k = i then b else bs ! (k - 1))"
    using assms by (simp add: nth_insert_block)
  show ?thesis
  proof (cases "k \<le> i")
    case False
    then obtain l where "k = Suc l" by (cases k) auto
    with Suc False eq show ?thesis by simp
  qed (use Suc eq in auto)
qed simp

lemma gap_limit_insert [block_simps]:
  assumes "i \<le> length bs" and "j \<le> Suc (length bs)"
  shows "gap_limit hi (insert_block i b bs) j =
    (if j < i then gap_limit hi bs j else if j = i then unat (fst b) else gap_limit hi bs (j - 1))"
  using assms by (auto simp: gap_limit_def length_insert_block nth_insert_block)

lemma gap_begin_remove [block_simps]:
  assumes "i < length bs" and "j \<le> length bs - 1"
  shows "gap_begin lo (remove_block i bs) j =
    (if j \<le> i then gap_begin lo bs j else gap_begin lo bs (Suc j))"
proof (cases j)
  case (Suc k)
  then show ?thesis using assms by (simp add: nth_remove_block)
qed simp

lemma gap_limit_remove [block_simps]:
  assumes "i < length bs" and "j \<le> length bs - 1"
  shows "gap_limit hi (remove_block i bs) j =
    (if j < i then gap_limit hi bs j else gap_limit hi bs (Suc j))"
  using assms by (auto simp: gap_limit_def length_remove_block nth_remove_block)

lemma layout_insert:
  assumes "layout lo hi bs" and "i \<le> length bs"
    and "gap_begin lo bs i + 12 \<le> unat p" and "unat p + unat n + 12 \<le> gap_limit hi bs i"
  shows "layout lo hi (insert_block i (p, n) bs)"
  unfolding layout_def
proof (intro allI impI)
  fix j
  assume "j \<le> length (insert_block i (p, n) bs)"
  then have j: "j \<le> Suc (length bs)" using assms(2) by (simp add: length_insert_block)
  show "gap_begin lo (insert_block i (p, n) bs) j + 12 \<le> gap_limit hi (insert_block i (p, n) bs) j"
    using assms(3,4) layoutD [OF assms(1), of j] layoutD [OF assms(1), of "j - 1"] j
    by (simp add: gap_begin_insert gap_limit_insert assms(2)) (use assms(2) in force)
qed

lemma layout_remove:
  assumes "layout lo hi bs" and "i < length bs"
  shows "layout lo hi (remove_block i bs)"
  unfolding layout_def
proof (intro allI impI)
  fix j
  assume "j \<le> length (remove_block i bs)"
  then have j: "j \<le> length bs - 1" using assms(2) by (simp add: length_remove_block)
  have "gap_begin lo bs i \<le> gap_begin lo bs (Suc i)"
    using layoutD [OF assms(1), of i] assms(2) by simp
  then show "gap_begin lo (remove_block i bs) j + 12 \<le> gap_limit hi (remove_block i bs) j"
    using layoutD [OF assms(1), of j] layoutD [OF assms(1), of "Suc j"] j assms(2)
    by (cases "j = i") (simp_all add: gap_begin_remove gap_limit_remove del: gap_begin_Suc)
qed

lemma layout_order:
  assumes "layout lo hi bs"
  shows "i < j \<Longrightarrow> j < length bs \<Longrightarrow> unat (fst (bs ! i)) + unat (snd (bs ! i)) + 12 \<le> unat (fst (bs ! j))"
proof (induction j)
  case 0
  then show ?case by simp
next
  case (Suc j)
  have step: "unat (fst (bs ! j)) + unat (snd (bs ! j)) + 12 \<le> unat (fst (bs ! Suc j))"
    using layoutD [OF assms, of "Suc j"] Suc.prems by simp
  show ?case
  proof (cases "i = j")
    case True
    then show ?thesis using step by simp
  next
    case False
    then show ?thesis using Suc step by simp
  qed
qed

lemma layout_bounds:
  assumes "layout lo hi bs" and "i < length bs"
  shows "lo + 12 \<le> unat (fst (bs ! i))"
    and "unat (fst (bs ! i)) + unat (snd (bs ! i)) + 12 \<le> hi"
proof -
  have "0 < length bs" using assms(2) by linarith
  then have first: "lo + 12 \<le> unat (fst (bs ! 0))"
    using layoutD [OF assms(1), of 0] by simp
  show "lo + 12 \<le> unat (fst (bs ! i))"
    using first layout_order [OF assms(1), of 0 i] assms(2) by (cases "i = 0") auto
  obtain l where l: "length bs = Suc l" using assms(2) by (cases "length bs") auto
  have last: "unat (fst (bs ! l)) + unat (snd (bs ! l)) + 12 \<le> hi"
    using layoutD [OF assms(1), of "length bs"] l by (simp add: gap_limit_def)
  show "unat (fst (bs ! i)) + unat (snd (bs ! i)) + 12 \<le> hi"
    using last layout_order [OF assms(1), of i l] assms(2) l by (cases "i = l") auto
qed

lemma layout_inj:
  assumes "layout lo hi bs" and "i < length bs" and "j < length bs" and "fst (bs ! i) = fst (bs ! j)"
  shows "i = j"
  using layout_order [OF assms(1), of i j] layout_order [OF assms(1), of j i] assms
  by (cases i j rule: linorder_cases) auto

section \<open>Block headers in memory\<close>

definition block_header :: "addr \<Rightarrow> addr" where
  "block_header p = p - header_size"

lemma block_header_plus [simp]: "block_header (g + header_size) = g"
  by (simp add: block_header_def)

definition in_header :: "addr \<Rightarrow> addr \<Rightarrow> bool" where
  "in_header p x \<longleftrightarrow> in_range (block_header p) 12 x"

lemmas block_fields = block_size_def block_previous_def block_next_def

lemma field_in_header:
  assumes "in_range (h + of_nat off) 4 x" and "off \<le> 8"
  shows "in_range h 12 x"
proof -
  have "in_range h (off + 4) x"
    using in_range_append [of off 4 h x] assms by simp
  then show ?thesis using assms(2) by (simp add: in_range_def)
qed

lemma header_frame:
  assumes "\<And>x. in_header p x \<Longrightarrow> m' x = m x"
  shows "block_size m' (block_header p) = block_size m (block_header p)"
    and "block_previous m' (block_header p) = block_previous m (block_header p)"
    and "block_next m' (block_header p) = block_next m (block_header p)"
proof -
  have "load32 m' (block_header p + of_nat off) = load32 m (block_header p + of_nat off)" if "off \<le> 8" for off
    using that assms unfolding in_header_def by (intro load32_cong) (blast dest: field_in_header)
  from this [of 0] this [of 4] this [of 8]
  show "block_size m' (block_header p) = block_size m (block_header p)"
    and "block_previous m' (block_header p) = block_previous m (block_header p)"
    and "block_next m' (block_header p) = block_next m (block_header p)"
    by (simp_all add: block_fields)
qed

lemma disjoint_fields:
  "disjoint_ranges h 4 (h + 4) 4" "disjoint_ranges h 4 (h + 8) 4" "disjoint_ranges (h + 4) 4 (h + 8) 4"
  "disjoint_ranges (h + 4) 4 h 4" "disjoint_ranges (h + 8) 4 h 4" "disjoint_ranges (h + 8) 4 (h + 4) 4"
  by (rule disjoint_by_distance; simp)+

lemma field_updates [frame_simps]:
  "block_size (store32 m h v) h = v"
  "block_previous (store32 m h v) h = block_previous m h"
  "block_next (store32 m h v) h = block_next m h"
  "block_size (store32 m (h + 4) v) h = block_size m h"
  "block_previous (store32 m (h + 4) v) h = v"
  "block_next (store32 m (h + 4) v) h = block_next m h"
  "block_size (store32 m (h + 8) v) h = block_size m h"
  "block_previous (store32 m (h + 8) v) h = block_previous m h"
  "block_next (store32 m (h + 8) v) h = v"
  by (simp_all add: block_fields load32_store32_other disjoint_fields)

lemma store_field_outside:
  assumes "\<not> in_range h 12 x"
  shows "store32 m h v x = m x" "store32 m (h + 4) v x = m x" "store32 m (h + 8) v x = m x"
  using assms field_in_header [of h 0 x] field_in_header [of h 4 x] field_in_header [of h 8 x]
  by (auto intro: store32_outside)

definition linked :: "memory \<Rightarrow> blocks \<Rightarrow> bool" where
  "linked m bs \<longleftrightarrow> (\<forall>i < length bs.
     block_size m (block_header (fst (bs ! i))) = snd (bs ! i) \<and>
     block_previous m (block_header (fst (bs ! i))) = prev_at bs i \<and>
     block_next m (block_header (fst (bs ! i))) = next_at bs (Suc i))"

lemma linkedD:
  assumes "linked m bs" and "i < length bs"
  shows "block_size m (block_header (fst (bs ! i))) = snd (bs ! i)"
    and "block_previous m (block_header (fst (bs ! i))) = prev_at bs i"
    and "block_next m (block_header (fst (bs ! i))) = next_at bs (Suc i)"
  using assms by (simp_all add: linked_def)

lemma next_at_insert [block_simps]:
  assumes "i \<le> length bs" and "j \<le> Suc (length bs)"
  shows "next_at (insert_block i b bs) j =
    (if j < i then next_at bs j else if j = i then fst b else next_at bs (j - 1))"
  using assms by (auto simp: next_at_def length_insert_block nth_insert_block)

lemma prev_at_insert [block_simps]:
  assumes "i \<le> length bs" and "j \<le> Suc (length bs)"
  shows "prev_at (insert_block i b bs) j =
    (if j \<le> i then prev_at bs j else if j = Suc i then fst b else prev_at bs (j - 1))"
proof (cases j)
  case (Suc k)
  then have eq: "insert_block i b bs ! k = (if k < i then bs ! k else if k = i then b else bs ! (k - 1))"
    using assms by (simp add: nth_insert_block)
  show ?thesis
  proof (cases "k \<le> i")
    case False
    then obtain l where "k = Suc l" by (cases k) auto
    with Suc False eq show ?thesis by (simp add: prev_at_def)
  qed (use Suc eq in \<open>auto simp: prev_at_def\<close>)
qed (simp add: prev_at_def)

lemma next_at_remove [block_simps]:
  assumes "i < length bs" and "j \<le> length bs - 1"
  shows "next_at (remove_block i bs) j = (if j < i then next_at bs j else next_at bs (Suc j))"
  using assms by (auto simp: next_at_def length_remove_block nth_remove_block)

lemma prev_at_remove [block_simps]:
  assumes "i < length bs" and "j \<le> length bs - 1"
  shows "prev_at (remove_block i bs) j = (if j \<le> i then prev_at bs j else prev_at bs (Suc j))"
proof (cases j)
  case (Suc k)
  then show ?thesis using assms by (auto simp: prev_at_def nth_remove_block)
qed (simp add: prev_at_def)

section \<open>The heap invariant\<close>

definition heap_inv :: "'a heap_state_scheme \<Rightarrow> blocks \<Rightarrow> bool" where
  "heap_inv s bs \<longleftrightarrow>
     unat (heap_start s) = unat (header s) + 12 \<and>
     layout (unat (heap_start s)) (unat (heap_end s)) bs \<and>
     linked (mem s) bs \<and> first_address s = next_at bs 0"

lemma heap_invD:
  assumes "heap_inv s bs"
  shows "unat (heap_start s) = unat (header s) + 12"
    and "layout (unat (heap_start s)) (unat (heap_end s)) bs"
    and "linked (mem s) bs" and "first_address s = next_at bs 0"
  using assms unfolding heap_inv_def by blast+

text \<open>The bytes the allocator keeps for itself: the heap header and the headers of the blocks.\<close>

definition meta :: "addr \<Rightarrow> blocks \<Rightarrow> addr \<Rightarrow> bool" where
  "meta h bs x \<longleftrightarrow> in_range h 12 x \<or> (\<exists>b \<in> set bs. in_header (fst b) x)"

lemma unat_block_header: "12 \<le> unat p \<Longrightarrow> unat (block_header p) = unat p - 12"
  by (simp add: block_header_def unat_minus_ge)

lemma in_header_linear:
  assumes "12 \<le> unat p"
  shows "in_header p x \<longleftrightarrow> unat p - 12 \<le> unat x \<and> unat x < unat p"
  using assms unat_lt32 [of p] unfolding in_header_def
  by (subst in_range_linear) (auto simp: unat_block_header)

lemma heap_header_frame:
  assumes "\<And>x. in_range (header s) 12 x \<Longrightarrow> m' x = mem s x"
  shows "first_address (s\<lparr>mem := m'\<rparr>) = first_address s"
    and "heap_start (s\<lparr>mem := m'\<rparr>) = heap_start s"
    and "heap_end (s\<lparr>mem := m'\<rparr>) = heap_end s"
proof -
  have "load32 m' (header s + of_nat off) = load32 (mem s) (header s + of_nat off)" if "off \<le> 8" for off
    using that assms by (intro load32_cong) (blast dest: field_in_header)
  from this [of 0] this [of 4] this [of 8]
  show "first_address (s\<lparr>mem := m'\<rparr>) = first_address s"
    and "heap_start (s\<lparr>mem := m'\<rparr>) = heap_start s"
    and "heap_end (s\<lparr>mem := m'\<rparr>) = heap_end s"
    by (simp_all add: first_address_def heap_start_def heap_end_def)
qed

lemma heap_inv_cong:
  assumes "heap_inv s bs" and "\<And>x. meta (header s) bs x \<Longrightarrow> m' x = mem s x"
  shows "heap_inv (s\<lparr>mem := m'\<rparr>) bs"
proof -
  have hdr: "\<And>x. in_range (header s) 12 x \<Longrightarrow> m' x = mem s x"
    using assms(2) by (simp add: meta_def)
  have "linked m' bs"
    unfolding linked_def
  proof (intro allI impI)
    fix i
    assume i: "i < length bs"
    then have "\<And>x. in_header (fst (bs ! i)) x \<Longrightarrow> m' x = mem s x"
      using assms(2) nth_mem [OF i] unfolding meta_def by blast
    note header_frame [OF this]
    then show "block_size m' (block_header (fst (bs ! i))) = snd (bs ! i) \<and>
      block_previous m' (block_header (fst (bs ! i))) = prev_at bs i \<and>
      block_next m' (block_header (fst (bs ! i))) = next_at bs (Suc i)"
      using linkedD [OF heap_invD(3) [OF assms(1)] i] by simp
  qed
  then show ?thesis
    using heap_invD [OF assms(1)] by (simp add: heap_inv_def heap_header_frame [OF hdr])
qed

lemma block_in_heap:
  assumes "heap_inv s bs" and "i < length bs"
  shows "is_in_heap (fst (bs ! i)) s"
  using layout_bounds [OF heap_invD(2) [OF assms(1)] assms(2)]
  by (simp add: is_in_heap_def word_less_nat_alt)

lemma get_header_block:
  "heap_inv s bs \<Longrightarrow> i < length bs \<Longrightarrow> get_header (fst (bs ! i)) s = Inr (block_header (fst (bs ! i)), s)"
  by (simp add: get_header_def block_in_heap block_header_def)

lemma block_not_null: "heap_inv s bs \<Longrightarrow> i < length bs \<Longrightarrow> fst (bs ! i) \<noteq> nullptr"
  using layout_bounds(1) [OF heap_invD(2)] by fastforce

lemma next_at_null: "heap_inv s bs \<Longrightarrow> next_at bs i = nullptr \<longleftrightarrow> length bs \<le> i"
  using block_not_null by (auto simp: next_at_def)

lemma prev_at_null: "heap_inv s bs \<Longrightarrow> i \<le> length bs \<Longrightarrow> prev_at bs i = nullptr \<longleftrightarrow> i = 0"
  using block_not_null [of s bs "i - 1"] by (auto simp: prev_at_def)

end
