(* ===== verification/HeapAlloc.thy ===== *)
theory HeapAlloc
  imports HeapLayout
begin

text \<open>
  Allocation on a heap in good order: the search of \<^verbatim>\<open>ralloc\<close> is a fold over the gaps of the
  block list, the gap it picks is the smallest that fits, and writing the new header there
  re-establishes the invariant with the block inserted.
\<close>

section \<open>Headers and gaps do not overlap\<close>

lemma headers_disjoint:
  assumes "layout lo hi bs" and "i < length bs" and "j < length bs" and "i \<noteq> j"
    and "in_header (fst (bs ! i)) x"
  shows "\<not> in_header (fst (bs ! j)) x"
proof -
  have "12 \<le> unat (fst (bs ! i))" "12 \<le> unat (fst (bs ! j))"
    using layout_bounds(1) [OF assms(1)] assms(2,3) by fastforce+
  then show ?thesis
    using layout_order [OF assms(1), of i j] layout_order [OF assms(1), of j i] assms
    by (cases i j rule: linorder_cases) (auto simp: in_header_linear)
qed

lemma store_next_at:
  fixes m :: memory and v :: u_dword
  assumes "layout lo hi bs" and "j < length bs" and "k < length bs"
  defines "m' \<equiv> store32 m (block_header (fst (bs ! j)) + 8) v"
  shows "block_size m' (block_header (fst (bs ! k))) = block_size m (block_header (fst (bs ! k)))"
    and "block_previous m' (block_header (fst (bs ! k))) = block_previous m (block_header (fst (bs ! k)))"
    and "block_next m' (block_header (fst (bs ! k))) = (if k = j then v else block_next m (block_header (fst (bs ! k))))"
proof -
  have "m' x = m x" if "k \<noteq> j" "in_header (fst (bs ! k)) x" for x
    using headers_disjoint [OF assms(1,3,2) that] by (simp add: m'_def store_field_outside in_header_def)
  note other = header_frame [of "fst (bs ! k)" m' m, OF this]
  show "block_size m' (block_header (fst (bs ! k))) = block_size m (block_header (fst (bs ! k)))"
    and "block_previous m' (block_header (fst (bs ! k))) = block_previous m (block_header (fst (bs ! k)))"
    and "block_next m' (block_header (fst (bs ! k))) = (if k = j then v else block_next m (block_header (fst (bs ! k))))"
    using other by (cases "k = j"; simp add: m'_def frame_simps)+
qed

lemma store_previous_at:
  fixes m :: memory and v :: u_dword
  assumes "layout lo hi bs" and "j < length bs" and "k < length bs"
  defines "m' \<equiv> store32 m (block_header (fst (bs ! j)) + 4) v"
  shows "block_size m' (block_header (fst (bs ! k))) = block_size m (block_header (fst (bs ! k)))"
    and "block_previous m' (block_header (fst (bs ! k))) = (if k = j then v else block_previous m (block_header (fst (bs ! k))))"
    and "block_next m' (block_header (fst (bs ! k))) = block_next m (block_header (fst (bs ! k)))"
proof -
  have "m' x = m x" if "k \<noteq> j" "in_header (fst (bs ! k)) x" for x
    using headers_disjoint [OF assms(1,3,2) that] by (simp add: m'_def store_field_outside in_header_def)
  note other = header_frame [of "fst (bs ! k)" m' m, OF this]
  show "block_size m' (block_header (fst (bs ! k))) = block_size m (block_header (fst (bs ! k)))"
    and "block_previous m' (block_header (fst (bs ! k))) = (if k = j then v else block_previous m (block_header (fst (bs ! k))))"
    and "block_next m' (block_header (fst (bs ! k))) = block_next m (block_header (fst (bs ! k)))"
    using other by (cases "k = j"; simp add: m'_def frame_simps)+
qed

lemma gap_before_block:
  assumes "layout lo hi bs" and "i \<le> k" and "k < length bs"
  shows "gap_limit hi bs i \<le> unat (fst (bs ! k))"
  using layout_order [OF assms(1), of i k] assms(2,3) by (cases "i = k") auto

lemma block_before_gap:
  assumes "layout lo hi bs" and "k < i" and "i \<le> length bs"
  shows "unat (fst (bs ! k)) + unat (snd (bs ! k)) \<le> gap_begin lo bs i"
proof -
  obtain l where l: "i = Suc l" using assms(2) by (cases i) auto
  show ?thesis
    using layout_order [OF assms(1), of k l] assms(2,3) l by (cases "k = l") auto
qed

lemma gap_header_disjoint:
  assumes "layout lo hi bs" and "i \<le> length bs" and "k < length bs"
    and "gap_begin lo bs i \<le> unat x" and "unat x + 12 < gap_limit hi bs i"
  shows "\<not> in_header (fst (bs ! k)) x"
proof -
  have "12 \<le> unat (fst (bs ! k))"
    using layout_bounds(1) [OF assms(1,3)] by simp
  then show ?thesis
    using gap_before_block [OF assms(1) _ assms(3), of i] block_before_gap [OF assms(1) _ assms(2), of k]
      assms(4,5) by (cases "k < i") (auto simp: in_header_linear)
qed

section \<open>The gaps the search looks at\<close>

definition gap_word :: "addr \<Rightarrow> blocks \<Rightarrow> nat \<Rightarrow> addr" where
  "gap_word lo bs i = (if i = 0 then lo else fst (bs ! (i - 1)) + snd (bs ! (i - 1)))"

definition gap_at :: "addr \<Rightarrow> addr \<Rightarrow> blocks \<Rightarrow> nat \<Rightarrow> gap" where
  "gap_at lo hi bs i =
     \<lparr>gap_size = (if i < length bs then fst (bs ! i) else hi) - gap_word lo bs i - header_size,
      gap_address = gap_word lo bs i, gap_previous = prev_at bs i, gap_next = next_at bs i\<rparr>"

lemma gap_at_fields [simp]:
  "gap_address (gap_at lo hi bs i) = gap_word lo bs i"
  "gap_previous (gap_at lo hi bs i) = prev_at bs i" "gap_next (gap_at lo hi bs i) = next_at bs i"
  by (simp_all add: gap_at_def)

lemma unat_gap_word:
  fixes lo hi :: addr
  assumes "layout (unat lo) (unat hi) bs" and "i \<le> length bs"
  shows "unat (gap_word lo bs i) = gap_begin (unat lo) bs i"
proof (cases i)
  case (Suc j)
  then have "unat (fst (bs ! j)) + unat (snd (bs ! j)) < 4294967296"
    using layout_bounds(2) [OF assms(1), of j] assms(2) unat_lt32 [of hi] by simp
  then show ?thesis using Suc by (simp add: gap_word_def unat_plus_small)
qed (simp add: gap_word_def)

lemma unat_gap_size:
  assumes "layout (unat lo) (unat hi) bs" and "i \<le> length bs"
  shows "unat (gap_size (gap_at lo hi bs i)) = gap_limit (unat hi) bs i - gap_begin (unat lo) bs i - 12"
proof -
  let ?l = "if i < length bs then fst (bs ! i) else hi"
  have l: "unat ?l = gap_limit (unat hi) bs i" by (simp add: gap_limit_def)
  note w = unat_gap_word [OF assms]
  have "gap_begin (unat lo) bs i + 12 \<le> gap_limit (unat hi) bs i"
    by (rule layoutD [OF assms])
  then have le: "unat (gap_word lo bs i) + 12 \<le> unat ?l" unfolding w l .
  then have "unat (?l - gap_word lo bs i) = unat ?l - unat (gap_word lo bs i)"
    by (intro unat_minus_ge) linarith
  moreover have "unat (?l - gap_word lo bs i - 12) = unat (?l - gap_word lo bs i) - 12"
    using le calculation by (subst unat_minus_ge) simp_all
  ultimately show ?thesis unfolding gap_at_def w [symmetric] l [symmetric] by simp
qed

lemma last_block:
  assumes "Suc j = length bs"
  shows "next_at bs (Suc j) = nullptr" and "bs ! j = last bs"
proof -
  have "bs \<noteq> []" and "length bs - 1 = j" using assms by auto
  then show "bs ! j = last bs" by (simp add: last_conv_nth)
  show "next_at bs (Suc j) = nullptr" using assms by (simp add: next_at_def)
qed

lemma ralloc_walk_eq:
  assumes "heap_inv s bs" and "j < length bs" and "length bs - Suc j \<le> fuel"
  shows "ralloc_walk fuel sz (fst (bs ! j)) (block_header (fst (bs ! j))) (next_at bs (Suc j)) best s =
    Inr ((fst (last bs), block_header (fst (last bs)),
      fold (consider_gap sz) (map (gap_at (heap_start s) (heap_end s) bs) [Suc j..<length bs]) best), s)"
  using assms(2,3)
proof (induction fuel arbitrary: j best)
  case 0
  then have "Suc j = length bs" by simp
  then show ?case using last_block [of j bs] by simp
next
  case (Suc fuel)
  show ?case
  proof (cases "Suc j < length bs")
    case False
    then have "Suc j = length bs" using Suc.prems by simp
    then show ?thesis using last_block [of j bs] by simp
  next
    case True
    let ?n = "fst (bs ! Suc j)"
    have n: "next_at bs (Suc j) = ?n" "?n \<noteq> nullptr"
      using True block_not_null [OF assms(1)] by (simp_all add: next_at_def)
    have sz: "block_size (mem s) (block_header (fst (bs ! j))) = snd (bs ! j)"
      using linkedD(1) [OF heap_invD(3) [OF assms(1)] Suc.prems(1)] .
    have g: "\<lparr>gap_size = ?n - fst (bs ! j) - snd (bs ! j) - 12, gap_address = fst (bs ! j) + snd (bs ! j),
        gap_previous = fst (bs ! j), gap_next = ?n\<rparr> = gap_at (heap_start s) (heap_end s) bs (Suc j)"
      using True by (simp add: gap_at_def gap_word_def prev_at_def next_at_def diff_diff_add)
    have nx: "block_next (mem s) (block_header ?n) = next_at bs (Suc (Suc j))"
      using linkedD(3) [OF heap_invD(3) [OF assms(1)] True] .
    have upt: "[Suc j..<length bs] = Suc j # [Suc (Suc j)..<length bs]"
      using True by (rule upt_conv_Cons)
    show ?thesis
      using n Suc.IH [of "Suc j"] True Suc.prems(2)
      by (simp add: sz g nx upt get_header_block [OF assms(1) True])
  qed
qed

lemma layout_length:
  assumes "layout lo hi bs"
  shows "lo + 12 * length bs \<le> hi"
proof -
  have "i < length bs \<Longrightarrow> lo + 12 * Suc i \<le> unat (fst (bs ! i))" for i
  proof (induction i)
    case 0
    then show ?case using layout_bounds(1) [OF assms] by simp
  next
    case (Suc i)
    then show ?case using layout_order [OF assms, of i "Suc i"] by simp
  qed
  then show ?thesis
    using layout_bounds(2) [OF assms, of "length bs - 1"] layoutD [OF assms, of 0]
    by (cases bs) (auto simp: gap_limit_def, fastforce)
qed

section \<open>The choice is the best fit\<close>

lemma fold_consider_gap:
  "(fold (consider_gap sz) gs b = b \<and>
      (\<forall>g \<in> set gs. \<not> (sz + header_size \<le> gap_size g \<and> gap_size g < gap_size b))) \<or>
   (fold (consider_gap sz) gs b \<in> set gs \<and> sz + header_size \<le> gap_size (fold (consider_gap sz) gs b) \<and>
      gap_size (fold (consider_gap sz) gs b) < gap_size b \<and>
      (\<forall>g \<in> set gs. sz + header_size \<le> gap_size g \<longrightarrow> gap_size (fold (consider_gap sz) gs b) \<le> gap_size g))"
proof (induction gs arbitrary: b)
  case Nil
  then show ?case by simp
next
  case (Cons g gs)
  show ?case
  proof (cases "sz + header_size \<le> gap_size g \<and> gap_size g < gap_size b")
    case True
    then have "consider_gap sz g b = g" by (simp add: consider_gap_def)
    then show ?thesis using Cons.IH [of g] True by (auto simp: not_less intro: less_trans order.strict_implies_order)
  next
    case False
    then have "consider_gap sz g b = b" unfolding consider_gap_def by (rule if_not_P)
    then show ?thesis using Cons.IH [of b] False by (auto simp: not_less intro: order.trans order.strict_implies_order)
  qed
qed

section \<open>Writing the new block\<close>

definition new_header :: "memory \<Rightarrow> addr \<Rightarrow> u_dword \<Rightarrow> addr \<Rightarrow> addr \<Rightarrow> memory" where
  "new_header m g n prv nxt = store32 (store32 (store32 m g n) (g + 4) prv) (g + 8) nxt"

definition link_in :: "memory \<Rightarrow> addr \<Rightarrow> u_dword \<Rightarrow> blocks \<Rightarrow> nat \<Rightarrow> memory" where
  "link_in m g n bs i =
     (let m = new_header m g n (prev_at bs i) (next_at bs i);
          m = (if i = 0 then m else store32 m (block_header (prev_at bs i) + 8) (g + header_size))
      in if i < length bs then store32 m (block_header (next_at bs i) + 4) (g + header_size) else m)"

lemma new_header_outside: "\<not> in_range g 12 x \<Longrightarrow> new_header m g n prv nxt x = m x"
  by (simp add: new_header_def store_field_outside)

lemma new_header_fields:
  "block_size (new_header m g n prv nxt) g = n"
  "block_previous (new_header m g n prv nxt) g = prv"
  "block_next (new_header m g n prv nxt) g = nxt"
  by (simp_all add: new_header_def frame_simps)

lemma link_in_outside:
  assumes "\<not> in_range g 12 x" and "0 < i \<Longrightarrow> \<not> in_header (fst (bs ! (i - 1))) x"
    and "i < length bs \<Longrightarrow> \<not> in_header (fst (bs ! i)) x"
  shows "link_in m g n bs i x = m x"
  using assms
  by (auto simp: link_in_def Let_def new_header_outside store_field_outside in_header_def
      prev_at_def next_at_def)

text \<open>A place for a block of \<open>n\<close> bytes in gap \<open>i\<close> at address \<open>g\<close>.\<close>

definition room_at :: "addr \<Rightarrow> addr \<Rightarrow> blocks \<Rightarrow> nat \<Rightarrow> u_dword \<Rightarrow> bool" where
  "room_at lo hi bs i n \<longleftrightarrow> i \<le> length bs \<and>
     gap_begin (unat lo) bs i + unat n + 24 \<le> gap_limit (unat hi) bs i"

lemma gap_limit_le:
  "layout lo hi bs \<Longrightarrow> gap_limit hi bs i \<le> hi"
  using layout_bounds(2) by (fastforce simp: gap_limit_def)

lemma gap_begin_ge: "layout lo hi bs \<Longrightarrow> i \<le> length bs \<Longrightarrow> lo \<le> gap_begin lo bs i"
proof (cases i)
  case (Suc j)
  assume "layout lo hi bs" "i \<le> length bs"
  then show ?thesis using layout_bounds(1) [of lo hi bs j] Suc by simp
qed simp

lemma room_facts:
  assumes "layout (unat lo) (unat hi) bs" and "room_at lo hi bs i n" and "g = gap_word lo bs i"
  shows "unat g = gap_begin (unat lo) bs i" and "unat (g + header_size) = unat g + 12"
    and "in_range g 12 x \<longleftrightarrow> unat g \<le> unat x \<and> unat x < unat g + 12"
    and "in_range g 12 x \<Longrightarrow> k < length bs \<Longrightarrow> \<not> in_header (fst (bs ! k)) x"
proof -
  have i: "i \<le> length bs" using assms(2) by (simp add: room_at_def)
  show g: "unat g = gap_begin (unat lo) bs i"
    using unat_gap_word [OF assms(1) i] assms(3) by simp
  have le: "unat g + 24 \<le> gap_limit (unat hi) bs i"
    using assms(2) unfolding g room_at_def by linarith
  then have lt: "unat g + 24 < 4294967296"
    using gap_limit_le [OF assms(1), of i] unat_lt32 [of hi] by linarith
  then show "unat (g + header_size) = unat g + 12"
    by (subst unat_plus_small) simp_all
  show lin: "in_range g 12 x \<longleftrightarrow> unat g \<le> unat x \<and> unat x < unat g + 12"
    using lt by (intro in_range_linear) simp
  show "\<not> in_header (fst (bs ! k)) x" if "in_range g 12 x" "k < length bs"
    using that le unfolding lin g by (intro gap_header_disjoint [OF assms(1) i that(2)]) simp_all
qed

lemma link_in_fields:
  assumes "layout (unat lo) (unat hi) bs" and "linked m bs"
    and "room_at lo hi bs i n" and "g = gap_word lo bs i" and k: "k < length bs"
  defines "m' \<equiv> link_in m g n bs i"
  shows "block_size m' (block_header (fst (bs ! k))) = snd (bs ! k)"
    and "block_previous m' (block_header (fst (bs ! k))) = (if k = i then g + header_size else prev_at bs k)"
    and "block_next m' (block_header (fst (bs ! k))) = (if Suc k = i then g + header_size else next_at bs (Suc k))"
proof -
  let ?q = "fst (bs ! k)" and ?m1 = "new_header m g n (prev_at bs i) (next_at bs i)"
  have i: "i \<le> length bs" using assms(3) by (simp add: room_at_def)
  have new: "block_size ?m1 (block_header ?q) = snd (bs ! k)"
    "block_previous ?m1 (block_header ?q) = prev_at bs k"
    "block_next ?m1 (block_header ?q) = next_at bs (Suc k)"
    using header_frame [of ?q ?m1 m] room_facts(4) [OF assms(1,3,4) _ k] new_header_outside
      linkedD [OF assms(2) k] by metis+
  have prv: "0 < i \<Longrightarrow> prev_at bs i = fst (bs ! (i - 1))" and nxt: "i < length bs \<Longrightarrow> next_at bs i = fst (bs ! i)"
    by (simp_all add: prev_at_def next_at_def)
  define m2 where "m2 = (if i = 0 then ?m1 else store32 ?m1 (block_header (fst (bs ! (i - 1))) + 8) (g + header_size))"
  have st: "m' = (if i < length bs then store32 m2 (block_header (fst (bs ! i)) + 4) (g + header_size) else m2)"
    using prv nxt by (simp add: m'_def link_in_def m2_def Let_def)
  have at_prev: "block_size m2 (block_header ?q) = snd (bs ! k)"
    "block_previous m2 (block_header ?q) = prev_at bs k"
    "block_next m2 (block_header ?q) = (if Suc k = i then g + header_size else next_at bs (Suc k))"
  proof (atomize(full), cases i)
    case (Suc l)
    then have "l < length bs" using i by simp
    from store_next_at [OF assms(1) this k] new Suc
    show "block_size m2 (block_header ?q) = snd (bs ! k) \<and> block_previous m2 (block_header ?q) = prev_at bs k \<and>
      block_next m2 (block_header ?q) = (if Suc k = i then g + header_size else next_at bs (Suc k))"
      by (auto simp: m2_def)
  qed (use new in \<open>simp add: m2_def\<close>)
  show "block_size m' (block_header ?q) = snd (bs ! k)"
    "block_previous m' (block_header ?q) = (if k = i then g + header_size else prev_at bs k)"
    "block_next m' (block_header ?q) = (if Suc k = i then g + header_size else next_at bs (Suc k))"
    using at_prev store_previous_at [OF assms(1) _ k, of i m2] k unfolding st by auto
qed

lemma link_in_new:
  assumes "layout (unat lo) (unat hi) bs" and "room_at lo hi bs i n" and "g = gap_word lo bs i"
  shows "block_size (link_in m g n bs i) g = n"
    and "block_previous (link_in m g n bs i) g = prev_at bs i"
    and "block_next (link_in m g n bs i) g = next_at bs i"
proof -
  let ?m1 = "new_header m g n (prev_at bs i) (next_at bs i)"
  have i: "i \<le> length bs" using assms(2) by (simp add: room_at_def)
  have "link_in m g n bs i x = ?m1 x" if "in_header (g + header_size) x" for x
  proof -
    have "in_range g 12 x" using that by (simp add: in_header_def)
    then have "\<not> in_header (fst (bs ! k)) x" if "k < length bs" for k
      using room_facts(4) [OF assms] that by blast
    then show ?thesis
      using i by (auto simp: link_in_def Let_def store_field_outside in_header_def prev_at_def next_at_def)
  qed
  from header_frame [of "g + header_size" "link_in m g n bs i" ?m1, OF this]
  show "block_size (link_in m g n bs i) g = n"
    and "block_previous (link_in m g n bs i) g = prev_at bs i"
    and "block_next (link_in m g n bs i) g = next_at bs i"
    by (simp_all add: new_header_fields)
qed

lemma linked_insert:
  assumes "layout (unat lo) (unat hi) bs" and "linked m bs"
    and "room_at lo hi bs i n" and "g = gap_word lo bs i"
  shows "linked (link_in m g n bs i) (insert_block i (g + header_size, n) bs)"
  unfolding linked_def
proof (intro allI impI)
  let ?bs = "insert_block i (g + header_size, n) bs" and ?m = "link_in m g n bs i"
  fix j
  assume "j < length ?bs"
  have i: "i \<le> length bs" using assms(3) by (simp add: room_at_def)
  then have j: "j \<le> length bs" using \<open>j < length ?bs\<close> by (simp add: length_insert_block)
  note old = link_in_fields [OF assms]
  consider "j < i" | "j = i" | k where "j = Suc k" "i \<le> k" by (cases j) (auto simp: not_less_eq_eq, linarith)
  then show "block_size ?m (block_header (fst (?bs ! j))) = snd (?bs ! j) \<and>
    block_previous ?m (block_header (fst (?bs ! j))) = prev_at ?bs j \<and>
    block_next ?m (block_header (fst (?bs ! j))) = next_at ?bs (Suc j)"
  proof cases
    case 1
    then show ?thesis
      using old [of j] i by (auto simp: nth_insert_block prev_at_insert next_at_insert)
  next
    case 2
    then show ?thesis
      using link_in_new [OF assms(1,3,4), of m] i
      by (simp add: nth_insert_block prev_at_insert next_at_insert)
  next
    case 3
    then show ?thesis
      using old [of k] i j by (auto simp: nth_insert_block prev_at_insert next_at_insert)
  qed
qed

text \<open>\<^verbatim>\<open>allocate_space\<close> called on gap \<open>i\<close> returns and leaves \<open>link_in\<close> in memory.\<close>

lemma link_in_heap_header:
  assumes "heap_inv s bs" and "room_at (heap_start s) (heap_end s) bs i n"
    and "g = gap_word (heap_start s) bs i" and "in_range (header s) 12 x"
  shows "\<not> in_range g 12 x" and "k < length bs \<Longrightarrow> \<not> in_header (fst (bs ! k)) x"
proof -
  note inv = heap_invD [OF assms(1)]
  have x: "unat x < unat (heap_start s)"
    using assms(4) inv(1) unat_lt32 [of "heap_start s"] by (subst (asm) in_range_linear) auto
  have "i \<le> length bs" using assms(2) by (simp add: room_at_def)
  then show "\<not> in_range g 12 x"
    using room_facts(1,3) [OF inv(2) assms(2,3)] gap_begin_ge [OF inv(2), of i] x by simp
  show "\<not> in_header (fst (bs ! k)) x" if "k < length bs"
    using layout_bounds(1) [OF inv(2) that] x by (subst in_header_linear) auto
qed

lemma allocate_space_eq:
  assumes "heap_inv s bs" and "room_at (heap_start s) (heap_end s) bs i n"
    and "g = gap_word (heap_start s) bs i"
  shows "allocate_space g n (prev_at bs i) (next_at bs i) s =
    Inr (g + header_size, s\<lparr>mem := link_in (mem s) g n bs i\<rparr>)"
proof -
  let ?m1 = "new_header (mem s) g n (prev_at bs i) (next_at bs i)"
  let ?m2 = "store32 ?m1 (block_header (prev_at bs i) + 8) (g + header_size)"
  have i: "i \<le> length bs" using assms(2) by (simp add: room_at_def)
  note hh = link_in_heap_header [OF assms]
  have m1: "?m1 x = mem s x" if "in_range (header s) 12 x" for x
    using hh(1) [OF that] by (rule new_header_outside)
  have prv: "0 < i \<Longrightarrow> prev_at bs i = fst (bs ! (i - 1))" and nxt: "i < length bs \<Longrightarrow> next_at bs i = fst (bs ! i)"
    by (simp_all add: prev_at_def next_at_def)
  have m2: "?m2 x = mem s x" if "in_range (header s) 12 x" "0 < i" for x
    using hh(2) [OF that(1), of "i - 1"] that i m1 prv
    by (simp add: store_field_outside in_header_def)
  have gh1: "0 < i \<Longrightarrow> get_header (prev_at bs i) (s\<lparr>mem := ?m1\<rparr>) = Inr (block_header (prev_at bs i), s\<lparr>mem := ?m1\<rparr>)"
    using block_in_heap [OF assms(1), of "i - 1"] i prv heap_header_frame(2,3) [of s ?m1] m1
    by (simp add: get_header_def is_in_heap_def block_header_def)
  have gh2: "i < length bs \<Longrightarrow> get_header (next_at bs i) (s\<lparr>mem := m\<rparr>) = Inr (block_header (next_at bs i), s\<lparr>mem := m\<rparr>)"
    if "\<And>x. in_range (header s) 12 x \<Longrightarrow> m x = mem s x" for m
    using block_in_heap [OF assms(1), of i] nxt heap_header_frame(2,3) [of s m] that
    by (simp add: get_header_def is_in_heap_def block_header_def)
  have start: "set_block_next g (next_at bs i) (set_block_previous g (prev_at bs i) (set_block_size g n s)) = s\<lparr>mem := ?m1\<rparr>"
    by (simp add: set_block_next_def set_block_previous_def set_block_size_def new_header_def)
  have null: "prev_at bs i = nullptr \<longleftrightarrow> i = 0" "next_at bs i = nullptr \<longleftrightarrow> length bs \<le> i"
    using prev_at_null [OF assms(1) i] next_at_null [OF assms(1)] by simp_all
  show ?thesis
  proof (cases "i = 0")
    case True
    have "get_header (next_at bs i) (s\<lparr>mem := ?m1\<rparr>) = Inr (block_header (next_at bs i), s\<lparr>mem := ?m1\<rparr>)"
      if "i < length bs" using gh2 [OF m1 that] .
    then show ?thesis
      using True null unfolding allocate_space_def Let_def start link_in_def
      by (auto simp: set_block_previous_def not_less)
  next
    case False
    then have "get_header (next_at bs i) (s\<lparr>mem := ?m2\<rparr>) = Inr (block_header (next_at bs i), s\<lparr>mem := ?m2\<rparr>)"
      if "i < length bs" using gh2 [OF m2 that] by simp
    then show ?thesis
      using False gh1 null unfolding allocate_space_def Let_def start link_in_def
      by (auto simp: set_block_previous_def set_block_next_def not_less)
  qed
qed

text \<open>Inserting the block restores the invariant once the list head is updated.\<close>

definition place_block :: "u_dword \<Rightarrow> blocks \<Rightarrow> nat \<Rightarrow> 'a heap_state_scheme \<Rightarrow> 'a heap_state_scheme" where
  "place_block n bs i s =
     (let g = gap_word (heap_start s) bs i;
          s' = s\<lparr>mem := link_in (mem s) g n bs i\<rparr>
      in if i = 0 then set_first_address (g + header_size) s' else s')"

lemma set_first_outside: "\<not> in_range (header s) 12 x \<Longrightarrow> mem (set_first_address p s) x = mem s x"
  by (simp add: set_first_address_def store_field_outside)

lemma set_first_fields [simp]:
  "first_address (set_first_address p s) = p"
  "heap_start (set_first_address p s) = heap_start s"
  "heap_end (set_first_address p s) = heap_end s"
  "header (set_first_address p s) = header s"
  using field_updates(2,3) [of "mem s" "header s" p]
  by (simp_all add: set_first_address_def first_address_def heap_start_def heap_end_def block_fields)

lemma place_block_inv:
  assumes "heap_inv s bs" and "room_at (heap_start s) (heap_end s) bs i n"
  defines "g \<equiv> gap_word (heap_start s) bs i"
  shows "heap_inv (place_block n bs i s) (insert_block i (g + header_size, n) bs)"
    and "\<not> meta (header s) (insert_block i (g + header_size, n) bs) x \<Longrightarrow> mem (place_block n bs i s) x = mem s x"
    and "\<exists>m. place_block n bs i s = s\<lparr>mem := m\<rparr>"
    and "heap_start (place_block n bs i s) = heap_start s"
    and "heap_end (place_block n bs i s) = heap_end s"
proof -
  note inv = heap_invD [OF assms(1)] and room = room_facts [OF heap_invD(2) [OF assms(1)] assms(2) g_def [THEN meta_eq_to_obj_eq]]
  let ?bs = "insert_block i (g + header_size, n) bs" and ?s = "s\<lparr>mem := link_in (mem s) g n bs i\<rparr>"
  have i: "i \<le> length bs" using assms(2) by (simp add: room_at_def)
  have hdr: "link_in (mem s) g n bs i x = mem s x" if "in_range (header s) 12 x" for x
    using link_in_heap_header [OF assms(1,2) g_def [THEN meta_eq_to_obj_eq] that] i by (intro link_in_outside) auto
  note frame = heap_header_frame [of s "link_in (mem s) g n bs i", OF hdr]
  have lay: "layout (unat (heap_start s)) (unat (heap_end s)) ?bs"
    using assms(2) room(1,2) by (intro layout_insert [OF inv(2) i]) (auto simp: room_at_def)
  have link: "linked (link_in (mem s) g n bs i) ?bs"
    by (rule linked_insert [OF inv(2,3) assms(2) g_def [THEN meta_eq_to_obj_eq]])
  have place: "place_block n bs i s = (if i = 0 then set_first_address (g + header_size) ?s else ?s)"
    by (simp add: place_block_def g_def Let_def)
  show "heap_inv (place_block n bs i s) ?bs"
  proof (cases "i = 0")
    case False
    then show ?thesis
      unfolding place heap_inv_def using frame inv lay link i by (simp add: next_at_insert)
  next
    case True
    have "\<not> in_range (header s) 12 x" if "j < length ?bs" "in_header (fst (?bs ! j)) x" for j x
    proof
      assume r: "in_range (header s) 12 x"
      have "unat x < unat (heap_start s)"
        using r inv(1) unat_lt32 [of "heap_start s"] by (subst (asm) in_range_linear) auto
      moreover have "unat (heap_start s) + 12 \<le> unat (fst (?bs ! j))"
        by (rule layout_bounds(1) [OF lay that(1)])
      ultimately show False using that(2) by (subst (asm) in_header_linear) auto
    qed
    then have same: "mem (set_first_address (g + header_size) ?s) x = link_in (mem s) g n bs i x"
      if "j < length ?bs" "in_header (fst (?bs ! j)) x" for j x
      using that set_first_outside [of ?s x] by simp
    have "linked (mem (set_first_address (g + header_size) ?s)) ?bs"
      unfolding linked_def
    proof (intro allI impI)
      fix j
      assume j: "j < length ?bs"
      show "block_size (mem (set_first_address (g + header_size) ?s)) (block_header (fst (?bs ! j))) = snd (?bs ! j) \<and>
        block_previous (mem (set_first_address (g + header_size) ?s)) (block_header (fst (?bs ! j))) = prev_at ?bs j \<and>
        block_next (mem (set_first_address (g + header_size) ?s)) (block_header (fst (?bs ! j))) = next_at ?bs (Suc j)"
        using header_frame [OF same [OF j]] linkedD [OF link j] by simp
    qed
    then show ?thesis
      unfolding place heap_inv_def using frame inv lay True i by (simp add: next_at_insert)
  qed
  show "mem (place_block n bs i s) x = mem s x" if "\<not> meta (header s) ?bs x"
  proof -
    have out: "\<not> in_range (header s) 12 x" "\<not> in_header (g + header_size) x"
      "\<And>k. k < length bs \<Longrightarrow> \<not> in_header (fst (bs ! k)) x"
      using that i by (auto simp: meta_def set_insert_block)
    then have "link_in (mem s) g n bs i x = mem s x"
      using i by (intro link_in_outside) (auto simp: in_header_def)
    then show ?thesis using out(1) unfolding place by (cases "i = 0") (simp_all add: set_first_outside)
  qed
  show "\<exists>m. place_block n bs i s = s\<lparr>mem := m\<rparr>"
    by (auto simp: place set_first_address_def)
  show "heap_start (place_block n bs i s) = heap_start s"
    unfolding place using frame by (cases "i = 0") simp_all
  show "heap_end (place_block n bs i s) = heap_end s"
    unfolding place using frame by (cases "i = 0") simp_all
qed

section \<open>ralloc\<close>

definition best_gap :: "u_dword \<Rightarrow> addr \<Rightarrow> addr \<Rightarrow> blocks \<Rightarrow> gap" where
  "best_gap n lo hi bs = fold (consider_gap n) (map (gap_at lo hi bs) [0..<Suc (length bs)])
     \<lparr>gap_size = hi - lo, gap_address = nullptr, gap_previous = nullptr, gap_next = nullptr\<rparr>"

definition no_space :: "'a heap_state_scheme \<Rightarrow> ('a heap_state_scheme, unit) result" where
  "no_space s = throw_verbose allocation_exception_id ''Allocation Exception''
     ''No space left in heap available for allocation!'' ''./lib/base/heap.c'' 167 s"

lemma ralloc_nonempty_eq:
  assumes "heap_inv s bs" and "bs \<noteq> []"
  shows "ralloc n s =
    (let best = best_gap n (heap_start s) (heap_end s) bs
     in and_then
       (if gap_address best \<noteq> nullptr then
          allocate_space (gap_address best) n (gap_previous best) (gap_next best) s
        else Inr (nullptr, s)) (\<lambda>p s.
       (let s = (if gap_address best = heap_start s then set_first_address p s else s)
        in and_then (if p = nullptr then no_space s else Inr ((), s)) (\<lambda>_ s. Inr (p, s)))))"
proof -
  note inv = heap_invD [OF assms(1)]
  let ?lo = "heap_start s" and ?hi = "heap_end s"
  obtain l where l: "length bs = Suc l" using assms(2) by (cases bs) auto
  have 0: "0 < length bs" using l by simp
  have first: "first_address s = fst (bs ! 0)" "first_address s \<noteq> nullptr"
    using inv(4) block_not_null [OF assms(1) 0] 0 by (simp_all add: next_at_def)
  have gfirst: "\<lparr>gap_size = fst (bs ! 0) - ?lo - 12, gap_address = ?lo, gap_previous = nullptr,
      gap_next = fst (bs ! 0)\<rparr> = gap_at ?lo ?hi bs 0"
    using 0 by (simp add: gap_at_def gap_word_def prev_at_def next_at_def)
  have nx: "block_next (mem s) (block_header (fst (bs ! 0))) = next_at bs (Suc 0)"
    using linkedD(3) [OF inv(3) 0] .
  have "length bs \<le> walk_fuel"
    using layout_length [OF inv(2)] unat_lt32 [of ?hi] by (simp add: walk_fuel_def)
  then have walk: "ralloc_walk walk_fuel n (fst (bs ! 0)) (block_header (fst (bs ! 0))) (next_at bs (Suc 0)) best s =
      Inr ((fst (last bs), block_header (fst (last bs)),
        fold (consider_gap n) (map (gap_at ?lo ?hi bs) [Suc 0..<length bs]) best), s)" for best
    by (intro ralloc_walk_eq [OF assms(1) 0]) simp
  have last: "last bs = bs ! l" using assms(2) l by (simp add: last_conv_nth)
  have sz: "block_size (mem s) (block_header (fst (last bs))) = snd (last bs)"
    using linkedD(1) [OF inv(3), of l] l last by simp
  have glast: "\<lparr>gap_size = ?hi - fst (last bs) - snd (last bs) - 12, gap_address = fst (last bs) + snd (last bs),
      gap_previous = fst (last bs), gap_next = nullptr\<rparr> = gap_at ?lo ?hi bs (length bs)"
    using l last by (simp add: gap_at_def gap_word_def prev_at_def next_at_def diff_diff_add)
  have upt: "[0..<Suc (length bs)] = 0 # [Suc 0..<length bs] @ [length bs]"
    using 0 by (simp add: upt_conv_Cons)
  show ?thesis
    using first unfolding best_gap_def upt no_space_def
    by (simp add: ralloc_def get_header_block [OF assms(1) 0] nx walk sz gfirst glast Let_def cong: if_cong)
qed

lemma fits_iff_room:
  assumes "layout (unat lo) (unat hi) bs" and "i \<le> length bs" and "unat n + 12 < 4294967296"
  shows "n + header_size \<le> gap_size (gap_at lo hi bs i) \<longleftrightarrow> room_at lo hi bs i n"
proof -
  have "unat (n + header_size) = unat n + 12"
    using assms(3) by (subst unat_plus_small) simp_all
  then show ?thesis
    using unat_gap_size [OF assms(1,2)] layoutD [OF assms(1,2)] assms(2)
    by (auto simp: word_le_nat_alt room_at_def)
qed

lemma gap_size_below:
  assumes "layout (unat lo) (unat hi) bs" and "i \<le> length bs"
  shows "gap_size (gap_at lo hi bs i) < hi - lo"
proof -
  have "unat lo + 12 \<le> unat hi"
    using layoutD [OF assms] gap_begin_ge [OF assms] gap_limit_le [OF assms(1), of i] by linarith
  moreover from this have "unat (hi - lo) = unat hi - unat lo"
    by (intro unat_minus_ge) simp
  ultimately show ?thesis
    using unat_gap_size [OF assms] gap_begin_ge [OF assms] gap_limit_le [OF assms(1), of i]
    by (simp add: word_less_nat_alt)
qed

lemma best_gap_room:
  assumes "layout (unat lo) (unat hi) bs" and "unat n + 12 < 4294967296"
  shows "(\<exists>i. room_at lo hi bs i n \<and> best_gap n lo hi bs = gap_at lo hi bs i \<and>
      (\<forall>j. room_at lo hi bs j n \<longrightarrow> gap_size (gap_at lo hi bs i) \<le> gap_size (gap_at lo hi bs j)))
    \<or> gap_address (best_gap n lo hi bs) = nullptr \<and> (\<forall>i. \<not> room_at lo hi bs i n)"
proof -
  let ?gs = "map (gap_at lo hi bs) [0..<Suc (length bs)]"
  have mem_gs: "g \<in> set ?gs \<longleftrightarrow> (\<exists>i \<le> length bs. g = gap_at lo hi bs i)" for g
    by (auto simp: less_Suc_eq_le image_iff simp del: upt_Suc)
  have rng: "room_at lo hi bs j n \<Longrightarrow> j \<le> length bs" for j by (simp add: room_at_def)
  note fits = fits_iff_room [OF assms(1) _ assms(2)] and below = gap_size_below [OF assms(1)]
  from fold_consider_gap [of n ?gs "\<lparr>gap_size = hi - lo, gap_address = nullptr, gap_previous = nullptr, gap_next = nullptr\<rparr>"]
  show ?thesis
  proof (elim disjE conjE)
    assume *: "fold (consider_gap n) ?gs \<lparr>gap_size = hi - lo, gap_address = nullptr, gap_previous = nullptr, gap_next = nullptr\<rparr> =
        \<lparr>gap_size = hi - lo, gap_address = nullptr, gap_previous = nullptr, gap_next = nullptr\<rparr>"
      and none: "\<forall>g \<in> set ?gs. \<not> (n + header_size \<le> gap_size g \<and>
        gap_size g < gap_size \<lparr>gap_size = hi - lo, gap_address = nullptr, gap_previous = nullptr, gap_next = nullptr\<rparr>)"
    have "\<not> room_at lo hi bs i n" for i
    proof
      assume r: "room_at lo hi bs i n"
      then have "gap_at lo hi bs i \<in> set ?gs" using rng mem_gs by blast
      with none have "\<not> (n + header_size \<le> gap_size (gap_at lo hi bs i) \<and> gap_size (gap_at lo hi bs i) < hi - lo)"
        by (metis gap.simps(1))
      then show False using fits [OF rng [OF r]] below [OF rng [OF r]] r by blast
    qed
    then show ?thesis using * by (simp add: best_gap_def)
  next
    assume in_gs: "fold (consider_gap n) ?gs \<lparr>gap_size = hi - lo, gap_address = nullptr, gap_previous = nullptr, gap_next = nullptr\<rparr> \<in> set ?gs"
      and fit: "n + header_size \<le> gap_size (fold (consider_gap n) ?gs \<lparr>gap_size = hi - lo, gap_address = nullptr, gap_previous = nullptr, gap_next = nullptr\<rparr>)"
      and least: "\<forall>g \<in> set ?gs. n + header_size \<le> gap_size g \<longrightarrow>
        gap_size (fold (consider_gap n) ?gs \<lparr>gap_size = hi - lo, gap_address = nullptr, gap_previous = nullptr, gap_next = nullptr\<rparr>) \<le> gap_size g"
    then obtain i where i: "i \<le> length bs" "best_gap n lo hi bs = gap_at lo hi bs i"
      unfolding best_gap_def [symmetric] mem_gs by blast
    have "room_at lo hi bs i n" using fit fits [OF i(1)] i(2) unfolding best_gap_def [symmetric] by simp
    moreover have "gap_size (gap_at lo hi bs i) \<le> gap_size (gap_at lo hi bs j)" if "room_at lo hi bs j n" for j
      using least fits [OF rng [OF that]] that i(2) mem_gs rng [OF that] unfolding best_gap_def [symmetric] by metis
    ultimately show ?thesis using i(2) by blast
  qed
qed

lemma gap_word_start:
  fixes lo hi :: addr
  assumes "layout (unat lo) (unat hi) bs" and "i \<le> length bs"
  shows "gap_word lo bs i = lo \<longleftrightarrow> i = 0"
proof (cases i)
  case (Suc j)
  then have "unat lo < unat (gap_word lo bs i)"
    using unat_gap_word [OF assms] layout_bounds(1) [OF assms(1), of j] assms(2) by simp
  then show ?thesis using Suc by auto
qed (simp add: gap_word_def)

lemma allocate_in_gap:
  assumes "heap_inv s bs" and "room_at (heap_start s) (heap_end s) bs i n"
  defines "g \<equiv> gap_word (heap_start s) bs i"
  shows "and_then (allocate_space g n (prev_at bs i) (next_at bs i) s) (\<lambda>p s'.
      f p (if g = heap_start s' then set_first_address p s' else s')) =
    f (g + header_size) (place_block n bs i s)" and "g \<noteq> nullptr" and "g + header_size \<noteq> nullptr"
proof -
  note inv = heap_invD [OF assms(1)] and gdef = g_def [THEN meta_eq_to_obj_eq]
  have i: "i \<le> length bs" using assms(2) by (simp add: room_at_def)
  have hdr: "link_in (mem s) g n bs i x = mem s x" if "in_range (header s) 12 x" for x
    using link_in_heap_header [OF assms(1,2) gdef that] i by (intro link_in_outside) auto
  show "and_then (allocate_space g n (prev_at bs i) (next_at bs i) s) (\<lambda>p s'.
      f p (if g = heap_start s' then set_first_address p s' else s')) =
    f (g + header_size) (place_block n bs i s)"
    using gap_word_start [OF inv(2) i]
    unfolding allocate_space_eq [OF assms(1,2) gdef] place_block_def Let_def gdef [symmetric]
    by (simp add: heap_header_frame(2) [OF hdr])
  have "0 < unat g"
    using room_facts(1) [OF inv(2) assms(2) gdef] gap_begin_ge [OF inv(2) i] inv(1) by simp
  then show "g \<noteq> nullptr" and "g + header_size \<noteq> nullptr"
    using room_facts(2) [OF inv(2) assms(2) gdef] by auto
qed

text \<open>
  The three ways \<^verbatim>\<open>ralloc\<close> can go on a heap in good order: the first block of an empty heap, the
  best fitting gap, and no gap that fits.
\<close>

lemma ralloc_room:
  assumes "heap_inv s bs" and "unat n + 12 < 4294967296"
    and "room_at (heap_start s) (heap_end s) bs i n"
  shows "\<exists>i. room_at (heap_start s) (heap_end s) bs i n \<and>
    (\<forall>j. room_at (heap_start s) (heap_end s) bs j n \<longrightarrow>
      gap_size (gap_at (heap_start s) (heap_end s) bs i) \<le> gap_size (gap_at (heap_start s) (heap_end s) bs j)) \<and>
    ralloc n s = Inr (gap_word (heap_start s) bs i + header_size, place_block n bs i s)"
proof (cases "bs = []")
  case True
  then have only: "room_at (heap_start s) (heap_end s) bs j n \<Longrightarrow> j = 0" for j
    by (simp add: room_at_def)
  have r0: "room_at (heap_start s) (heap_end s) bs 0 n" using only assms(3) by blast
  have "first_address s = nullptr" using heap_invD(4) [OF assms(1)] True by (simp add: next_at_def)
  then have "ralloc n s = Inr (heap_start s + header_size, place_block n bs 0 s)"
    using allocate_space_eq [OF assms(1) r0 refl] True
    by (simp add: ralloc_def place_block_def gap_word_def prev_at_def next_at_def Let_def)
  then show ?thesis using r0 only by (intro exI [of _ 0]) (auto simp: gap_word_def)
next
  case False
  from best_gap_room [OF heap_invD(2) [OF assms(1)] assms(2)] assms(3)
  obtain i where i: "room_at (heap_start s) (heap_end s) bs i n"
    "best_gap n (heap_start s) (heap_end s) bs = gap_at (heap_start s) (heap_end s) bs i"
    "\<forall>j. room_at (heap_start s) (heap_end s) bs j n \<longrightarrow>
      gap_size (gap_at (heap_start s) (heap_end s) bs i) \<le> gap_size (gap_at (heap_start s) (heap_end s) bs j)"
    by blast
  note place = allocate_in_gap [OF assms(1) i(1)]
  have "ralloc n s = Inr (gap_word (heap_start s) bs i + header_size, place_block n bs i s)"
    unfolding ralloc_nonempty_eq [OF assms(1) False] i(2)
    using place(1) [of "\<lambda>p s. and_then (if p = nullptr then no_space s else Inr ((), s)) (\<lambda>_ s. Inr (p, s))"]
      place(2,3) by (simp add: Let_def cong: if_cong)
  then show ?thesis using i by blast
qed

lemma ralloc_no_room:
  assumes "heap_inv s bs" and "bs \<noteq> []" and "unat n + 12 < 4294967296"
    and "\<And>i. \<not> room_at (heap_start s) (heap_end s) bs i n"
  shows "ralloc n s = and_then (no_space s) (\<lambda>_ s. Inr (nullptr, s))"
proof -
  have "gap_address (best_gap n (heap_start s) (heap_end s) bs) = nullptr"
    using best_gap_room [OF heap_invD(2) [OF assms(1)] assms(3)] assms(4) by blast
  moreover have "heap_start s \<noteq> nullptr"
    using heap_invD(1) [OF assms(1)] by auto
  ultimately show ?thesis
    by (simp add: ralloc_nonempty_eq [OF assms(1,2)] Let_def)
qed

end
