(* ===== verification/HeapOps.thy ===== *)
theory HeapOps
  imports HeapAlloc "HOL-Library.Multiset"
begin

text \<open>
  The other heap operations on the block list: initialisation, release, resizing, the
  occupation count, and the contract of the allocator as an interface for its clients.
\<close>

section \<open>Initialisation\<close>

lemma initialize_heap_fields:
  fixes s :: "'a heap_state_scheme" and start :: addr and cap :: u_dword
  defines "s' \<equiv> initialize_heap start cap s"
  shows "header s' = start" and "heap_start s' = start + 12" and "heap_end s' = start + cap"
    and "first_address s' = nullptr" and "handlers s' 1 = Some Lib_allocation_handler"
    and "\<not> in_range start 12 x \<Longrightarrow> mem s' x = mem s x"
    and "device s' = device s" and "io_trace s' = io_trace s" and "stack_slot s' = stack_slot s"
    and "literal s' = literal s"
proof -
  let ?m = "memory_clear start 12 0 (mem s)"
  have s': "s' = s\<lparr>header := start,
      mem := store32 (store32 (store32 ?m (start + 4) (start + 12)) (start + 8) (start + cap)) start 0,
      handlers := (handlers s)(1 := Some Lib_allocation_handler)\<rparr>"
    by (simp add: s'_def initialize_heap_def set_first_address_def handle_exceptions_def
        allocation_exception_id_def Let_def)
  show "header s' = start" "handlers s' 1 = Some Lib_allocation_handler" "device s' = device s"
    "io_trace s' = io_trace s" "stack_slot s' = stack_slot s" "literal s' = literal s"
    by (simp_all add: s')
  show "heap_start s' = start + 12" "heap_end s' = start + cap" "first_address s' = nullptr"
    by (simp_all add: s' heap_start_def heap_end_def first_address_def load32_store32_other disjoint_fields)
  show "mem s' x = mem s x" if "\<not> in_range start 12 x"
    using that by (simp add: s' store_field_outside memory_clear_apply)
qed

lemma initialize_heap_inv:
  assumes "24 \<le> unat cap" and "unat start + unat cap < 4294967296"
  shows "heap_inv (initialize_heap start cap s) []"
proof -
  have "unat (start + 12) = unat start + 12"
    using assms by (subst unat_plus_small) simp_all
  moreover have "unat (start + cap) = unat start + unat cap"
    using assms by (intro unat_plus_small) simp
  ultimately show ?thesis
    using assms(1)
    by (simp add: heap_inv_def initialize_heap_fields layout_def linked_def next_at_def gap_limit_def)
qed

section \<open>Release\<close>

definition link_out :: "memory \<Rightarrow> blocks \<Rightarrow> nat \<Rightarrow> memory" where
  "link_out m bs i =
     (let m = (if Suc i < length bs
               then store32 m (block_header (fst (bs ! Suc i)) + 4) (prev_at bs i) else m)
      in if i = 0 then m
         else store32 m (block_header (fst (bs ! (i - 1))) + 8) (next_at bs (Suc i)))"

definition drop_block :: "blocks \<Rightarrow> nat \<Rightarrow> 'a heap_state_scheme \<Rightarrow> 'a heap_state_scheme" where
  "drop_block bs i s =
     (let s = (if i = 0 then set_first_address (next_at bs 1) s else s)
      in s\<lparr>mem := link_out (mem s) bs i\<rparr>)"

lemma link_out_fields:
  assumes "layout lo hi bs" and "linked m bs" and i: "i < length bs" and k: "k < length bs"
  defines "m' \<equiv> link_out m bs i"
  shows "block_size m' (block_header (fst (bs ! k))) = snd (bs ! k)"
    and "block_previous m' (block_header (fst (bs ! k))) = (if k = Suc i then prev_at bs i else prev_at bs k)"
    and "block_next m' (block_header (fst (bs ! k))) = (if Suc k = i then next_at bs (Suc i) else next_at bs (Suc k))"
proof -
  let ?q = "fst (bs ! k)"
  define m2 where "m2 = (if Suc i < length bs
      then store32 m (block_header (fst (bs ! Suc i)) + 4) (prev_at bs i) else m)"
  have at_next: "block_size m2 (block_header ?q) = snd (bs ! k)"
    "block_previous m2 (block_header ?q) = (if k = Suc i then prev_at bs i else prev_at bs k)"
    "block_next m2 (block_header ?q) = next_at bs (Suc k)"
    using linkedD [OF assms(2) k] store_previous_at [OF assms(1) _ k, of "Suc i" m] k
    by (auto simp: m2_def)
  show "block_size m' (block_header ?q) = snd (bs ! k)"
    "block_previous m' (block_header ?q) = (if k = Suc i then prev_at bs i else prev_at bs k)"
    "block_next m' (block_header ?q) = (if Suc k = i then next_at bs (Suc i) else next_at bs (Suc k))"
  proof (atomize(full), cases i)
    case 0
    then have "m' = m2" by (simp add: m'_def link_out_def m2_def Let_def)
    then show "block_size m' (block_header ?q) = snd (bs ! k) \<and>
      block_previous m' (block_header ?q) = (if k = Suc i then prev_at bs i else prev_at bs k) \<and>
      block_next m' (block_header ?q) = (if Suc k = i then next_at bs (Suc i) else next_at bs (Suc k))"
      using at_next 0 by simp
  next
    case (Suc l)
    then have "l < length bs" using i by simp
    from store_next_at [OF assms(1) this k, of m2 "next_at bs (Suc i)"] at_next Suc
    show "block_size m' (block_header ?q) = snd (bs ! k) \<and>
      block_previous m' (block_header ?q) = (if k = Suc i then prev_at bs i else prev_at bs k) \<and>
      block_next m' (block_header ?q) = (if Suc k = i then next_at bs (Suc i) else next_at bs (Suc k))"
      by (auto simp: m'_def link_out_def Let_def m2_def)
  qed
qed

lemma linked_remove:
  assumes "layout lo hi bs" and "linked m bs" and i: "i < length bs"
  shows "linked (link_out m bs i) (remove_block i bs)"
  unfolding linked_def
proof (intro allI impI)
  let ?bs = "remove_block i bs" and ?m = "link_out m bs i"
  fix j
  assume "j < length ?bs"
  then have j: "j < length bs - 1" using i by (simp add: length_remove_block)
  note old = link_out_fields [OF assms]
  show "block_size ?m (block_header (fst (?bs ! j))) = snd (?bs ! j) \<and>
    block_previous ?m (block_header (fst (?bs ! j))) = prev_at ?bs j \<and>
    block_next ?m (block_header (fst (?bs ! j))) = next_at ?bs (Suc j)"
  proof (cases "j < i")
    case True
    then have "?bs ! j = bs ! j" "prev_at ?bs j = prev_at bs j"
      "next_at ?bs (Suc j) = (if Suc j = i then next_at bs (Suc i) else next_at bs (Suc j))"
      using i j by (auto simp: nth_remove_block prev_at_remove next_at_remove)
    then show ?thesis using old [of j] True j by simp
  next
    case False
    then have "?bs ! j = bs ! Suc j" "next_at ?bs (Suc j) = next_at bs (Suc (Suc j))"
      "prev_at ?bs j = (if j = i then prev_at bs i else prev_at bs (Suc j))"
      using i j by (auto simp: nth_remove_block prev_at_remove next_at_remove)
    then show ?thesis using old [of "Suc j"] False j by simp
  qed
qed

lemma heap_header_not_in_blocks:
  assumes "heap_inv s bs" and "k < length bs" and "in_header (fst (bs ! k)) x"
  shows "\<not> in_range (header s) 12 x"
proof
  note inv = heap_invD [OF assms(1)]
  assume "in_range (header s) 12 x"
  then have "unat x < unat (heap_start s)"
    using inv(1) unat_lt32 [of "heap_start s"] by (subst (asm) in_range_linear) auto
  then show False
    using layout_bounds(1) [OF inv(2) assms(2)] assms(3) by (subst (asm) in_header_linear) auto
qed

lemma linked_set_first:
  assumes "heap_inv s bs"
  shows "linked (mem (set_first_address p s)) bs"
  unfolding linked_def
proof (intro allI impI)
  fix k
  assume k: "k < length bs"
  have "mem (set_first_address p s) x = mem s x" if "in_header (fst (bs ! k)) x" for x
    using heap_header_not_in_blocks [OF assms k that] by (rule set_first_outside)
  from header_frame [of "fst (bs ! k)" "mem (set_first_address p s)" "mem s", OF this]
  show "block_size (mem (set_first_address p s)) (block_header (fst (bs ! k))) = snd (bs ! k) \<and>
    block_previous (mem (set_first_address p s)) (block_header (fst (bs ! k))) = prev_at bs k \<and>
    block_next (mem (set_first_address p s)) (block_header (fst (bs ! k))) = next_at bs (Suc k)"
    using linkedD [OF heap_invD(3) [OF assms] k] by simp
qed

lemma link_out_outside:
  assumes "\<And>k. k < length bs \<Longrightarrow> \<not> in_header (fst (bs ! k)) x" and "i < length bs"
  shows "link_out m bs i x = m x"
  using assms(1) [of "Suc i"] assms(1) [of "i - 1"] assms(2)
  by (auto simp: link_out_def Let_def store_field_outside in_header_def)

lemma link_out_heap_header:
  "heap_inv s bs \<Longrightarrow> i < length bs \<Longrightarrow> in_range (header s) 12 x \<Longrightarrow> link_out m bs i x = m x"
  using heap_header_not_in_blocks by (intro link_out_outside) blast+

lemma drop_block_inv:
  assumes "heap_inv s bs" and i: "i < length bs"
  shows "heap_inv (drop_block bs i s) (remove_block i bs)"
    and "\<not> meta (header s) bs x \<Longrightarrow> mem (drop_block bs i s) x = mem s x"
    and "\<exists>m. drop_block bs i s = s\<lparr>mem := m\<rparr>"
    and "heap_start (drop_block bs i s) = heap_start s" and "heap_end (drop_block bs i s) = heap_end s"
proof -
  note inv = heap_invD [OF assms(1)]
  define s1 where "s1 = (if i = 0 then set_first_address (next_at bs 1) s else s)"
  have s1: "header s1 = header s" "heap_start s1 = heap_start s" "heap_end s1 = heap_end s" "linked (mem s1) bs"
    "first_address s1 = (if i = 0 then next_at bs 1 else next_at bs 0)"
    using linked_set_first [OF assms(1)] inv(3,4) by (simp_all add: s1_def)
  have drop: "drop_block bs i s = s1\<lparr>mem := link_out (mem s1) bs i\<rparr>"
    by (simp add: drop_block_def s1_def Let_def)
  note frame = heap_header_frame [of s1 "link_out (mem s1) bs i", unfolded s1(1),
      OF link_out_heap_header [OF assms]]
  show "heap_start (drop_block bs i s) = heap_start s" "heap_end (drop_block bs i s) = heap_end s"
    using frame s1 by (simp_all add: drop)
  have "linked (link_out (mem s1) bs i) (remove_block i bs)"
    by (rule linked_remove [OF inv(2) s1(4) i])
  then show "heap_inv (drop_block bs i s) (remove_block i bs)"
    unfolding drop heap_inv_def using frame s1 inv(1,2) i
    by (simp add: layout_remove next_at_remove)
  show "mem (drop_block bs i s) x = mem s x" if "\<not> meta (header s) bs x"
  proof -
    have out: "\<not> in_range (header s) 12 x" "\<And>k. k < length bs \<Longrightarrow> \<not> in_header (fst (bs ! k)) x"
      using that by (auto simp: meta_def)
    then show ?thesis
      using link_out_outside [OF out(2) i] by (simp add: drop s1_def set_first_outside)
  qed
  show "\<exists>m. drop_block bs i s = s\<lparr>mem := m\<rparr>"
    by (auto simp: drop s1_def set_first_address_def)
qed

lemma unalloc_eq:
  assumes "heap_inv s bs" and i: "i < length bs"
  shows "unalloc (fst (bs ! i)) s = Inr ((), drop_block bs i s)"
proof -
  note inv = heap_invD [OF assms(1)]
  let ?h = "block_header (fst (bs ! i))"
  define s1 where "s1 = (if i = 0 then set_first_address (next_at bs 1) s else s)"
  have first: "fst (bs ! i) = first_address s \<longleftrightarrow> i = 0"
    using inv(4) layout_inj [OF inv(2) i, of 0] i by (auto simp: next_at_def)
  have s1: "header s1 = header s" "heap_start s1 = heap_start s" "heap_end s1 = heap_end s" "linked (mem s1) bs"
    using linked_set_first [OF assms(1)] inv(3,4) by (simp_all add: s1_def)
  have step1: "(if fst (bs ! i) = first_address s then set_first_address (block_next (mem s) ?h) s else s) = s1"
    using first linkedD(3) [OF inv(3) i] by (cases "i = 0") (simp_all add: s1_def)
  note f1 = linkedD [OF s1(4)]
  have gh: "get_header (fst (bs ! k)) t = Inr (block_header (fst (bs ! k)), t)"
    if "k < length bs" "heap_start t = heap_start s" "heap_end t = heap_end s" for k and t :: "'a heap_state_scheme"
    using block_in_heap [OF assms(1) that(1)] that by (simp add: get_header_def is_in_heap_def block_header_def)
  define m2 where "m2 = (if Suc i < length bs
      then store32 (mem s1) (block_header (fst (bs ! Suc i)) + 4) (prev_at bs i) else mem s1)"
  have m2: "block_previous m2 ?h = prev_at bs i" "block_next m2 ?h = next_at bs (Suc i)"
    using f1 [OF i] store_previous_at [OF inv(2) _ i, of "Suc i" "mem s1"] by (simp_all add: m2_def)
  have "m2 x = mem s1 x" if "in_range (header s1) 12 x" for x
    using heap_header_not_in_blocks [OF assms(1), of "Suc i" x] that
    by (auto simp: m2_def s1 in_header_def intro: store_field_outside)
  note frame = heap_header_frame [of s1 m2, OF this]
  have null: "next_at bs (Suc i) = nullptr \<longleftrightarrow> \<not> Suc i < length bs" "prev_at bs i = nullptr \<longleftrightarrow> i = 0"
    using next_at_null [OF assms(1)] prev_at_null [OF assms(1)] i by auto
  have step2: "(if block_next (mem s1) ?h \<noteq> nullptr then
       and_then (get_header (block_next (mem s1) ?h) s1) (\<lambda>h s.
         Inr ((), set_block_previous h (block_previous (mem s) ?h) s))
     else Inr ((), s1)) = Inr ((), s1\<lparr>mem := m2\<rparr>)"
    using null f1(2,3) [OF i] gh [of "Suc i" s1] s1
    by (auto simp: m2_def set_block_previous_def next_at_def)
  have "unalloc (fst (bs ! i)) s =
    (if i = 0 then Inr ((), s1\<lparr>mem := m2\<rparr>)
     else Inr ((), s1\<lparr>mem := store32 m2 (block_header (fst (bs ! (i - 1))) + 8) (next_at bs (Suc i))\<rparr>))"
    using null m2 gh [of "i - 1" "s1\<lparr>mem := m2\<rparr>"] i frame s1
    unfolding unalloc_def Let_def get_header_block [OF assms] and_then_Inr step1 step2
    by (auto simp: set_block_next_def prev_at_def)
  moreover have "drop_block bs i s = s1\<lparr>mem := link_out (mem s1) bs i\<rparr>"
    by (simp add: drop_block_def s1_def Let_def)
  moreover have "link_out (mem s1) bs i =
    (if i = 0 then m2 else store32 m2 (block_header (fst (bs ! (i - 1))) + 8) (next_at bs (Suc i)))"
    unfolding link_out_def Let_def m2_def ..
  ultimately show ?thesis by simp
qed

section \<open>What client code may rely on\<close>

text \<open>
  The bytes a client may hold data in: the payload of a live block, and everything outside the
  area between the heap header and the end of the heap.
\<close>

definition in_payload :: "blocks \<Rightarrow> addr \<Rightarrow> bool" where
  "in_payload bs x \<longleftrightarrow> (\<exists>b \<in> set bs. in_range (fst b) (unat (snd b)) x)"

definition in_heap_area :: "'a heap_state_scheme \<Rightarrow> addr \<Rightarrow> bool" where
  "in_heap_area s x \<longleftrightarrow> unat (header s) \<le> unat x \<and> unat x < unat (heap_end s)"

definition client_byte :: "'a heap_state_scheme \<Rightarrow> blocks \<Rightarrow> addr \<Rightarrow> bool" where
  "client_byte s bs x \<longleftrightarrow> in_payload bs x \<or> \<not> in_heap_area s x"

lemma in_payload_iff:
  "in_payload bs x \<longleftrightarrow> (\<exists>i < length bs. in_range (fst (bs ! i)) (unat (snd (bs ! i))) x)"
  unfolding in_payload_def by (metis in_set_conv_nth)

lemma payload_linear:
  fixes hi :: addr
  assumes "layout lo (unat hi) bs" and "i < length bs"
  shows "in_range (fst (bs ! i)) (unat (snd (bs ! i))) x \<longleftrightarrow>
    unat (fst (bs ! i)) \<le> unat x \<and> unat x < unat (fst (bs ! i)) + unat (snd (bs ! i))"
  using layout_bounds(2) [OF assms] unat_lt32 [of hi] by (intro in_range_linear) simp

lemma client_byte_not_meta:
  assumes "heap_inv s bs" and "client_byte s bs x"
  shows "\<not> meta (header s) bs x"
proof
  note inv = heap_invD [OF assms(1)]
  assume "meta (header s) bs x"
  then consider (head) "in_range (header s) 12 x" | (block) k where "k < length bs" "in_header (fst (bs ! k)) x"
    by (auto simp: meta_def in_set_conv_nth)
  then show False
  proof cases
    case head
    then have x: "unat (header s) \<le> unat x" "unat x < unat (heap_start s)"
      using inv(1) unat_lt32 [of "heap_start s"] by (simp_all add: in_range_linear)
    have "\<not> in_payload bs x"
      using x payload_linear [OF inv(2)] layout_bounds(1) [OF inv(2)]
      by (fastforce simp: in_payload_iff)
    moreover have "unat (heap_start s) + 12 \<le> unat (heap_end s)"
      using layout_length [OF inv(2)] layoutD [OF inv(2), of "length bs"] gap_begin_ge [OF inv(2), of "length bs"] by simp
    ultimately show False using assms(2) x by (simp add: client_byte_def in_heap_area_def)
  next
    case block
    note b = layout_bounds [OF inv(2) block(1)]
    have x: "unat (fst (bs ! k)) - 12 \<le> unat x" "unat x < unat (fst (bs ! k))"
      using block(2) b(1) in_header_linear [of "fst (bs ! k)" x] by auto
    have "\<not> in_range (fst (bs ! j)) (unat (snd (bs ! j))) x" if j: "j < length bs" for j
      using x b(1) layout_order [OF inv(2), of j k] layout_order [OF inv(2), of k j] j block(1)
        payload_linear [OF inv(2) j, of x]
      by (cases j k rule: linorder_cases) auto
    then have "\<not> in_payload bs x" by (auto simp: in_payload_iff)
    then show False using assms(2) x b inv(1) by (simp add: client_byte_def in_heap_area_def)
  qed
qed

lemma payload_not_client:
  assumes "heap_inv s bs" and "room_at (heap_start s) (heap_end s) bs i n"
    and "in_range (block_header p) (unat n + 12) x" and "p = gap_word (heap_start s) bs i + header_size"
  shows "\<not> client_byte s bs x"
proof -
  note inv = heap_invD [OF assms(1)] and room = room_facts [OF heap_invD(2) [OF assms(1)] assms(2) refl]
  let ?g = "gap_word (heap_start s) bs i"
  have i: "i \<le> length bs" using assms(2) by (simp add: room_at_def)
  have lim: "unat ?g + unat n + 24 \<le> gap_limit (unat (heap_end s)) bs i"
    using assms(2) unfolding room(1) room_at_def by simp
  have fin: "gap_limit (unat (heap_end s)) bs i \<le> unat (heap_end s)"
    by (rule gap_limit_le [OF inv(2)])
  have x: "unat ?g \<le> unat x" "unat x < unat ?g + unat n + 12"
    using assms(3,4) lim fin unat_lt32 [of "heap_end s"] by (simp_all add: in_range_linear)
  have "\<not> in_range (fst (bs ! k)) (unat (snd (bs ! k))) x" if k: "k < length bs" for k
    using gap_before_block [OF inv(2) _ k, of i] block_before_gap [OF inv(2) _ i, of k] x lim room(1)
      payload_linear [OF inv(2) k, of x] by (cases "k < i") auto
  then have "\<not> in_payload bs x" by (auto simp: in_payload_iff)
  moreover have "in_heap_area s x"
    using x lim fin room(1) gap_begin_ge [OF inv(2) i] inv(1) by (simp add: in_heap_area_def)
  ultimately show ?thesis by (simp add: client_byte_def)
qed

definition room_for :: "'a heap_state_scheme \<Rightarrow> blocks \<Rightarrow> u_dword \<Rightarrow> bool" where
  "room_for s bs n \<longleftrightarrow> (\<exists>i \<le> length bs. room_at (heap_start s) (heap_end s) bs i n)"

text \<open>
  A budget: some gap can take \<open>N\<close> bytes of headers and payloads. A request spends its size and
  a header, wherever it is placed; a release never lowers the budget.
\<close>

definition spare :: "'a heap_state_scheme \<Rightarrow> blocks \<Rightarrow> nat \<Rightarrow> bool" where
  "spare s bs N \<longleftrightarrow> (\<exists>i \<le> length bs.
     gap_begin (unat (heap_start s)) bs i + N + 12 \<le> gap_limit (unat (heap_end s)) bs i)"

lemma room_for_spare: "room_for s bs n \<longleftrightarrow> spare s bs (unat n + 12)"
  by (auto simp: room_for_def room_at_def spare_def)

lemma spare_mono: "spare s bs N \<Longrightarrow> M \<le> N \<Longrightarrow> spare s bs M"
  unfolding spare_def by fastforce

lemma spare_insert:
  assumes "spare s bs N" and i: "i \<le> length bs" and "heap_start s' = heap_start s" and "heap_end s' = heap_end s"
    and p: "unat p = gap_begin (unat (heap_start s)) bs i + 12" and le: "unat n + 12 \<le> N"
  shows "spare s' (insert_block i (p, n) bs) (N - (unat n + 12))"
proof -
  let ?lo = "unat (heap_start s)" and ?hi = "unat (heap_end s)" and ?bs = "insert_block i (p, n) bs"
  from assms(1) obtain j where j: "j \<le> length bs" "gap_begin ?lo bs j + N + 12 \<le> gap_limit ?hi bs j"
    by (auto simp: spare_def)
  define k where "k = (if j < i then j else Suc j)"
  have "gap_begin ?lo ?bs k + (N - (unat n + 12)) + 12 \<le> gap_limit ?hi ?bs k"
    using i j p le by (cases i j rule: linorder_cases) (auto simp: k_def gap_begin_insert gap_limit_insert simp del: gap_begin_Suc)
  moreover have "k \<le> length ?bs" using i j by (simp add: k_def length_insert_block)
  ultimately show ?thesis unfolding spare_def assms(3,4) by blast
qed

lemma spare_remove:
  assumes "heap_inv s bs" and "spare s bs N" and i: "i < length bs"
    and "heap_start s' = heap_start s" and "heap_end s' = heap_end s"
  shows "spare s' (remove_block i bs) N"
proof -
  let ?lo = "unat (heap_start s)" and ?hi = "unat (heap_end s)" and ?bs = "remove_block i bs"
  from assms(2) obtain j where j: "j \<le> length bs" "gap_begin ?lo bs j + N + 12 \<le> gap_limit ?hi bs j"
    by (auto simp: spare_def)
  note lay = layoutD [OF heap_invD(2) [OF assms(1)]]
  have up: "gap_begin ?lo bs i \<le> gap_begin ?lo bs (Suc i)" "gap_limit ?hi bs i \<le> gap_limit ?hi bs (Suc i)"
    using lay [of i] lay [of "Suc i"] i by simp_all
  define k where "k = (if j \<le> i then j else j - 1)"
  have "gap_begin ?lo ?bs k + N + 12 \<le> gap_limit ?hi ?bs k"
  proof (cases "j \<le> i")
    case True
    then show ?thesis using j i up
      by (cases "j = i") (simp_all add: k_def gap_begin_remove gap_limit_remove del: gap_begin_Suc gap_limit_less)
  next
    case False
    then obtain l where "j = Suc l" "i \<le> l" by (cases j) auto
    then show ?thesis using j i up
      by (cases "l = i") (simp_all add: k_def gap_begin_remove gap_limit_remove del: gap_begin_Suc gap_limit_less)
  qed
  moreover have "k \<le> length ?bs" using i j by (auto simp: k_def length_remove_block)
  ultimately show ?thesis unfolding spare_def assms(4,5) by blast
qed

lemma room_for_small:
  assumes "heap_inv s bs" and "room_for s bs n"
  shows "unat n + 24 < 4294967296"
proof -
  from assms(2) obtain i where "room_at (heap_start s) (heap_end s) bs i n"
    by (auto simp: room_for_def)
  then show ?thesis
    using gap_limit_le [OF heap_invD(2) [OF assms(1)], of i] unat_lt32 [of "heap_end s"]
    by (simp add: room_at_def)
qed

lemma payloads_disjoint:
  assumes "heap_inv s bs" and "i < length bs" and "j < length bs" and "i \<noteq> j"
    and "in_range (fst (bs ! i)) (unat (snd (bs ! i))) x"
  shows "\<not> in_range (fst (bs ! j)) (unat (snd (bs ! j))) x"
  using payload_linear [OF heap_invD(2) [OF assms(1)]] assms(2-)
    layout_order [OF heap_invD(2) [OF assms(1)], of i j] layout_order [OF heap_invD(2) [OF assms(1)], of j i]
  by (cases i j rule: linorder_cases) auto

lemma payload_in_area:
  assumes "heap_inv s bs" and "i < length bs" and "in_range (fst (bs ! i)) (unat (snd (bs ! i))) x"
  shows "in_heap_area s x"
  using payload_linear [OF heap_invD(2) [OF assms(1)] assms(2)] assms(3) heap_invD(1) [OF assms(1)]
    layout_bounds [OF heap_invD(2) [OF assms(1)] assms(2)] by (simp add: in_heap_area_def)

lemma in_payload_remove:
  assumes "heap_inv s bs" and "i < length bs"
  shows "in_payload (remove_block i bs) x \<longleftrightarrow>
    in_payload bs x \<and> \<not> in_range (fst (bs ! i)) (unat (snd (bs ! i))) x"
proof -
  have "length (remove_block i bs) = length bs - 1" using assms(2) by (rule length_remove_block)
  then have "\<exists>k < length bs. k \<noteq> i \<and> remove_block i bs ! j = bs ! k" if "j < length (remove_block i bs)" for j
    using that assms(2) nth_remove_block [OF assms(2), of j]
    by (intro exI [of _ "if j < i then j else Suc j"]) auto
  then have "in_payload bs x \<and> \<not> in_range (fst (bs ! i)) (unat (snd (bs ! i))) x" if "in_payload (remove_block i bs) x"
    using that payloads_disjoint [OF assms(1) _ assms(2)] unfolding in_payload_iff by metis
  moreover have "insert (bs ! i) (set (remove_block i bs)) = set bs"
    using set_insert_block [of i "remove_block i bs" "bs ! i"] insert_remove_block [OF assms(2)]
      length_remove_block [OF assms(2)] assms(2) by simp
  ultimately show ?thesis unfolding in_payload_def by (metis insert_iff)
qed

text \<open>The contract of \<^verbatim>\<open>ralloc\<close> as its callers use it.\<close>

lemma ralloc_contract:
  assumes "heap_inv s bs" and "room_for s bs n"
  obtains i p s' where "ralloc n s = Inr (p, s')" and "heap_inv s' (insert_block i (p, n) bs)"
    and "i \<le> length bs" and "p \<noteq> nullptr" and "\<exists>m. s' = s\<lparr>mem := m\<rparr>"
    and "heap_start s' = heap_start s" and "heap_end s' = heap_end s"
    and "\<And>x. client_byte s bs x \<Longrightarrow> mem s' x = mem s x"
    and "\<And>x. in_range p (unat n) x \<Longrightarrow> \<not> client_byte s bs x"
    and "\<And>x. client_byte s' (insert_block i (p, n) bs) x \<longleftrightarrow> client_byte s bs x \<or> in_range p (unat n) x"
    and "unat p + unat n + 12 \<le> unat (heap_end s)"
    and "unat p = gap_begin (unat (heap_start s)) bs i + 12"
proof -
  from assms(2) obtain j where "room_at (heap_start s) (heap_end s) bs j n"
    by (auto simp: room_for_def)
  from ralloc_room [OF assms(1) _ this] room_for_small [OF assms]
  obtain i where room: "room_at (heap_start s) (heap_end s) bs i n"
    and eq: "ralloc n s = Inr (gap_word (heap_start s) bs i + header_size, place_block n bs i s)"
    by fastforce
  define p where "p = gap_word (heap_start s) bs i + header_size"
  note inv = place_block_inv [OF assms(1) room, folded p_def]
  have i: "i \<le> length bs" using room by (simp add: room_at_def)
  have bound: "unat p + unat n + 12 \<le> unat (heap_end s)"
    using room_facts(1,2) [OF heap_invD(2) [OF assms(1)] room refl] room
      gap_limit_le [OF heap_invD(2) [OF assms(1)], of i] by (simp add: room_at_def p_def)
  have split: "in_range (block_header p) (unat n + 12) x \<longleftrightarrow> in_header p x \<or> in_range p (unat n) x" for x
    using in_range_append [of 12 "unat n" "block_header p" x] room_for_small [OF assms]
    by (simp add: in_header_def block_header_def add.commute)
  have new: "\<not> client_byte s bs x" if "in_header p x \<or> in_range p (unat n) x" for x
    using payload_not_client [OF assms(1) room _ p_def] that split by blast
  have keep: "mem (place_block n bs i s) x = mem s x" if "client_byte s bs x" for x
  proof (rule inv(2))
    show "\<not> meta (header s) (insert_block i (p, n) bs) x"
      using client_byte_not_meta [OF assms(1) that] new [of x] that i
      by (auto simp: meta_def set_insert_block)
  qed
  have area: "in_heap_area (place_block n bs i s) x = in_heap_area s x" for x
    using inv(3,5) by (auto simp: in_heap_area_def)
  show thesis
  proof (rule that [OF eq [folded p_def] inv(1) i _ inv(3-5) keep new [OF disjI2] _ bound])
    show "p \<noteq> nullptr" using allocate_in_gap(3) [OF assms(1) room] by (simp add: p_def)
    show "client_byte (place_block n bs i s) (insert_block i (p, n) bs) x \<longleftrightarrow> client_byte s bs x \<or> in_range p (unat n) x" for x
      using i by (auto simp: client_byte_def area in_payload_def set_insert_block)
    show "unat p = gap_begin (unat (heap_start s)) bs i + 12"
      using room_facts(1,2) [OF heap_invD(2) [OF assms(1)] room refl] by (simp add: p_def)
  qed simp_all
qed

lemma unalloc_contract:
  assumes "heap_inv s bs" and "(p, n) \<in> set bs"
  obtains i s' where "unalloc p s = Inr ((), s')" and "i < length bs" and "bs ! i = (p, n)"
    and "heap_inv s' (remove_block i bs)" and "\<exists>m. s' = s\<lparr>mem := m\<rparr>"
    and "heap_start s' = heap_start s" and "heap_end s' = heap_end s"
    and "\<And>x. client_byte s bs x \<Longrightarrow> mem s' x = mem s x"
    and "\<And>x. client_byte s' (remove_block i bs) x \<longleftrightarrow> client_byte s bs x \<and> \<not> in_range p (unat n) x"
proof -
  from assms(2) obtain i where i: "i < length bs" "bs ! i = (p, n)"
    by (auto simp: in_set_conv_nth)
  note inv = drop_block_inv [OF assms(1) i(1)]
  show thesis
  proof (rule that [OF _ i inv(1,3,4,5)])
    show "unalloc p s = Inr ((), drop_block bs i s)"
      using unalloc_eq [OF assms(1) i(1)] i(2) by simp
    show "mem (drop_block bs i s) x = mem s x" if "client_byte s bs x" for x
      using client_byte_not_meta [OF assms(1) that] by (rule inv(2))
    show "client_byte (drop_block bs i s) (remove_block i bs) x \<longleftrightarrow> client_byte s bs x \<and> \<not> in_range p (unat n) x" for x
      using in_payload_remove [OF assms(1) i(1), of x] payload_in_area [OF assms(1) i(1), of x] inv(3,5) i(2)
      by (auto simp: client_byte_def in_heap_area_def)
  qed
qed

lemma client_write:
  assumes "heap_inv s bs" and "\<And>x. \<not> client_byte s bs x \<Longrightarrow> m x = mem s x"
  shows "heap_inv (s\<lparr>mem := m\<rparr>) bs" and "client_byte (s\<lparr>mem := m\<rparr>) bs x \<longleftrightarrow> client_byte s bs x"
    and "heap_start (s\<lparr>mem := m\<rparr>) = heap_start s" and "heap_end (s\<lparr>mem := m\<rparr>) = heap_end s"
    and "spare (s\<lparr>mem := m\<rparr>) bs N \<longleftrightarrow> spare s bs N"
proof -
  have meta: "m x = mem s x" if "meta (header s) bs x" for x
    using that client_byte_not_meta [OF assms(1)] assms(2) by blast
  then show "heap_inv (s\<lparr>mem := m\<rparr>) bs" by (rule heap_inv_cong [OF assms(1)])
  have "in_range (header s) 12 x \<Longrightarrow> m x = mem s x" for x
    using meta by (simp add: meta_def)
  then show "heap_start (s\<lparr>mem := m\<rparr>) = heap_start s" "heap_end (s\<lparr>mem := m\<rparr>) = heap_end s"
    using heap_header_frame(2,3) [of s m] by blast+
  then show "client_byte (s\<lparr>mem := m\<rparr>) bs x \<longleftrightarrow> client_byte s bs x"
    and "spare (s\<lparr>mem := m\<rparr>) bs N \<longleftrightarrow> spare s bs N"
    by (simp_all add: client_byte_def in_heap_area_def spare_def)
qed

section \<open>The allocator as an interface\<close>

text \<open>
  What client code needs of an allocator, whatever its data structure: an allocation that fits
  returns fresh bytes and leaves every byte the client holds as it is, a release gives back
  exactly the bytes of the block, and writing to bytes the client holds does no harm.
\<close>

locale allocator =
  fixes wf :: "'s \<Rightarrow> blocks \<Rightarrow> bool"
    and client :: "'s \<Rightarrow> blocks \<Rightarrow> addr \<Rightarrow> bool"
    and budget :: "'s \<Rightarrow> blocks \<Rightarrow> nat \<Rightarrow> bool"
    and byte_at :: "'s \<Rightarrow> addr \<Rightarrow> u_byte"
    and with_bytes :: "memory \<Rightarrow> 's \<Rightarrow> 's"
    and alloc :: "u_dword \<Rightarrow> 's \<Rightarrow> ('s, addr) result"
    and release :: "addr \<Rightarrow> 's \<Rightarrow> ('s, unit) result"
  assumes alloc_law: "wf s bs \<Longrightarrow> budget s bs N \<Longrightarrow> unat n + 12 \<le> N \<Longrightarrow>
      \<exists>p s' bs'. alloc n s = Inr (p, s') \<and> wf s' bs' \<and> budget s' bs' (N - (unat n + 12)) \<and>
      mset bs' = add_mset (p, n) (mset bs) \<and> p \<noteq> nullptr \<and> unat p + unat n < 4294967296 \<and>
      (\<exists>m. s' = with_bytes m s) \<and> (\<forall>x. client s bs x \<longrightarrow> byte_at s' x = byte_at s x) \<and>
      (\<forall>x. in_range p (unat n) x \<longrightarrow> \<not> client s bs x) \<and>
      (\<forall>x. client s' bs' x \<longleftrightarrow> client s bs x \<or> in_range p (unat n) x)"
    and release_law: "wf s bs \<Longrightarrow> (p, n) \<in> set bs \<Longrightarrow>
      \<exists>s' bs'. release p s = Inr ((), s') \<and> wf s' bs' \<and> (\<forall>N. budget s bs N \<longrightarrow> budget s' bs' N) \<and>
      mset bs = add_mset (p, n) (mset bs') \<and> (\<exists>m. s' = with_bytes m s) \<and>
      (\<forall>x. client s bs x \<longrightarrow> byte_at s' x = byte_at s x) \<and>
      (\<forall>x. client s' bs' x \<longleftrightarrow> client s bs x \<and> \<not> in_range p (unat n) x)"
    and write_law: "wf s bs \<Longrightarrow> \<forall>x. \<not> client s bs x \<longrightarrow> m x = byte_at s x \<Longrightarrow>
      wf (with_bytes m s) bs \<and> byte_at (with_bytes m s) = m \<and>
      (\<forall>N. budget (with_bytes m s) bs N \<longleftrightarrow> budget s bs N) \<and>
      (\<forall>x. client (with_bytes m s) bs x \<longleftrightarrow> client s bs x)"
begin

lemma alloc_release:
  assumes "wf s bs" and "budget s bs N" and "unat n + 12 \<le> N"
  shows "\<exists>p s1 s2 bs2. alloc n s = Inr (p, s1) \<and> release p s1 = Inr ((), s2) \<and> wf s2 bs2 \<and>
    mset bs2 = mset bs \<and> (\<forall>x. client s2 bs2 x \<longleftrightarrow> client s bs x) \<and>
    (\<forall>x. client s bs x \<longrightarrow> byte_at s2 x = byte_at s x)"
proof -
  from alloc_law [OF assms] obtain p s1 bs1 where a: "alloc n s = Inr (p, s1)" "wf s1 bs1"
    "mset bs1 = add_mset (p, n) (mset bs)" "\<And>x. client s bs x \<Longrightarrow> byte_at s1 x = byte_at s x"
    "\<And>x. in_range p (unat n) x \<Longrightarrow> \<not> client s bs x"
    "\<And>x. client s1 bs1 x \<longleftrightarrow> client s bs x \<or> in_range p (unat n) x"
    by blast
  have "(p, n) \<in> set bs1" using a(3) by (metis set_mset_mset union_single_eq_member)
  from release_law [OF a(2) this] obtain s2 bs2 where r: "release p s1 = Inr ((), s2)" "wf s2 bs2"
    "mset bs1 = add_mset (p, n) (mset bs2)" "\<And>x. client s1 bs1 x \<Longrightarrow> byte_at s2 x = byte_at s1 x"
    "\<And>x. client s2 bs2 x \<longleftrightarrow> client s1 bs1 x \<and> \<not> in_range p (unat n) x"
    by blast
  have "mset bs2 = mset bs" using a(3) r(3) by simp
  moreover have "client s2 bs2 x \<longleftrightarrow> client s bs x" for x using a(5,6) r(5) by blast
  moreover have "byte_at s2 x = byte_at s x" if "client s bs x" for x
    using a(4,6) r(4) that by simp
  ultimately show ?thesis using a(1) r(1,2) by blast
qed

text \<open>Data written to a fresh block are still there after the next allocation.\<close>

lemma data_survives_allocation:
  assumes "wf s bs" and "budget s bs N" and "unat n + 12 + (unat k + 12) \<le> N"
  shows "\<exists>p s1. alloc n s = Inr (p, s1) \<and>
    (\<forall>m. (\<forall>x. \<not> in_range p (unat n) x \<longrightarrow> m x = byte_at s1 x) \<longrightarrow>
      (\<exists>q s2. alloc k (with_bytes m s1) = Inr (q, s2) \<and> disjoint_ranges p (unat n) q (unat k) \<and>
        (\<forall>x. in_range p (unat n) x \<longrightarrow> byte_at s2 x = m x)))"
proof -
  from alloc_law [OF assms(1,2), of n] assms(3) obtain p s1 bs1 where a: "alloc n s = Inr (p, s1)" "wf s1 bs1"
    "budget s1 bs1 (N - (unat n + 12))" "\<And>x. client s1 bs1 x \<longleftrightarrow> client s bs x \<or> in_range p (unat n) x" by auto
  have "\<exists>q s2. alloc k (with_bytes m s1) = Inr (q, s2) \<and> disjoint_ranges p (unat n) q (unat k) \<and>
      (\<forall>x. in_range p (unat n) x \<longrightarrow> byte_at s2 x = m x)"
    if "\<forall>x. \<not> in_range p (unat n) x \<longrightarrow> m x = byte_at s1 x" for m
  proof -
    from write_law [OF a(2), of m] that a(4)
    have w: "wf (with_bytes m s1) bs1" "byte_at (with_bytes m s1) = m"
      "budget (with_bytes m s1) bs1 (N - (unat n + 12))"
      "\<And>x. client (with_bytes m s1) bs1 x \<longleftrightarrow> client s1 bs1 x" using a(3) by blast+
    have "unat k + 12 \<le> N - (unat n + 12)" using assms(3) by simp
    from alloc_law [OF w(1,3) this] obtain q s2 where q: "alloc k (with_bytes m s1) = Inr (q, s2)"
      "\<And>x. client (with_bytes m s1) bs1 x \<Longrightarrow> byte_at s2 x = byte_at (with_bytes m s1) x"
      "\<And>x. in_range q (unat k) x \<Longrightarrow> \<not> client (with_bytes m s1) bs1 x" by blast
    show ?thesis
      using q w(2,4) a(4) by (intro exI [of _ q] exI [of _ s2]) (auto simp: disjoint_ranges_def)
  qed
  then show ?thesis using a(1) by blast
qed

end

lemma mset_insert_block: "mset (insert_block i b bs) = add_mset b (mset bs)"
proof -
  have "mset bs = mset (take i bs) + mset (drop i bs)"
    by (metis append_take_drop_id mset_append)
  then show ?thesis by (simp add: insert_block_def)
qed

lemma mset_remove_block: "i < length bs \<Longrightarrow> add_mset (bs ! i) (mset (remove_block i bs)) = mset bs"
  by (metis mset_insert_block insert_remove_block)

interpretation heap: allocator heap_inv client_byte spare mem "\<lambda>m s. s\<lparr>mem := m\<rparr>" ralloc unalloc
proof unfold_locales
  fix s :: "'a heap_state_scheme" and bs N and n :: u_dword
  assume inv: "heap_inv s bs" and N: "spare s bs N" "unat n + 12 \<le> N"
  then have "room_for s bs n" using spare_mono by (auto simp: room_for_spare)
  with inv show "\<exists>p s' bs'. ralloc n s = Inr (p, s') \<and> heap_inv s' bs' \<and> spare s' bs' (N - (unat n + 12)) \<and>
      mset bs' = add_mset (p, n) (mset bs) \<and> p \<noteq> nullptr \<and> unat p + unat n < 4294967296 \<and>
      (\<exists>m. s' = s\<lparr>mem := m\<rparr>) \<and> (\<forall>x. client_byte s bs x \<longrightarrow> mem s' x = mem s x) \<and>
      (\<forall>x. in_range p (unat n) x \<longrightarrow> \<not> client_byte s bs x) \<and>
      (\<forall>x. client_byte s' bs' x \<longleftrightarrow> client_byte s bs x \<or> in_range p (unat n) x)"
  proof (rule ralloc_contract)
    fix i p s'
    assume a: "ralloc n s = Inr (p, s')" "heap_inv s' (insert_block i (p, n) bs)" "p \<noteq> nullptr"
      "\<And>x. client_byte s bs x \<Longrightarrow> mem s' x = mem s x" "\<exists>m. s' = s\<lparr>mem := m\<rparr>"
      "\<And>x. in_range p (unat n) x \<Longrightarrow> \<not> client_byte s bs x"
      "\<And>x. client_byte s' (insert_block i (p, n) bs) x \<longleftrightarrow> client_byte s bs x \<or> in_range p (unat n) x"
      and i: "i \<le> length bs" "heap_start s' = heap_start s" "heap_end s' = heap_end s"
        "unat p = gap_begin (unat (heap_start s)) bs i + 12" and le: "unat p + unat n + 12 \<le> unat (heap_end s)"
    have "unat p + unat n < 4294967296" using le unat_lt32 [of "heap_end s"] by linarith
    then show ?thesis
      using a spare_insert [OF N(1) i N(2)]
      by (intro exI [of _ p] exI [of _ s'] exI [of _ "insert_block i (p, n) bs"]) (simp add: mset_insert_block)
  qed
next
  fix s :: "'a heap_state_scheme" and bs p and n :: u_dword
  assume inv: "heap_inv s bs" and live: "(p, n) \<in> set bs"
  then show "\<exists>s' bs'. unalloc p s = Inr ((), s') \<and> heap_inv s' bs' \<and> (\<forall>N. spare s bs N \<longrightarrow> spare s' bs' N) \<and>
      mset bs = add_mset (p, n) (mset bs') \<and> (\<exists>m. s' = s\<lparr>mem := m\<rparr>) \<and>
      (\<forall>x. client_byte s bs x \<longrightarrow> mem s' x = mem s x) \<and>
      (\<forall>x. client_byte s' bs' x \<longleftrightarrow> client_byte s bs x \<and> \<not> in_range p (unat n) x)"
  proof (rule unalloc_contract)
    fix i s'
    assume i: "i < length bs" "bs ! i = (p, n)"
      and a: "unalloc p s = Inr ((), s')" "heap_inv s' (remove_block i bs)" "\<exists>m. s' = s\<lparr>mem := m\<rparr>"
      "\<And>x. client_byte s bs x \<Longrightarrow> mem s' x = mem s x"
      "\<And>x. client_byte s' (remove_block i bs) x \<longleftrightarrow> client_byte s bs x \<and> \<not> in_range p (unat n) x"
      and ends: "heap_start s' = heap_start s" "heap_end s' = heap_end s"
    moreover have "mset bs = add_mset (p, n) (mset (remove_block i bs))"
      using mset_remove_block [OF i(1)] i(2) by simp
    ultimately show ?thesis
      using spare_remove [OF inv _ i(1) ends]
      by (intro exI [of _ s'] exI [of _ "remove_block i bs"]) simp
  qed
next
  fix s :: "'a heap_state_scheme" and bs m
  assume "heap_inv s bs" "\<forall>x. \<not> client_byte s bs x \<longrightarrow> m x = mem s x"
  then show "heap_inv (s\<lparr>mem := m\<rparr>) bs \<and> mem (s\<lparr>mem := m\<rparr>) = m \<and>
      (\<forall>N. spare (s\<lparr>mem := m\<rparr>) bs N \<longleftrightarrow> spare s bs N) \<and>
      (\<forall>x. client_byte (s\<lparr>mem := m\<rparr>) bs x \<longleftrightarrow> client_byte s bs x)"
    using client_write [of s bs m] by simp
qed

lemmas heap_alloc_law = heap.alloc_law [OF _ room_for_spare [THEN iffD1] order_refl]

end
