(* ===== verification/HeapProps.thy ===== *)
theory HeapProps
  imports HeapOps
begin

text \<open>
  Zeroed allocation, resizing, the size and occupation queries, the run of a heap from its
  initialisation, and the properties of \<^verbatim>\<open>lib/base/heap.c\<close>.
\<close>

section \<open>Queries\<close>

lemma occupation_walk_eq:
  assumes "heap_inv s bs" and "j \<le> length bs" and "length bs - j \<le> fuel"
  shows "occupation_walk fuel (next_at bs j) acc num s = Inr (num + of_nat (length bs - j), s)"
  using assms(2,3)
proof (induction fuel arbitrary: j acc num)
  case 0
  then show ?case by (simp add: next_at_def)
next
  case (Suc fuel)
  show ?case
  proof (cases "j < length bs")
    case True
    have "next_at bs j = fst (bs ! j)" "fst (bs ! j) \<noteq> nullptr"
      using True block_not_null [OF assms(1)] by (simp_all add: next_at_def)
    moreover have "length bs - j = Suc (length bs - Suc j)" using True by simp
    ultimately show ?thesis
      using Suc.IH [of "Suc j" "acc + snd (bs ! j)" "num + 1"] Suc.prems(2) True
        linkedD [OF heap_invD(3) [OF assms(1)] True]
      by (simp add: get_header_block [OF assms(1) True] algebra_simps)
  next
    case False
    then show ?thesis using Suc.prems by (simp add: next_at_def)
  qed
qed

lemma length_blocks: "heap_inv s bs \<Longrightarrow> length bs < 4294967296"
  using layout_length [OF heap_invD(2), of s bs] unat_lt32 [of "heap_end s"] by linarith

lemma size_bytes_eq:
  "heap_inv s bs \<Longrightarrow> i < length bs \<Longrightarrow> size_bytes (fst (bs ! i)) s = Inr (snd (bs ! i), s)"
  using linkedD(1) [OF heap_invD(3)] by (simp add: size_bytes_def get_header_block)

section \<open>Resizing in place\<close>

lemma layout_resize:
  assumes "layout lo hi bs" and "i < length bs"
    and "unat (fst (bs ! i)) + unat n + 12 \<le> gap_limit hi bs (Suc i)"
  shows "layout lo hi (bs[i := (fst (bs ! i), n)])"
  unfolding layout_def
proof (intro allI impI)
  let ?bs = "bs[i := (fst (bs ! i), n)]"
  fix j
  assume j: "j \<le> length ?bs"
  have "gap_limit hi ?bs j = gap_limit hi bs j"
    using assms(2) by (auto simp: gap_limit_def nth_list_update)
  moreover have "gap_begin lo ?bs j = (if j = Suc i then unat (fst (bs ! i)) + unat n else gap_begin lo bs j)"
    using assms(2) j by (cases j) (auto simp: nth_list_update)
  ultimately show "gap_begin lo ?bs j + 12 \<le> gap_limit hi ?bs j"
    using assms(3) layoutD [OF assms(1), of j] j by simp
qed

lemma nth_resize:
  assumes "k < length bs"
  shows "fst (bs[i := (fst (bs ! i), n)] ! k) = fst (bs ! k)"
    and "snd (bs[i := (fst (bs ! i), n)] ! k) = (if k = i then n else snd (bs ! k))"
  using assms by (cases "i = k"; simp)+

lemma neighbours_resize:
  "next_at (bs[i := (fst (bs ! i), n)]) j = next_at bs j"
  "j \<le> length bs \<Longrightarrow> prev_at (bs[i := (fst (bs ! i), n)]) j = prev_at bs j"
  by (auto simp: next_at_def prev_at_def nth_resize)

lemma resize_inv:
  assumes "heap_inv s bs" and i: "i < length bs"
    and "unat (fst (bs ! i)) + unat n + 12 \<le> gap_limit (unat (heap_end s)) bs (Suc i)"
  defines "s' \<equiv> set_block_size (block_header (fst (bs ! i))) n s"
  shows "heap_inv s' (bs[i := (fst (bs ! i), n)])"
    and "client_byte s bs x \<Longrightarrow> mem s' x = mem s x"
proof -
  note inv = heap_invD [OF assms(1)]
  have out: "mem s' x = mem s x" if "\<not> in_header (fst (bs ! i)) x" for x
    using that by (simp add: s'_def set_block_size_def in_header_def store_field_outside)
  then show "client_byte s bs x \<Longrightarrow> mem s' x = mem s x"
    using client_byte_not_meta [OF assms(1)] nth_mem [OF i] unfolding meta_def by blast
  have s': "s' = s\<lparr>mem := mem s'\<rparr>" by (simp add: s'_def set_block_size_def)
  have "mem s' x = mem s x" if "in_range (header s) 12 x" for x
    using heap_header_not_in_blocks [OF assms(1) i] that out by blast
  note frame = heap_header_frame [OF this, folded s']
  have "block_size (mem s') (block_header (fst (bs ! k))) = (if k = i then n else snd (bs ! k)) \<and>
      block_previous (mem s') (block_header (fst (bs ! k))) = prev_at bs k \<and>
      block_next (mem s') (block_header (fst (bs ! k))) = next_at bs (Suc k)" if k: "k < length bs" for k
  proof (cases "k = i")
    case True
    then show ?thesis
      using linkedD [OF inv(3) i] by (simp add: s'_def set_block_size_def frame_simps)
  next
    case False
    have "mem s' x = mem s x" if "in_header (fst (bs ! k)) x" for x
      using headers_disjoint [OF inv(2) k i False that] by (rule out)
    from header_frame [OF this] show ?thesis using linkedD [OF inv(3) k] False by simp
  qed
  then have "linked (mem s') (bs[i := (fst (bs ! i), n)])"
    by (simp add: linked_def neighbours_resize nth_resize)
  then show "heap_inv s' (bs[i := (fst (bs ! i), n)])"
    unfolding heap_inv_def using layout_resize [OF inv(2) i assms(3)] inv(1,4) frame
    by (simp add: neighbours_resize s'_def set_block_size_def)
qed

text \<open>The comparison \<^verbatim>\<open>new_size < block->next - structure\<close> read on the block list.\<close>

lemma challoc_eq:
  assumes "heap_inv s bs" and i: "i < length bs"
  shows "challoc (fst (bs ! i)) n s =
    (if n = snd (bs ! i) then Inr (fst (bs ! i), s)
     else if n < snd (bs ! i) \<or> n < next_at bs (Suc i) - fst (bs ! i)
     then Inr (fst (bs ! i), set_block_size (block_header (fst (bs ! i))) n s)
     else and_then (ralloc n s) (\<lambda>q s'. and_then
       (unalloc (fst (bs ! i))
         (s'\<lparr>mem := memory_copy (fst (bs ! i)) q (block_size (mem s') (block_header (fst (bs ! i)))) (mem s')\<rparr>))
       (\<lambda>_ s''. Inr (q, s''))))"
  using linkedD [OF heap_invD(3) [OF assms(1)] i]
  by (auto simp: challoc_def get_header_block [OF assms] Let_def)

lemma copy_between_blocks:
  assumes "\<And>x. in_range q n x \<Longrightarrow> \<not> in_range p (unat k) x" and "unat k \<le> n"
  shows "memory_copy p q k m x = (if in_range q (unat k) x then m (p + (x - q)) else m x)"
proof (rule memory_copy_apply, cases "0 < unat k")
  case True
  have "disjoint_ranges p (unat k) q (unat k)"
    using assms by (auto simp: disjoint_ranges_def in_range_def)
  from disjoint_ranges_distance [OF this True]
  show "q = p \<or> unat k \<le> unat (q - p)" by simp
qed simp

lemma challoc_move:
  assumes "heap_inv s bs" and i: "i < length bs" and grow: "snd (bs ! i) < n"
    and no_gap: "next_at bs (Suc i) - fst (bs ! i) \<le> n" and room: "room_for s bs n"
  shows "\<exists>q s' bs'. challoc (fst (bs ! i)) n s = Inr (q, s') \<and> heap_inv s' bs' \<and>
    add_mset (bs ! i) (mset bs') = add_mset (q, n) (mset bs) \<and>
    (\<forall>j < unat (snd (bs ! i)). mem s' (q + of_nat j) = mem s (fst (bs ! i) + of_nat j)) \<and>
    (\<forall>x. client_byte s bs x \<longrightarrow> mem s' x = mem s x)"
  using assms(1) room
proof (rule ralloc_contract)
  let ?p = "fst (bs ! i)" and ?k = "snd (bs ! i)"
  fix l q s1
  let ?bs1 = "insert_block l (q, n) bs"
  assume a: "ralloc n s = Inr (q, s1)" and inv1: "heap_inv s1 ?bs1" and l: "l \<le> length bs"
    and keep1: "\<And>x. client_byte s bs x \<Longrightarrow> mem s1 x = mem s x"
    and fresh: "\<And>x. in_range q (unat n) x \<Longrightarrow> \<not> client_byte s bs x"
    and cl1: "\<And>x. client_byte s1 ?bs1 x \<longleftrightarrow> client_byte s bs x \<or> in_range q (unat n) x"
  have old: "(?p, ?k) \<in> set ?bs1" using l nth_mem [OF i] by (simp add: set_insert_block)
  then obtain r where r: "r < length ?bs1" "?bs1 ! r = (?p, ?k)" by (auto simp: in_set_conv_nth)
  have sz: "block_size (mem s1) (block_header ?p) = ?k"
    using linkedD(1) [OF heap_invD(3) [OF inv1] r(1)] r(2) by simp
  define s2 where "s2 = s1\<lparr>mem := memory_copy ?p q ?k (mem s1)\<rparr>"
  have kn: "unat ?k \<le> unat n" using grow by (simp add: word_less_nat_alt)
  have pay: "client_byte s bs x" if "in_range ?p (unat ?k) x" for x
    using that i by (auto simp: client_byte_def in_payload_iff)
  have copy: "mem s2 x = (if in_range q (unat ?k) x then mem s1 (?p + (x - q)) else mem s1 x)" for x
    unfolding s2_def using copy_between_blocks [OF _ kn, of q ?p "mem s1" x] fresh pay by fastforce
  have sub: "in_range q (unat n) x" if "in_range q (unat ?k) x" for x
    using that kn by (simp add: in_range_def)
  have "memory_copy ?p q ?k (mem s1) x = mem s1 x" if "\<not> client_byte s1 ?bs1 x" for x
    using copy [of x] sub cl1 that by (auto simp: s2_def)
  note wr = client_write [OF inv1 this, folded s2_def]
  note inv2 = wr(1) and cl2 = wr(2)
  from inv2 old show ?thesis
  proof (rule unalloc_contract)
    fix j s3
    assume u: "unalloc ?p s2 = Inr ((), s3)" and j: "j < length ?bs1" "?bs1 ! j = (?p, ?k)"
      and inv3: "heap_inv s3 (remove_block j ?bs1)"
      and keep3: "\<And>x. client_byte s2 ?bs1 x \<Longrightarrow> mem s3 x = mem s2 x"
    have "challoc ?p n s = Inr (q, s3)"
      using challoc_eq [OF assms(1) i, of n] grow no_gap a u by (auto simp: sz s2_def)
    moreover have "add_mset (bs ! i) (mset (remove_block j ?bs1)) = add_mset (q, n) (mset bs)"
      using mset_remove_block [OF j(1)] j(2) by (simp add: mset_insert_block)
    moreover have "mem s3 (q + of_nat t) = mem s (?p + of_nat t)" if t: "t < unat ?k" for t
    proof -
      have "t < 4294967296" using t unat_lt32 [of ?k] by simp
      then have "in_range q (unat ?k) (q + of_nat t)" "in_range ?p (unat ?k) (?p + of_nat t)"
        using t by (simp_all add: in_range_offset)
      then show ?thesis
        using keep3 [of "q + of_nat t"] cl2 cl1 sub copy [of "q + of_nat t"] keep1 pay by simp
    qed
    moreover have "mem s3 x = mem s x" if "client_byte s bs x" for x
      using that keep3 [of x] cl2 cl1 keep1 copy [of x] fresh sub by auto
    ultimately show ?thesis using inv3 by blast
  qed
qed

section \<open>Zeroed allocation\<close>

lemma zalloc_contract:
  assumes "heap_inv s bs" and "room_for s bs n"
  shows "\<exists>p s' bs'. zalloc n s = Inr (p, s') \<and> heap_inv s' bs' \<and> mset bs' = add_mset (p, n) (mset bs) \<and>
    (\<forall>x. in_range p (unat n) x \<longrightarrow> mem s' x = 0) \<and> (\<forall>x. client_byte s bs x \<longrightarrow> mem s' x = mem s x)"
proof -
  from heap_alloc_law [OF assms] obtain p s1 bs1 where a: "ralloc n s = Inr (p, s1)" "heap_inv s1 bs1"
    "mset bs1 = add_mset (p, n) (mset bs)" "\<And>x. client_byte s bs x \<Longrightarrow> mem s1 x = mem s x"
    "\<And>x. in_range p (unat n) x \<Longrightarrow> \<not> client_byte s bs x"
    "\<And>x. client_byte s1 bs1 x \<longleftrightarrow> client_byte s bs x \<or> in_range p (unat n) x" by blast
  have "heap_inv (s1\<lparr>mem := memory_clear p n 0 (mem s1)\<rparr>) bs1"
    using a(6) by (intro client_write(1) [OF a(2)]) (simp add: memory_clear_apply)
  moreover have "\<forall>x. client_byte s bs x \<longrightarrow> memory_clear p n 0 (mem s1) x = mem s x"
    using a(4,5) by (auto simp: memory_clear_apply)
  ultimately show ?thesis
    using a(1,3) by (intro exI [of _ p] exI [of _ "s1\<lparr>mem := memory_clear p n 0 (mem s1)\<rparr>"] exI [of _ bs1])
      (simp add: zalloc_def memory_clear_apply)
qed

section \<open>Runs of the heap\<close>

text \<open>
  Every way a client drives the heap after its initialisation, with the blocks it holds as a map
  from address to size: plain and zeroed allocation, release, resizing, and writes. The guards are the
  client's side of the contract: release and resize only what is live, write only to live payload or
  outside the heap, and stop at a null pointer that \<^verbatim>\<open>zalloc\<close> or \<^verbatim>\<open>challoc\<close> returns. Three guards stand for
  checks the code does not make: the size plus the header must not wrap around, the first block of an
  empty heap must fit, and a block grown in place must leave room for the header behind it.
\<close>

definition sane_request :: "'a heap_state_scheme \<Rightarrow> (addr \<rightharpoonup> u_dword) \<Rightarrow> u_dword \<Rightarrow> bool" where
  "sane_request s live n \<longleftrightarrow> unat n + 12 < 4294967296 \<and>
     (live = Map.empty \<longrightarrow> unat (heap_start s) + unat n + 24 \<le> unat (heap_end s))"

definition room_behind :: "'a heap_state_scheme \<Rightarrow> (addr \<rightharpoonup> u_dword) \<Rightarrow> addr \<Rightarrow> u_dword \<Rightarrow> bool" where
  "room_behind s live p n \<longleftrightarrow> unat p + unat n + 12 \<le> unat (heap_end s) \<and>
     (\<forall>q k. live q = Some k \<longrightarrow> unat p < unat q \<longrightarrow> unat p + unat n + 12 \<le> unat q)"

inductive heap_run :: "'a heap_state_scheme \<Rightarrow> (addr \<rightharpoonup> u_dword) \<Rightarrow> bool" where
  initialized: "24 \<le> unat cap \<Longrightarrow> unat start + unat cap < 4294967296 \<Longrightarrow>
    heap_run (initialize_heap start cap s) Map.empty"
| allocated: "heap_run s live \<Longrightarrow> sane_request s live n \<Longrightarrow> ralloc n s = Inr (p, s') \<Longrightarrow>
    p \<noteq> nullptr \<Longrightarrow> heap_run s' (live(p \<mapsto> n))"
| refused: "heap_run s live \<Longrightarrow> sane_request s live n \<Longrightarrow> ralloc n s = Inr (nullptr, s') \<Longrightarrow> heap_run s' live"
| released: "heap_run s live \<Longrightarrow> live p = Some n \<Longrightarrow> unalloc p s = Inr ((), s') \<Longrightarrow>
    heap_run s' (live(p := None))"
| zeroed: "heap_run s live \<Longrightarrow> sane_request s live n \<Longrightarrow> zalloc n s = Inr (p, s') \<Longrightarrow>
    p \<noteq> nullptr \<Longrightarrow> heap_run s' (live(p \<mapsto> n))"
| resized: "heap_run s live \<Longrightarrow> live p = Some k \<Longrightarrow> sane_request s live n \<Longrightarrow> challoc p n s = Inr (q, s') \<Longrightarrow>
    q \<noteq> nullptr \<Longrightarrow> (q = p \<Longrightarrow> k < n \<Longrightarrow> room_behind s live p n) \<Longrightarrow> heap_run s' ((live(p := None))(q \<mapsto> n))"
| written: "heap_run s live \<Longrightarrow> (\<exists>p n. live p = Some n \<and> in_range p (unat n) x) \<or> \<not> in_heap_area s x \<Longrightarrow>
    heap_run (s\<lparr>mem := (mem s)(x := v)\<rparr>) live"

lemma distinct_blocks: "heap_inv s bs \<Longrightarrow> distinct (map fst bs)"
  unfolding distinct_conv_nth using layout_inj [OF heap_invD(2)] by fastforce

lemma map_of_add_mset:
  assumes "distinct (map fst bs')" and "mset bs' = add_mset (p, n) (mset bs)"
  shows "map_of bs' = (map_of bs)(p \<mapsto> n)" and "map_of bs p = None"
proof -
  have "mset (map fst bs') = mset (map fst ((p, n) # bs))"
    using assms(2) by simp
  then have d: "distinct (map fst ((p, n) # bs))"
    using assms(1) mset_eq_imp_distinct_iff by blast
  have "set bs' = set ((p, n) # bs)" using assms(2) by (metis mset.simps(2) set_mset_mset)
  then have "map_of bs' = map_of ((p, n) # bs)"
    using map_of_inject_set [OF assms(1) d] by blast
  then show "map_of bs' = (map_of bs)(p \<mapsto> n)" by simp
  show "map_of bs p = None" using d by (simp add: map_of_eq_None_iff)
qed

lemma no_space_returns:
  assumes "no_space s = Inr ((), s')"
  shows "s' = s"
proof -
  obtain h where h: "handlers s allocation_exception_id = Some h"
    using assms by (cases "handlers s allocation_exception_id")
      (auto simp: no_space_def throw_verbose_def throw_exception_def)
  with assms show ?thesis
    by (cases h) (auto simp: no_space_def throw_verbose_def throw_exception_def terminate_def
        lib_handle_allocation_exception_def kernel_handle_allocation_exception_def and_then_eq_Inr)
qed

lemma ralloc_returns:
  assumes "heap_inv s bs" and "sane_request s (map_of bs) n" and "ralloc n s = Inr (p, s')"
  shows "p = nullptr \<and> s' = s \<or> room_for s bs n"
proof (cases "\<exists>i. room_at (heap_start s) (heap_end s) bs i n")
  case True
  then show ?thesis by (auto simp: room_for_def room_at_def)
next
  case False
  have "bs \<noteq> []"
    using assms(2) False [simplified, rule_format, of 0]
    by (auto simp: sane_request_def room_at_def gap_limit_def)
  then have "and_then (no_space s) (\<lambda>_ s. Inr (nullptr, s)) = Inr (p, s')"
    using ralloc_no_room [OF assms(1)] False assms(2,3) by (simp add: sane_request_def)
  then show ?thesis using no_space_returns by (auto simp: and_then_eq_Inr)
qed

lemma challoc_shrink:
  assumes "heap_inv s bs" and i: "i < length bs" and le: "n \<le> snd (bs ! i)"
  shows "\<exists>s'. challoc (fst (bs ! i)) n s = Inr (fst (bs ! i), s') \<and>
    heap_inv s' (bs[i := (fst (bs ! i), n)]) \<and> (\<forall>x. client_byte s bs x \<longrightarrow> mem s' x = mem s x)"
proof (cases "n = snd (bs ! i)")
  case True
  then have "(fst (bs ! i), n) = bs ! i" by simp
  then show ?thesis
    unfolding challoc_eq [OF assms(1,2)] using True assms(1) by (simp add: list_update_id)
next
  case False
  have "gap_begin (unat (heap_start s)) bs (Suc i) + 12 \<le> gap_limit (unat (heap_end s)) bs (Suc i)"
    using i by (intro layoutD [OF heap_invD(2) [OF assms(1)]]) simp
  then have "unat (fst (bs ! i)) + unat n + 12 \<le> gap_limit (unat (heap_end s)) bs (Suc i)"
    using le by (simp add: word_le_nat_alt)
  from resize_inv [OF assms(1,2) this] False le show ?thesis
    unfolding challoc_eq [OF assms(1,2)] by (auto simp: order_less_le)
qed

lemma map_of_resize:
  fixes bs :: blocks
  assumes "distinct (map fst bs)" and "i < length bs" and "bs ! i = (p, k)"
    and "distinct (map fst bs')" and "add_mset (p, k) (mset bs') = add_mset (q, n) (mset bs)"
  shows "map_of bs' = ((map_of bs)(p := None))(q \<mapsto> n)"
proof -
  note rm = mset_remove_block [OF assms(2), symmetric, unfolded assms(3)]
  have "map_of bs = (map_of (remove_block i bs))(p \<mapsto> k)" "map_of (remove_block i bs) p = None"
    using map_of_add_mset [OF assms(1) rm] by simp_all
  then have old: "map_of (remove_block i bs) = (map_of bs)(p := None)" by auto
  have "mset bs' = add_mset (q, n) (mset (remove_block i bs))" using assms(5) rm by simp
  from map_of_add_mset(1) [OF assms(4) this] old show ?thesis by simp
qed

text \<open>What \<^verbatim>\<open>challoc\<close> does to the block list, in each of its branches.\<close>

lemma challoc_returns:
  assumes inv: "heap_inv s bs" and i: "i < length bs" "bs ! i = (p, k)" and small: "unat n + 12 < 4294967296"
    and ret: "challoc p n s = Inr (q, s')" and q: "q \<noteq> nullptr" and room: "q = p \<Longrightarrow> k < n \<Longrightarrow> room_behind s (map_of bs) p n"
  obtains bs' where "heap_inv s' bs'" and "add_mset (p, k) (mset bs') = add_mset (q, n) (mset bs)"
proof -
  have upd: "add_mset (p, k) (mset (bs[i := (p, n)])) = add_mset (p, n) (mset bs)"
    using mset_update [OF i(1), of "(p, n)"] mset_remove_block [OF i(1), symmetric] i by simp
  note eq = challoc_eq [OF inv i(1), of n, unfolded i(2) fst_conv snd_conv]
  consider "n \<le> k" | "k < n" "n < next_at bs (Suc i) - p" | "k < n" "next_at bs (Suc i) - p \<le> n"
    by (meson not_le)
  then show thesis
  proof cases
    case 1
    from challoc_shrink [OF inv i(1), of n] i(2) 1 ret have "heap_inv s' (bs[i := (p, n)])" "q = p" by auto
    then show thesis using that upd by simp
  next
    case 2
    then have "challoc p n s = Inr (p, set_block_size (block_header p) n s)" unfolding eq by auto
    then have s': "q = p" "s' = set_block_size (block_header p) n s" using ret by simp_all
    have behind: "room_behind s (map_of bs) p n" using room s'(1) 2(1) by blast
    have "unat p + unat n + 12 \<le> gap_limit (unat (heap_end s)) bs (Suc i)"
    proof (cases "Suc i < length bs")
      case True
      have "unat p < unat (fst (bs ! Suc i))" using layout_order [OF heap_invD(2) [OF inv], of i "Suc i"] True i(2) by simp
      moreover have "map_of bs (fst (bs ! Suc i)) = Some (snd (bs ! Suc i))"
        using distinct_blocks [OF inv] nth_mem [OF True] by simp
      ultimately show ?thesis using behind True by (simp add: room_behind_def)
    next
      case False
      then show ?thesis using behind i(1) by (simp add: room_behind_def gap_limit_def)
    qed
    from resize_inv(1) [OF inv i(1), unfolded i(2) fst_conv, OF this] show thesis using that upd s' by simp
  next
    case 3
    have "room_for s bs n"
    proof (rule ccontr)
      assume "\<not> room_for s bs n"
      then have no: "\<not> room_at (heap_start s) (heap_end s) bs j n" for j by (auto simp: room_for_def room_at_def)
      have "bs \<noteq> []" using i(1) by auto
      from ralloc_no_room [OF inv this small no] have none: "ralloc n s = and_then (no_space s) (\<lambda>_ s. Inr (nullptr, s))" .
      have "\<not> n = k" "\<not> (n < k \<or> n < next_at bs (Suc i) - p)" using 3 by auto
      then show False using ret q unfolding eq none by (auto simp: and_then_eq_Inr)
    qed
    from challoc_move [OF inv i(1) _ _ this] i(2) 3 ret show thesis using that by auto
  qed
qed

lemma heap_run_inv: "heap_run s live \<Longrightarrow> \<exists>bs. heap_inv s bs \<and> map_of bs = live"
proof (induction rule: heap_run.induct)
  case (initialized cap start s)
  then show ?case using initialize_heap_inv by (intro exI [of _ "[]"]) simp
next
  case (allocated s live n p s')
  then obtain bs where bs: "heap_inv s bs" "map_of bs = live" by blast
  then have "room_for s bs n" using allocated ralloc_returns by blast
  from heap_alloc_law [OF bs(1) this] allocated(3) obtain bs'
    where "heap_inv s' bs'" "mset bs' = add_mset (p, n) (mset bs)" by auto
  then show ?case using map_of_add_mset(1) [OF distinct_blocks] bs(2) by blast
next
  case (refused s live n s')
  then obtain bs where bs: "heap_inv s bs" "map_of bs = live" by blast
  have "\<not> room_for s bs n"
    using heap_alloc_law [OF bs(1)] refused(3) by fastforce
  then show ?case using bs refused ralloc_returns by blast
next
  case (released s live p n s')
  then obtain bs where bs: "heap_inv s bs" "map_of bs = live" by blast
  then have "(p, n) \<in> set bs" using released(2) map_of_SomeD by fast
  from heap.release_law [OF bs(1) this] released(3) obtain bs'
    where "heap_inv s' bs'" "mset bs = add_mset (p, n) (mset bs')" by auto
  then show ?case
    using map_of_add_mset [OF distinct_blocks [OF bs(1)]] bs(2)
    by (intro exI [of _ bs']) auto
next
  case (zeroed s live n p s')
  then obtain bs where bs: "heap_inv s bs" "map_of bs = live" by blast
  obtain s1 where "ralloc n s = Inr (p, s1)" using zeroed(3) by (auto simp: zalloc_def and_then_eq_Inr)
  from ralloc_returns [OF bs(1) _ this] have "room_for s bs n" using zeroed(2,4) bs(2) by blast
  from zalloc_contract [OF bs(1) this] zeroed(3) obtain bs'
    where "heap_inv s' bs'" "mset bs' = add_mset (p, n) (mset bs)" by auto
  then show ?case using map_of_add_mset(1) [OF distinct_blocks] bs(2) by blast
next
  case (resized s live p k n q s')
  then obtain bs where bs: "heap_inv s bs" "map_of bs = live" by blast
  then have "(p, k) \<in> set bs" using resized(2) map_of_SomeD by fast
  then obtain i where i: "i < length bs" "bs ! i = (p, k)" by (auto simp: in_set_conv_nth)
  have "unat n + 12 < 4294967296" using resized(3) by (simp add: sane_request_def)
  from challoc_returns [OF bs(1) i this resized(4,5)] resized(6) bs(2) obtain bs'
    where b: "heap_inv s' bs'" "add_mset (p, k) (mset bs') = add_mset (q, n) (mset bs)" by blast
  from map_of_resize [OF distinct_blocks [OF bs(1)] i distinct_blocks [OF b(1)] b(2)] b(1) bs(2) show ?case by blast
next
  case (written s live x v)
  then obtain bs where bs: "heap_inv s bs" "map_of bs = live" by blast
  then have "client_byte s bs x"
    using written(2) map_of_SomeD by (fastforce simp: client_byte_def in_payload_def)
  then have "heap_inv (s\<lparr>mem := (mem s)(x := v)\<rparr>) bs"
    by (intro client_write(1) [OF bs(1)]) auto
  then show ?case using bs(2) by blast
qed

section \<open>States for the witnesses\<close>

text \<open>
  A heap of \<open>cap\<close> bytes at address 4096 on blank memory with the VGA device, before any
  allocation; and the same heap with one block of 16 bytes and with a second one behind it.
\<close>

definition demo_heap :: "u_dword \<Rightarrow> heap_state" where
  "demo_heap cap = initialize_heap 0x1000 cap
     \<lparr>mem = (\<lambda>_. 0), device = vga_device, io_trace = [], stack_slot = 0x6000, word_device = (\<lambda>_ _. 0),
      handlers = (\<lambda>_. None), literal = (\<lambda>_. 0x9000), header = 0\<rparr>"

lemma demo_heap_inv: "24 \<le> unat cap \<Longrightarrow> unat cap < 100000 \<Longrightarrow> heap_inv (demo_heap cap) []"
  unfolding demo_heap_def by (rule initialize_heap_inv) simp_all

lemma demo_heap_fields:
  "heap_start (demo_heap cap) = 0x100c" "heap_end (demo_heap cap) = 0x1000 + cap"
  "handlers (demo_heap cap) 1 = Some Lib_allocation_handler" "header (demo_heap cap) = 0x1000"
  "device (demo_heap cap) = vga_device" "stack_slot (demo_heap cap) = 0x6000" "literal (demo_heap cap) l = 0x9000"
  by (simp_all add: demo_heap_def initialize_heap_fields)

lemma demo_heap_room:
  "unat (0x1000 + cap) \<ge> 0x100c + unat n + 24 \<Longrightarrow> room_for (demo_heap cap) [] n"
  by (simp add: room_for_def room_at_def demo_heap_fields gap_limit_def)

definition demo_one :: "u_dword \<Rightarrow> heap_state" where
  "demo_one cap = place_block 16 [] 0 (demo_heap cap)"

definition demo_two :: heap_state where
  "demo_two = place_block 16 [(0x1018, 16)] 1 (demo_one 4096)"

lemma demo_one_inv:
  assumes "52 \<le> unat cap" and "unat cap < 100000"
  shows "heap_inv (demo_one cap) [(0x1018, 16)]" and "heap_start (demo_one cap) = 0x100c"
    and "heap_end (demo_one cap) = 0x1000 + cap" and "handlers (demo_one cap) 1 = Some Lib_allocation_handler"
    and "header (demo_one cap) = 0x1000" and "device (demo_one cap) = vga_device"
    and "stack_slot (demo_one cap) = 0x6000"
proof -
  have "unat (0x1000 + cap) = 0x1000 + unat cap"
    using assms by (subst unat_plus_small) simp_all
  then have room: "room_at (heap_start (demo_heap cap)) (heap_end (demo_heap cap)) [] 0 16"
    using assms by (simp add: room_at_def demo_heap_fields gap_limit_def)
  have inv: "heap_inv (demo_heap cap) []" using assms by (intro demo_heap_inv) simp_all
  note p = place_block_inv [OF inv room]
  show "heap_inv (demo_one cap) [(0x1018, 16)]"
    using p(1) by (simp add: demo_one_def insert_block_def gap_word_def demo_heap_fields)
  show "heap_start (demo_one cap) = 0x100c" "heap_end (demo_one cap) = 0x1000 + cap"
    using p(4,5) by (simp_all add: demo_one_def demo_heap_fields)
  show "handlers (demo_one cap) 1 = Some Lib_allocation_handler" "header (demo_one cap) = 0x1000"
    "device (demo_one cap) = vga_device" "stack_slot (demo_one cap) = 0x6000"
    using p(3) demo_heap_fields [of cap] by (auto simp: demo_one_def)
qed

lemma demo_two_inv: "heap_inv demo_two [(0x1018, 16), (0x1034, 16)]" "heap_start demo_two = 0x100c" "heap_end demo_two = 0x2000"
proof -
  note one = demo_one_inv [of 4096, simplified]
  have room: "room_at (heap_start (demo_one 4096)) (heap_end (demo_one 4096)) [(0x1018, 16)] 1 16"
    by (simp add: room_at_def one gap_limit_def gap_begin_def)
  note p = place_block_inv [OF one(1) room]
  show "heap_inv demo_two [(0x1018, 16), (0x1034, 16)]"
    using p(1) by (simp add: demo_two_def insert_block_def gap_word_def)
  show "heap_start demo_two = 0x100c" "heap_end demo_two = 0x2000"
    using p(4,5) one(2,3) by (simp_all add: demo_two_def)
qed

section \<open>Properties of the heap\<close>

text \<open>
  (C4) Best fit: on a heap in good order with a gap that can take the request, \<^verbatim>\<open>ralloc\<close>
  returns the address behind the header at the start of a gap no other fitting gap is smaller
  than; the block list gains exactly this block, and no byte a client holds changes.
\<close>

theorem ralloc_best_fit:
  assumes "heap_inv s bs" and "room_for s bs n"
  shows "\<exists>i s'. let lo = heap_start s; hi = heap_end s; p = gap_word lo bs i + header_size
    in ralloc n s = Inr (p, s') \<and> room_at lo hi bs i n \<and>
      (\<forall>j. room_at lo hi bs j n \<longrightarrow> gap_size (gap_at lo hi bs i) \<le> gap_size (gap_at lo hi bs j)) \<and>
      heap_inv s' (insert_block i (p, n) bs) \<and> (\<forall>x. client_byte s bs x \<longrightarrow> mem s' x = mem s x)"
proof -
  from assms(2) obtain j where "room_at (heap_start s) (heap_end s) bs j n" by (auto simp: room_for_def)
  from ralloc_room [OF assms(1) _ this] room_for_small [OF assms]
  obtain i where i: "room_at (heap_start s) (heap_end s) bs i n"
    "\<forall>j. room_at (heap_start s) (heap_end s) bs j n \<longrightarrow>
      gap_size (gap_at (heap_start s) (heap_end s) bs i) \<le> gap_size (gap_at (heap_start s) (heap_end s) bs j)"
    "ralloc n s = Inr (gap_word (heap_start s) bs i + header_size, place_block n bs i s)" by fastforce
  moreover from heap_alloc_law [OF assms] i(3)
  have "\<forall>x. client_byte s bs x \<longrightarrow> mem (place_block n bs i s) x = mem s x" by auto
  ultimately show ?thesis
    using place_block_inv(1) [OF assms(1) i(1)] by (metis (no_types, lifting))
qed

theorem ralloc_best_fit_witness:
  "\<exists>i s'. let lo = heap_start demo_two; hi = heap_end demo_two; bs = [(0x1018, 16), (0x1034, 16)];
         p = gap_word lo bs i + header_size
    in ralloc 100 demo_two = Inr (p, s') \<and> room_at lo hi bs i 100 \<and>
      (\<forall>j. room_at lo hi bs j 100 \<longrightarrow> gap_size (gap_at lo hi bs i) \<le> gap_size (gap_at lo hi bs j)) \<and>
      heap_inv s' (insert_block i (p, 100) bs) \<and> (\<forall>x. client_byte demo_two bs x \<longrightarrow> mem s' x = mem demo_two x)"
proof -
  have "room_for demo_two [(0x1018, 16), (0x1034, 16)] 100"
    unfolding room_for_def by (rule exI [of _ 2]) (simp add: room_at_def demo_two_inv gap_limit_def gap_begin_def)
  from ralloc_best_fit [OF demo_two_inv(1) this] show ?thesis by (simp add: Let_def)
qed





text \<open>
  (C23) Release: \<^verbatim>\<open>unalloc\<close> of a live block unlinks exactly this block, changes no byte a client
  holds, and gives its bytes back.
\<close>

theorem unalloc_unlinks:
  assumes "heap_inv s bs" and "i < length bs"
  shows "\<exists>s'. unalloc (fst (bs ! i)) s = Inr ((), s') \<and> heap_inv s' (remove_block i bs) \<and>
    (\<forall>x. client_byte s bs x \<longrightarrow> mem s' x = mem s x) \<and>
    heap_start s' = heap_start s \<and> heap_end s' = heap_end s"
  using unalloc_eq [OF assms] drop_block_inv [OF assms] client_byte_not_meta [OF assms(1)] by blast

theorem unalloc_unlinks_witness:
  "\<exists>s'. unalloc 0x1018 demo_two = Inr ((), s') \<and> heap_inv s' [(0x1034, 16)] \<and>
    (\<forall>x. client_byte demo_two [(0x1018, 16), (0x1034, 16)] x \<longrightarrow> mem s' x = mem demo_two x) \<and>
    heap_start s' = heap_start demo_two \<and> heap_end s' = heap_end demo_two"
  using unalloc_unlinks [OF demo_two_inv(1), of 0] by (simp add: remove_block_def)

text \<open>
  (C22) Allocation and release cancel: releasing a fresh block brings back the same blocks and the
  same client bytes with the same contents.
\<close>

theorem ralloc_unalloc_roundtrip:
  assumes "heap_inv s bs" and "room_for s bs n"
  shows "\<exists>p s1 s2 bs2. ralloc n s = Inr (p, s1) \<and> unalloc p s1 = Inr ((), s2) \<and> heap_inv s2 bs2 \<and>
    mset bs2 = mset bs \<and> (\<forall>x. client_byte s2 bs2 x \<longleftrightarrow> client_byte s bs x) \<and>
    (\<forall>x. client_byte s bs x \<longrightarrow> mem s2 x = mem s x)"
  using heap.alloc_release [OF assms(1) room_for_spare [THEN iffD1, OF assms(2)] order_refl] .

theorem ralloc_unalloc_roundtrip_witness:
  "\<exists>p s1 s2 bs2. ralloc 8 (demo_heap 128) = Inr (p, s1) \<and> unalloc p s1 = Inr ((), s2) \<and> heap_inv s2 bs2 \<and>
    mset bs2 = mset [] \<and> (\<forall>x. client_byte s2 bs2 x \<longleftrightarrow> client_byte (demo_heap 128) [] x) \<and>
    (\<forall>x. client_byte (demo_heap 128) [] x \<longrightarrow> mem s2 x = mem (demo_heap 128) x)"
  by (rule ralloc_unalloc_roundtrip) (rule demo_heap_inv demo_heap_room; simp)+

text \<open>
  (C26) \<^verbatim>\<open>zalloc\<close> returns a fresh block in which every byte is zero, and leaves what clients hold
  as it was.
\<close>

theorem zalloc_zeroed:
  assumes "heap_inv s bs" and "room_for s bs n"
  shows "\<exists>p s' bs'. zalloc n s = Inr (p, s') \<and> heap_inv s' bs' \<and> mset bs' = add_mset (p, n) (mset bs) \<and>
    (\<forall>x. in_range p (unat n) x \<longrightarrow> mem s' x = 0) \<and> (\<forall>x. client_byte s bs x \<longrightarrow> mem s' x = mem s x)"
  by (rule zalloc_contract [OF assms])

theorem zalloc_zeroed_witness:
  "\<exists>p s' bs'. zalloc 8 (demo_heap 128) = Inr (p, s') \<and> heap_inv s' bs' \<and> mset bs' = add_mset (p, 8) (mset []) \<and>
    (\<forall>x. in_range p (unat (8 :: u_dword)) x \<longrightarrow> mem s' x = 0) \<and>
    (\<forall>x. client_byte (demo_heap 128) [] x \<longrightarrow> mem s' x = mem (demo_heap 128) x)"
  by (rule zalloc_zeroed) (rule demo_heap_inv demo_heap_room; simp)+

text \<open>
  (C27) Growing by moving: when the bytes up to the next block do not suffice, \<^verbatim>\<open>challoc\<close> takes a
  new block, copies all old contents to its front, releases the old block, and changes nothing
  else a client holds.
\<close>

theorem challoc_moves_contents:
  assumes "heap_inv s bs" and "i < length bs" and "snd (bs ! i) < n"
    and "next_at bs (Suc i) - fst (bs ! i) \<le> n" and "room_for s bs n"
  shows "\<exists>q s' bs'. challoc (fst (bs ! i)) n s = Inr (q, s') \<and> heap_inv s' bs' \<and>
    add_mset (bs ! i) (mset bs') = add_mset (q, n) (mset bs) \<and>
    (\<forall>j < unat (snd (bs ! i)). mem s' (q + of_nat j) = mem s (fst (bs ! i) + of_nat j)) \<and>
    (\<forall>x. client_byte s bs x \<longrightarrow> mem s' x = mem s x)"
  using assms by (rule challoc_move)

theorem challoc_moves_contents_witness:
  "\<exists>q s' bs'. challoc 0x1018 64 demo_two = Inr (q, s') \<and> heap_inv s' bs' \<and>
    add_mset (0x1018, 16) (mset bs') = add_mset (q, 64) (mset [(0x1018, 16), (0x1034, 16)]) \<and>
    (\<forall>j < 16. mem s' (q + of_nat j) = mem demo_two (0x1018 + of_nat j)) \<and>
    (\<forall>x. client_byte demo_two [(0x1018, 16), (0x1034, 16)] x \<longrightarrow> mem s' x = mem demo_two x)"
proof -
  have "room_for demo_two [(0x1018, 16), (0x1034, 16)] 64"
    unfolding room_for_def by (rule exI [of _ 2]) (simp add: room_at_def demo_two_inv gap_limit_def gap_begin_def)
  then show ?thesis
    using challoc_moves_contents [OF demo_two_inv(1), of 0 64] by (simp add: next_at_def)
qed

text \<open>
  Resizing in place: shrinking a block, or growing it while its end and the next header still
  fit before the next block, keeps the address, the heap in good order and all client bytes.
\<close>

lemma challoc_in_place:
  assumes "heap_inv s bs" and "i < length bs"
    and "n \<le> snd (bs ! i) \<or> (Suc i < length bs \<and> unat (fst (bs ! i)) + unat n + 12 \<le> unat (fst (bs ! Suc i)))"
  shows "\<exists>s'. challoc (fst (bs ! i)) n s = Inr (fst (bs ! i), s') \<and>
    heap_inv s' (bs[i := (fst (bs ! i), n)]) \<and> (\<forall>x. client_byte s bs x \<longrightarrow> mem s' x = mem s x)"
proof (cases "n \<le> snd (bs ! i)")
  case True
  then show ?thesis by (rule challoc_shrink [OF assms(1,2)])
next
  case False
  with assms(3) have next_block: "Suc i < length bs" "unat (fst (bs ! i)) + unat n + 12 \<le> unat (fst (bs ! Suc i))"
    by blast+
  then have "n < next_at bs (Suc i) - fst (bs ! i)"
    by (simp add: next_at_def word_less_nat_alt unat_minus_ge)
  moreover have "unat (fst (bs ! i)) + unat n + 12 \<le> gap_limit (unat (heap_end s)) bs (Suc i)"
    using next_block by simp
  from resize_inv [OF assms(1,2) this]
  have "heap_inv (set_block_size (block_header (fst (bs ! i))) n s) (bs[i := (fst (bs ! i), n)])"
    "\<forall>x. client_byte s bs x \<longrightarrow> mem (set_block_size (block_header (fst (bs ! i))) n s) x = mem s x" by blast+
  ultimately show ?thesis
    using False unfolding challoc_eq [OF assms(1,2)] by auto
qed

text \<open>
  (C28) Growing in place is allowed too far: the test compares the new size with the distance to the
  next block's payload and forgets the next block's header, so a block may be grown until its
  payload contains the header of its successor; and for the last block, whose successor is the
  null pointer, the difference wraps and the block may be grown past the end of the heap.
\<close>

theorem challoc_in_place_too_far:
  assumes "heap_inv s bs" and "i < length bs" and "snd (bs ! i) < n"
    and "n < next_at bs (Suc i) - fst (bs ! i)"
  shows "challoc (fst (bs ! i)) n s = Inr (fst (bs ! i), set_block_size (block_header (fst (bs ! i))) n s) \<and>
    (Suc i < length bs \<longrightarrow> unat (fst (bs ! Suc i)) < unat (fst (bs ! i)) + unat n + 12 \<longrightarrow>
      \<not> disjoint_ranges (fst (bs ! i)) (unat n) (block_header (fst (bs ! Suc i))) 12)"
proof (intro conjI impI)
  show "challoc (fst (bs ! i)) n s = Inr (fst (bs ! i), set_block_size (block_header (fst (bs ! i))) n s)"
    using assms(3,4) unfolding challoc_eq [OF assms(1,2)] by auto
next
  let ?p = "fst (bs ! i)" and ?q = "fst (bs ! Suc i)"
  assume next_block: "Suc i < length bs" and over: "unat ?q < unat ?p + unat n + 12"
  have order: "unat ?p + unat (snd (bs ! i)) + 12 \<le> unat ?q"
    using layout_order [OF heap_invD(2) [OF assms(1)], of i "Suc i"] next_block by simp
  then have h: "unat (block_header ?q) = unat ?q - 12" by (intro unat_block_header) simp
  then have "unat (block_header ?q - ?p) = unat ?q - 12 - unat ?p"
    using order by (subst unat_minus_ge) auto
  then have "in_range ?p (unat n) (block_header ?q)"
    using over order by (simp add: in_range_def)
  moreover have "in_range (block_header ?q) 12 (block_header ?q)" by (simp add: in_range_def)
  ultimately show "\<not> disjoint_ranges ?p (unat n) (block_header ?q) 12"
    by (auto simp: disjoint_ranges_def)
qed

theorem challoc_in_place_too_far_witness:
  "challoc 0x1018 27 demo_two = Inr (0x1018, set_block_size (block_header 0x1018) 27 demo_two) \<and>
    \<not> disjoint_ranges 0x1018 27 (block_header 0x1034) 12"
  using challoc_in_place_too_far [OF demo_two_inv(1), of 0 27] by (simp add: next_at_def)

text \<open>
  (C29) \<^verbatim>\<open>occupation\<close> terminates on every heap in good order, changes nothing and returns the
  number of live blocks.
\<close>

theorem occupation_counts_blocks:
  assumes "heap_inv s bs"
  shows "occupation s = Inr (of_nat (length bs), s)"
proof (cases "bs = []")
  case True
  then show ?thesis using heap_invD(4) [OF assms] by (simp add: occupation_def next_at_def)
next
  case False
  then have "first_address s \<noteq> nullptr" "first_address s = next_at bs 0"
    using heap_invD(4) [OF assms] next_at_null [OF assms, of 0] by auto
  then show ?thesis
    using occupation_walk_eq [OF assms, of 0 walk_fuel 0 0] length_blocks [OF assms]
    by (simp add: occupation_def walk_fuel_def)
qed

theorem occupation_counts_blocks_witness: "occupation demo_two = Inr (2, demo_two)"
  using occupation_counts_blocks [OF demo_two_inv(1)] by simp

text \<open>
  (C30) The first allocation on an empty heap is not checked: whatever size is asked for, even one
  that exceeds the heap, the call succeeds and returns the first payload address.
\<close>

theorem first_allocation_unchecked:
  assumes "first_address s = nullptr"
  shows "\<exists>s'. ralloc n s = Inr (heap_start s + header_size, s')"
  using assms by (auto simp: ralloc_def allocate_space_def Let_def first_address_def set_first_address_def)

theorem first_allocation_unchecked_witness:
  "\<exists>s'. ralloc 0xffffffff (demo_heap 128) = Inr (heap_start (demo_heap 128) + header_size, s')"
  by (rule first_allocation_unchecked) (simp add: demo_heap_def initialize_heap_fields)

lemma chars_heap_exhausted:
  "length (chars heap_exhausted_text) = 23" "8 \<notin> set (chars heap_exhausted_text)" "0 \<notin> set (chars heap_exhausted_text)"
  by (simp_all add: chars_def heap_exhausted_text_def of_char_def)

text \<open>
  (C25) Exhaustion in the kernel (the design notes say that the handler cannot print and calls \<^verbatim>\<open>terminate\<close>;
  the code prints a constant text and spins): with the kernel's handler registered and the text of its message
  in place outside the bytes the screen driver writes, a request that does not fit prints
  the message in light red at the cursor, touching the heap nowhere, and never returns.
\<close>

theorem ralloc_exhausted_kernel:
  assumes "heap_inv s bs" and "bs \<noteq> []" and "unat n + 12 < 4294967296" and "\<not> room_for s bs n"
    and "handlers s allocation_exception_id = Some Kernel_allocation_handler"
    and "vga_crtc (device s)" and "cursor_is s c" and "slot_ok s" and "unat c < 2000"
    and "literal_ok s heap_exhausted_text"
    and "\<And>i. i \<le> 23 \<Longrightarrow> \<not> screen_bytes s (literal s heap_exhausted_text + of_nat i)"
  shows "\<exists>s'. ralloc n s = Inl (Hang s') \<and>
    cells_of (mem s') = fst (fold (\<lambda>ch. spec_print ch 12) (chars heap_exhausted_text) (cells_of (mem s), unat c))"
proof -
  have "\<not> room_at (heap_start s) (heap_end s) bs i n" for i
    using assms(4) by (auto simp: room_for_def room_at_def)
  note eq = ralloc_no_room [OF assms(1-3) this]
  from print_until_nul_refines [OF assms(6-9) assms(10) [unfolded literal_ok_def], of "2 ^ 31", where f = 12 and b = 0]
    assms(11) chars_heap_exhausted
  obtain s' where "print_until_nul (2 ^ 31) (literal s heap_exhausted_text) 12 0 s = Inr ((), s')"
    "cells_of (mem s') = fst (fold (\<lambda>ch. spec_print ch 12) (chars heap_exhausted_text) (cells_of (mem s), unat c))"
    by auto
  then show ?thesis
    using assms(5) unfolding eq
    by (simp add: no_space_def throw_verbose_def throw_exception_def kernel_handle_allocation_exception_def
        print_string_color_def)
qed

definition demo_full_kernel :: heap_state where
  "demo_full_kernel = (demo_one 128)
     \<lparr>mem := (\<lambda>x. if in_range 0x9000 24 x then (chars heap_exhausted_text @ [0]) ! unat (x - 0x9000)
                  else mem (demo_one 128) x),
      io_trace := io_trace demo_screen, handlers := [1 \<mapsto> Kernel_allocation_handler],
      literal := (\<lambda>_. 0x9000)\<rparr>"

theorem ralloc_exhausted_kernel_witness:
  "\<exists>s'. ralloc 1000 demo_full_kernel = Inl (Hang s') \<and>
    cells_of (mem s') = fst (fold (\<lambda>ch. spec_print ch 12) (chars heap_exhausted_text)
      (cells_of (mem demo_full_kernel), unat (1999 :: u_word)))"
proof (rule ralloc_exhausted_kernel)
  note one = demo_one_inv [of 128, simplified]
  let ?m = "mem demo_full_kernel"
  have "?m x = mem (demo_one 128) x" if "\<not> client_byte (demo_one 128) [(0x1018, 16)] x" for x
    using that by (auto simp: demo_full_kernel_def client_byte_def in_heap_area_def one in_range_linear)
  note w = client_write [of "demo_one 128" "[(0x1018, 16)]" ?m, OF one(1) this]
  show "heap_inv demo_full_kernel [(0x1018, 16)]"
    using w(1) by (auto simp: demo_full_kernel_def heap_inv_def heap_start_def heap_end_def first_address_def)
  have "heap_start demo_full_kernel = 0x100c" "heap_end demo_full_kernel = 0x1080"
    using w(3,4) one by (simp_all add: demo_full_kernel_def heap_start_def heap_end_def)
  then show "\<not> room_for demo_full_kernel [(0x1018, 16)] 1000"
    by (auto simp: room_for_def room_at_def gap_limit_def gap_begin_def)
  show "handlers demo_full_kernel allocation_exception_id = Some Kernel_allocation_handler"
    by (simp add: demo_full_kernel_def allocation_exception_id_def)
  show "vga_crtc (device demo_full_kernel)" "cursor_is demo_full_kernel 1999"
    using demo_screen_facts vga_device_crtc by (simp_all add: demo_full_kernel_def one cursor_is_def)
  show "slot_ok demo_full_kernel"
    unfolding slot_ok_def by (rule disjoint_ranges_linear) (simp_all add: demo_full_kernel_def one VIDEO_MEMORY_def)
  have at: "?m (0x9000 + of_nat i) = (chars heap_exhausted_text @ [0]) ! i" if "i < 24" for i
    using that by (simp add: demo_full_kernel_def in_range_offset unat_of_nat)
  show "literal_ok demo_full_kernel heap_exhausted_text"
  proof -
    have "\<forall>i < 23. ?m (0x9000 + of_nat i) = chars heap_exhausted_text ! i"
      using at chars_heap_exhausted(1) by (simp add: nth_append)
    moreover have "?m (0x9000 + of_nat 23) = 0"
      using at [of 23] chars_heap_exhausted(1) by (simp add: nth_append)
    moreover have "literal demo_full_kernel heap_exhausted_text = 0x9000" by (simp add: demo_full_kernel_def)
    ultimately show ?thesis
      using chars_heap_exhausted by (simp add: literal_ok_def cstring_iff)
  qed
  fix i :: nat
  assume "i \<le> 23"
  then have "unat (0x9000 + of_nat i :: addr) = 0x9000 + i"
    by (subst unat_plus_small) (simp_all add: unat_of_nat)
  then show "\<not> screen_bytes demo_full_kernel (literal demo_full_kernel heap_exhausted_text + of_nat i)"
    using \<open>i \<le> 23\<close> by (simp add: screen_bytes_def demo_full_kernel_def one VIDEO_MEMORY_def in_range_linear)
qed simp_all

end
