(* ===== verification/HeapReserve.thy ===== *)
theory HeapReserve
  imports HeapProps
begin

text \<open>
  The heap as the rest of the system uses it. The kernel's heap, 0x50000 to 0xd0000, contains the
  video memory at 0xb8000; nothing in the allocator keeps the two apart. What keeps them
  apart is that the blocks stay below it: this theory measures the budget of a client in the
  last gap, and only up to the video memory, and shows that under this budget the bytes from
  there on are never touched. It is the second interpretation of the allocator interface.
\<close>

section \<open>The usable part of the heap\<close>

definition usable_end :: "'a heap_state_scheme \<Rightarrow> nat" where
  "usable_end s = (if unat (header s) < unat VIDEO_MEMORY then min (unat (heap_end s)) (unat VIDEO_MEMORY)
     else unat (heap_end s))"

definition heap_ok :: "'a heap_state_scheme \<Rightarrow> blocks \<Rightarrow> bool" where
  "heap_ok s bs \<longleftrightarrow> heap_inv s bs \<and> gap_begin (unat (heap_start s)) bs (length bs) \<le> usable_end s"

definition held_byte :: "'a heap_state_scheme \<Rightarrow> blocks \<Rightarrow> addr \<Rightarrow> bool" where
  "held_byte s bs x \<longleftrightarrow> in_payload bs x \<or> unat x < unat (header s) \<or> usable_end s \<le> unat x"

definition reserve :: "'a heap_state_scheme \<Rightarrow> blocks \<Rightarrow> nat \<Rightarrow> bool" where
  "reserve s bs N \<longleftrightarrow> gap_begin (unat (heap_start s)) bs (length bs) + N + 12 \<le> usable_end s"

lemma usable_end_le: "usable_end s \<le> unat (heap_end s)"
  by (simp add: usable_end_def)

lemma heap_okD:
  assumes "heap_ok s bs"
  shows "heap_inv s bs" and "gap_begin (unat (heap_start s)) bs (length bs) \<le> usable_end s"
  using assms by (simp_all add: heap_ok_def)

lemma reserve_mono: "reserve s bs N \<Longrightarrow> M \<le> N \<Longrightarrow> reserve s bs M"
  by (simp add: reserve_def)

lemma reserve_room: "reserve s bs (unat n + 12) \<Longrightarrow> room_at (heap_start s) (heap_end s) bs (length bs) n"
  using usable_end_le [of s] by (simp add: reserve_def room_at_def)

lemma block_below_last:
  assumes "layout lo hi bs" and "k < length bs"
  shows "unat (fst (bs ! k)) + unat (snd (bs ! k)) \<le> gap_begin lo bs (length bs)"
proof (cases "k = length bs - 1")
  case True
  then have "length bs = Suc k" using assms(2) by simp
  then show ?thesis by (simp add: gap_begin_def)
next
  case False
  then have k: "k < length bs - 1" using assms(2) by simp
  then have "bs \<noteq> []" by auto
  then show ?thesis using layout_order [OF assms(1) k] k unfolding gap_begin_def by simp
qed

lemma held_byte_not_meta:
  assumes "heap_ok s bs" and "held_byte s bs x"
  shows "\<not> meta (header s) bs x"
proof (cases "client_byte s bs x")
  case True
  then show ?thesis by (rule client_byte_not_meta [OF heap_okD(1) [OF assms(1)]])
next
  case False
  note inv = heap_invD [OF heap_okD(1) [OF assms(1)]] and ok = heap_okD(2) [OF assms(1)]
  have x: "usable_end s \<le> unat x"
    using False assms(2) by (auto simp: client_byte_def held_byte_def in_heap_area_def)
  have lo: "unat (heap_start s) \<le> gap_begin (unat (heap_start s)) bs (length bs)"
    by (rule gap_begin_ge [OF inv(2) order_refl])
  show ?thesis
  proof
    assume "meta (header s) bs x"
    then consider "in_range (header s) 12 x" | k where "k < length bs" "in_header (fst (bs ! k)) x"
      by (auto simp: meta_def in_set_conv_nth)
    then show False
    proof cases
      case 1
      then have "unat x < unat (heap_start s)"
        using inv(1) unat_lt32 [of "heap_start s"] by (simp add: in_range_linear)
      then show ?thesis using x lo ok by linarith
    next
      case 2
      have "12 \<le> unat (fst (bs ! k))" using layout_bounds(1) [OF inv(2) 2(1)] by simp
      then have "unat x < unat (fst (bs ! k))" using 2(2) by (simp add: in_header_linear)
      then show ?thesis using x ok block_below_last [OF inv(2) 2(1)] by linarith
    qed
  qed
qed

lemma held_write:
  assumes ok: "heap_ok s bs" and "\<And>x. \<not> held_byte s bs x \<Longrightarrow> m x = mem s x"
  shows "heap_ok (s\<lparr>mem := m\<rparr>) bs" and "held_byte (s\<lparr>mem := m\<rparr>) bs x \<longleftrightarrow> held_byte s bs x"
    and "heap_start (s\<lparr>mem := m\<rparr>) = heap_start s" and "heap_end (s\<lparr>mem := m\<rparr>) = heap_end s"
    and "reserve (s\<lparr>mem := m\<rparr>) bs N \<longleftrightarrow> reserve s bs N"
proof -
  have meta: "m x = mem s x" if "meta (header s) bs x" for x
    using that held_byte_not_meta [OF ok] assms(2) by blast
  have inv: "heap_inv (s\<lparr>mem := m\<rparr>) bs" using meta by (rule heap_inv_cong [OF heap_okD(1) [OF ok]])
  have "in_range (header s) 12 x \<Longrightarrow> m x = mem s x" for x using meta by (simp add: meta_def)
  then show ends: "heap_start (s\<lparr>mem := m\<rparr>) = heap_start s" "heap_end (s\<lparr>mem := m\<rparr>) = heap_end s"
    using heap_header_frame(2,3) [of s m] by blast+
  then have "usable_end (s\<lparr>mem := m\<rparr>) = usable_end s" by (simp add: usable_end_def)
  then show "heap_ok (s\<lparr>mem := m\<rparr>) bs" "held_byte (s\<lparr>mem := m\<rparr>) bs x \<longleftrightarrow> held_byte s bs x"
    "reserve (s\<lparr>mem := m\<rparr>) bs N \<longleftrightarrow> reserve s bs N"
    using heap_okD(2) [OF ok] inv ends by (simp_all add: heap_ok_def held_byte_def reserve_def)
qed

lemma heap_ok_empty: "heap_inv s [] \<Longrightarrow> unat (heap_start s) \<le> usable_end s \<Longrightarrow> heap_ok s []"
  by (simp add: heap_ok_def)

lemma initialize_heap_ok:
  assumes "24 \<le> unat cap" and "unat start + unat cap < 4294967296"
    and "unat VIDEO_MEMORY \<le> unat start \<or> unat start + 12 \<le> unat VIDEO_MEMORY"
  shows "heap_ok (initialize_heap start cap s) []"
proof (rule heap_ok_empty [OF initialize_heap_inv [OF assms(1,2)]])
  have "unat (start + 12) = unat start + 12" "unat (start + cap) = unat start + unat cap"
    using assms(1,2) by (subst unat_plus_small; simp)+
  then show "unat (heap_start (initialize_heap start cap s)) \<le> usable_end (initialize_heap start cap s)"
    using assms(1,3) by (auto simp: usable_end_def initialize_heap_fields)
qed

lemma usable_end_view: "mem s' = mem s \<Longrightarrow> header s' = header s \<Longrightarrow> usable_end s' = usable_end s"
  by (simp add: usable_end_def heap_end_def)

lemma demo_heap_ok:
  assumes "24 \<le> unat cap" and "unat cap < 100000"
  shows "heap_ok (demo_heap cap) []" and "usable_end (demo_heap cap) = unat (heap_end (demo_heap cap))"
proof -
  have "unat (0x1000 + cap) = 0x1000 + unat cap" using assms(2) by (subst unat_plus_small) simp_all
  then show e: "usable_end (demo_heap cap) = unat (heap_end (demo_heap cap))"
    using assms by (simp add: usable_end_def demo_heap_fields VIDEO_MEMORY_def)
  show "heap_ok (demo_heap cap) []"
    unfolding demo_heap_def by (rule initialize_heap_ok) (use assms in \<open>simp_all add: VIDEO_MEMORY_def\<close>)
qed

section \<open>The interface again\<close>

lemma reserve_alloc:
  fixes s :: "'a heap_state_scheme"
  assumes ok: "heap_ok s bs" and N: "reserve s bs N" and le: "unat n + 12 \<le> N"
  shows "\<exists>p s' bs'. ralloc n s = Inr (p, s') \<and> heap_ok s' bs' \<and> reserve s' bs' (N - (unat n + 12)) \<and>
    mset bs' = add_mset (p, n) (mset bs) \<and> p \<noteq> nullptr \<and> unat p + unat n < 4294967296 \<and>
    (\<exists>m. s' = s\<lparr>mem := m\<rparr>) \<and> (\<forall>x. held_byte s bs x \<longrightarrow> mem s' x = mem s x) \<and>
    (\<forall>x. in_range p (unat n) x \<longrightarrow> \<not> held_byte s bs x) \<and>
    (\<forall>x. held_byte s' bs' x \<longleftrightarrow> held_byte s bs x \<or> in_range p (unat n) x)"
proof -
  note inv = heap_invD [OF heap_okD(1) [OF ok]]
  let ?lo = "heap_start s" and ?hi = "heap_end s"
  have last: "room_at ?lo ?hi bs (length bs) n" using reserve_room [OF reserve_mono [OF N le]] .
  then have "unat n + 12 < 4294967296" using unat_lt32 [of ?hi] by (simp add: room_at_def)
  from ralloc_room [OF heap_okD(1) [OF ok] this last] obtain i where room: "room_at ?lo ?hi bs i n"
    and eq: "ralloc n s = Inr (gap_word ?lo bs i + header_size, place_block n bs i s)" by blast
  have i: "i \<le> length bs" using room by (simp add: room_at_def)
  define p where "p = gap_word ?lo bs i + header_size"
  note pl = place_block_inv [OF heap_okD(1) [OF ok] room, folded p_def]
  have p: "unat p = gap_begin (unat ?lo) bs i + 12"
    using room_facts(1,2) [OF inv(2) room refl] by (simp add: p_def)
  have fit: "unat p + unat n \<le> usable_end s"
  proof (cases "i = length bs")
    case True
    then show ?thesis using N le p by (simp add: reserve_def)
  next
    case False
    then have k: "i < length bs" using i by simp
    have "unat p + unat n \<le> unat (fst (bs ! i))" using room k p by (simp add: room_at_def)
    then show ?thesis using block_below_last [OF inv(2) k] heap_okD(2) [OF ok] by linarith
  qed
  have last_begin: "gap_begin (unat ?lo) (insert_block i (p, n) bs) (length (insert_block i (p, n) bs)) =
    (if i = length bs then unat p + unat n else gap_begin (unat ?lo) bs (length bs))"
    using i by (auto simp: length_insert_block gap_begin_insert simp del: gap_begin_Suc)
  have usable: "usable_end (place_block n bs i s) = usable_end s"
    using pl(3,5) by (auto simp: usable_end_def)
  have hdr: "header (place_block n bs i s) = header s" using pl(3) by auto
  have split: "in_range (block_header p) (unat n + 12) x \<longleftrightarrow> in_header p x \<or> in_range p (unat n) x" for x
    using in_range_append [of 12 "unat n" "block_header p" x] \<open>unat n + 12 < 4294967296\<close>
    by (simp add: in_header_def block_header_def add.commute)
  have new: "\<not> held_byte s bs x" if h: "in_header p x \<or> in_range p (unat n) x" for x
  proof -
    have "\<not> client_byte s bs x"
      using payload_not_client [OF heap_okD(1) [OF ok] room _ p_def] h split by blast
    moreover have "unat x < usable_end s"
    proof -
      have "12 \<le> unat p" using p by simp
      then have "unat x < unat p + unat n"
        using h fit usable_end_le [of s] unat_lt32 [of ?hi] in_header_linear [of p x] in_range_linear [of p "unat n" x] by auto
      then show ?thesis using fit by linarith
    qed
    ultimately show ?thesis by (auto simp: held_byte_def client_byte_def in_heap_area_def)
  qed
  have keep: "mem (place_block n bs i s) x = mem s x" if "held_byte s bs x" for x
  proof (rule pl(2))
    show "\<not> meta (header s) (insert_block i (p, n) bs) x"
      using held_byte_not_meta [OF ok that] new [of x] that i by (auto simp: meta_def set_insert_block)
  qed
  have "heap_ok (place_block n bs i s) (insert_block i (p, n) bs)"
    using pl(1) fit heap_okD(2) [OF ok] unfolding heap_ok_def pl(4) last_begin usable by simp
  moreover have "reserve (place_block n bs i s) (insert_block i (p, n) bs) (N - (unat n + 12))"
  proof (cases "i = length bs")
    case True
    then show ?thesis using N le p unfolding reserve_def pl(4) last_begin usable by simp
  next
    case False
    then show ?thesis using N le unfolding reserve_def pl(4) last_begin usable by simp
  qed
  moreover have "held_byte (place_block n bs i s) (insert_block i (p, n) bs) x \<longleftrightarrow> held_byte s bs x \<or> in_range p (unat n) x" for x
    using i by (auto simp: held_byte_def usable hdr in_payload_def set_insert_block)
  moreover have "p \<noteq> nullptr" using p by auto
  moreover have "unat p + unat n < 4294967296" using fit usable_end_le [of s] unat_lt32 [of ?hi] by linarith
  ultimately show ?thesis
    using eq pl(3) keep new mset_insert_block unfolding p_def [symmetric] by blast
qed

lemma reserve_release:
  fixes s :: "'a heap_state_scheme"
  assumes ok: "heap_ok s bs" and live: "(p, n) \<in> set bs"
  shows "\<exists>s' bs'. unalloc p s = Inr ((), s') \<and> heap_ok s' bs' \<and> (\<forall>N. reserve s bs N \<longrightarrow> reserve s' bs' N) \<and>
    mset bs = add_mset (p, n) (mset bs') \<and> (\<exists>m. s' = s\<lparr>mem := m\<rparr>) \<and>
    (\<forall>x. held_byte s bs x \<longrightarrow> mem s' x = mem s x) \<and>
    (\<forall>x. held_byte s' bs' x \<longleftrightarrow> held_byte s bs x \<and> \<not> in_range p (unat n) x)"
proof -
  note inv = heap_invD [OF heap_okD(1) [OF ok]]
  from live obtain i where i: "i < length bs" "bs ! i = (p, n)" by (auto simp: in_set_conv_nth)
  note dr = drop_block_inv [OF heap_okD(1) [OF ok] i(1)]
  let ?bs = "remove_block i bs" and ?s = "drop_block bs i s" and ?lo = "unat (heap_start s)"
  have usable: "usable_end ?s = usable_end s" and hdr: "header ?s = header s"
    using dr(3,5) by (auto simp: usable_end_def)
  have last_begin: "gap_begin ?lo ?bs (length ?bs) \<le> gap_begin ?lo bs (length bs)"
  proof (cases "i = length bs - 1")
    case True
    then have "gap_begin ?lo ?bs (length ?bs) = gap_begin ?lo bs i"
      using i(1) by (simp add: length_remove_block gap_begin_remove del: gap_begin_Suc)
    also have "\<dots> \<le> gap_begin ?lo bs (length bs)"
      using layoutD [OF inv(2), of i] i(1) block_below_last [OF inv(2) i(1)] by simp
    finally show ?thesis .
  next
    case False
    then have "length bs = Suc (length ?bs)" "i < length ?bs" using i(1) by (simp_all add: length_remove_block)
    then show ?thesis using i(1) by (simp add: gap_begin_remove del: gap_begin_Suc)
  qed
  have area: "unat p + unat n \<le> usable_end s" "unat (header s) \<le> unat p"
    using block_below_last [OF inv(2) i(1)] layout_bounds(1) [OF inv(2) i(1)] heap_okD(2) [OF ok] i(2) inv(1) by simp_all
  have pay: "in_range p (unat n) x \<Longrightarrow> \<not> (unat x < unat (header s) \<or> usable_end s \<le> unat x)" for x
    using area usable_end_le [of s] unat_lt32 [of "heap_end s"] in_range_linear [of p "unat n" x] by auto
  have "held_byte ?s ?bs x \<longleftrightarrow> held_byte s bs x \<and> \<not> in_range p (unat n) x" for x
    using in_payload_remove [OF heap_okD(1) [OF ok] i(1), of x] pay [of x] i(2) by (auto simp: held_byte_def usable hdr)
  moreover have "unalloc p s = Inr ((), ?s)" using unalloc_eq [OF heap_okD(1) [OF ok] i(1)] i(2) by simp
  moreover have "heap_ok ?s ?bs" "\<And>N. reserve s bs N \<Longrightarrow> reserve ?s ?bs N"
    using dr(1) heap_okD(2) [OF ok] last_begin unfolding heap_ok_def reserve_def dr(4) usable by auto
  moreover have "mset bs = add_mset (p, n) (mset ?bs)" using mset_remove_block [OF i(1)] i(2) by simp
  moreover have "mem ?s x = mem s x" if "held_byte s bs x" for x using held_byte_not_meta [OF ok that] by (rule dr(2))
  ultimately show ?thesis using dr(3) by blast
qed

text \<open>
  The allocator keeps the bounds of its area, and the list of blocks is determined by the set of
  blocks: so when every block of a computation has been released, the heap is as it was.
\<close>

locale placed_allocator = allocator +
  fixes area :: "'a \<Rightarrow> 'b"
  assumes alloc_area: "wf s bs \<Longrightarrow> budget s bs N \<Longrightarrow> unat n + 12 \<le> N \<Longrightarrow> alloc n s = Inr (p, s') \<Longrightarrow> area s' = area s"
    and release_area: "wf s bs \<Longrightarrow> (p, n) \<in> set bs \<Longrightarrow> release p s = Inr ((), s') \<Longrightarrow> area s' = area s"
    and write_area: "wf s bs \<Longrightarrow> \<forall>x. \<not> client s bs x \<longrightarrow> m x = byte_at s x \<Longrightarrow> area (with_bytes m s) = area s"
    and budget_area: "area s' = area s \<Longrightarrow> budget s' bs N \<longleftrightarrow> budget s bs N"
    and blocks_unique: "wf s bs \<Longrightarrow> wf s' bs' \<Longrightarrow> mset bs' = mset bs \<Longrightarrow> bs' = bs"
begin

lemma budget_restored:
  assumes "wf s bs" and "wf s' bs'" and "mset bs' = mset bs" and "area s' = area s" and "budget s bs N"
  shows "bs' = bs" and "budget s' bs' N"
  using blocks_unique [OF assms(1-3)] budget_area [OF assms(4)] assms(5) by simp_all

end

definition heap_area :: "'a heap_state_scheme \<Rightarrow> addr \<times> addr \<times> addr" where
  "heap_area s = (header s, heap_start s, heap_end s)"

lemma ralloc_area:
  assumes "heap_ok s bs" and "reserve s bs N" and "unat n + 12 \<le> N" and "ralloc n s = Inr (p, s')"
  shows "heap_area s' = heap_area s"
proof -
  have last: "room_at (heap_start s) (heap_end s) bs (length bs) n" using reserve_room [OF reserve_mono [OF assms(2,3)]] .
  then have "unat n + 12 < 4294967296" using unat_lt32 [of "heap_end s"] by (simp add: room_at_def)
  from ralloc_room [OF heap_okD(1) [OF assms(1)] this last] obtain i where
    room: "room_at (heap_start s) (heap_end s) bs i n" and s': "s' = place_block n bs i s" using assms(4) by auto
  note pl = place_block_inv(3-5) [OF heap_okD(1) [OF assms(1)] room]
  have "header s' = header s" using pl(1) s' by auto
  then show ?thesis using pl(2,3) s' by (simp add: heap_area_def)
qed

lemma unalloc_area:
  assumes "heap_ok s bs" and "(p, n) \<in> set bs" and "unalloc p s = Inr ((), s')"
  shows "heap_area s' = heap_area s"
proof -
  from assms(2) obtain i where i: "i < length bs" "bs ! i = (p, n)" by (auto simp: in_set_conv_nth)
  then have "s' = drop_block bs i s" using unalloc_eq [OF heap_okD(1) [OF assms(1)] i(1)] assms(3) by simp
  then show ?thesis using drop_block_inv(3-5) [OF heap_okD(1) [OF assms(1)] i(1)] by (auto simp: heap_area_def)
qed

lemma sorted_blocks: "layout lo hi bs \<Longrightarrow> sorted_wrt (\<lambda>b c. unat (fst b) < unat (fst c)) bs"
  unfolding sorted_wrt_iff_nth_less using layout_order [of lo hi bs] by fastforce

lemma same_blocks:
  assumes "heap_ok s bs" and "heap_ok s' bs'" and "mset bs' = mset bs"
  shows "bs' = bs"
proof -
  have "sorted_wrt (\<lambda>b c. unat (fst b) < unat (fst c)) bs" "sorted_wrt (\<lambda>b c. unat (fst b) < unat (fst c)) bs'"
    using sorted_blocks heap_invD(2) heap_okD(1) assms(1,2) by blast+
  then have "sorted_wrt (<) (map (unat \<circ> fst) bs)" "sorted_wrt (<) (map (unat \<circ> fst) bs')"
    by (simp_all add: sorted_wrt_map)
  then have sorted: "sorted (map (unat \<circ> fst) bs)" "sorted (map (unat \<circ> fst) bs')" and "distinct (map (unat \<circ> fst) bs)"
    by (simp_all add: strict_sorted_iff)
  moreover have "mset (map (unat \<circ> fst) bs') = mset (map (unat \<circ> fst) bs)" using assms(3) by simp
  ultimately have "map (unat \<circ> fst) bs' = map (unat \<circ> fst) bs"
    by (metis properties_for_sort)
  moreover have "set bs' = set bs" using assms(3) by (rule mset_eq_setD)
  moreover have "inj_on (unat \<circ> fst) (set bs)" using \<open>distinct (map (unat \<circ> fst) bs)\<close> by (simp only: distinct_map)
  ultimately show ?thesis using inj_on_map_eq_map [of "unat \<circ> fst" bs' bs] by simp
qed

interpretation low_heap: placed_allocator heap_ok held_byte reserve mem "\<lambda>m s. s\<lparr>mem := m\<rparr>" ralloc unalloc heap_area
proof unfold_locales
  fix s s' :: "'a heap_state_scheme" and bs bs' m N
  show "heap_ok (s\<lparr>mem := m\<rparr>) bs \<and> mem (s\<lparr>mem := m\<rparr>) = m \<and>
      (\<forall>N. reserve (s\<lparr>mem := m\<rparr>) bs N \<longleftrightarrow> reserve s bs N) \<and>
      (\<forall>x. held_byte (s\<lparr>mem := m\<rparr>) bs x \<longleftrightarrow> held_byte s bs x)"
    and "heap_area (s\<lparr>mem := m\<rparr>) = heap_area s"
    if "heap_ok s bs" "\<forall>x. \<not> held_byte s bs x \<longrightarrow> m x = mem s x"
    using held_write [of s bs m] that by (simp_all add: heap_area_def)
  show "reserve s' bs N \<longleftrightarrow> reserve s bs N" if "heap_area s' = heap_area s"
    using that by (simp add: heap_area_def reserve_def usable_end_def)
qed (fact reserve_alloc reserve_release ralloc_area unalloc_area same_blocks)+

end
