(* ===== verification/HeapClient.thy ===== *)
theory HeapClient
  imports HeapReserve
begin

text \<open>
  The view of client code on the heap: \<open>made\<close> says that a call left behind exactly one new block
  and no other change a client can see, \<open>held_string\<close> that a zero-terminated string lies in bytes
  the client holds. The rules chain allocations, writes to the new block and releases; all of
  them rest on the laws of the allocator interface.
\<close>

section \<open>One new block\<close>

definition made :: "'a heap_state_scheme \<Rightarrow> blocks \<Rightarrow> addr \<Rightarrow> u_dword \<Rightarrow> 'a heap_state_scheme \<Rightarrow> blocks \<Rightarrow> bool" where
  "made s bs p n s' bs' \<longleftrightarrow> heap_ok s' bs' \<and> mset bs' = add_mset (p, n) (mset bs) \<and>
     p \<noteq> nullptr \<and> unat p + unat n < 4294967296 \<and> (\<exists>m. s' = s\<lparr>mem := m\<rparr>) \<and>
     (\<forall>x. held_byte s bs x \<longrightarrow> mem s' x = mem s x) \<and>
     (\<forall>x. in_range p (unat n) x \<longrightarrow> \<not> held_byte s bs x) \<and>
     (\<forall>x. held_byte s' bs' x \<longleftrightarrow> held_byte s bs x \<or> in_range p (unat n) x) \<and> heap_area s' = heap_area s"

lemma madeD:
  assumes "made s bs p n s' bs'"
  shows "heap_ok s' bs'" and "mset bs' = add_mset (p, n) (mset bs)" and "p \<noteq> nullptr"
    and "unat p + unat n < 4294967296" and "\<exists>m. s' = s\<lparr>mem := m\<rparr>"
    and "held_byte s bs x \<Longrightarrow> mem s' x = mem s x"
    and "in_range p (unat n) x \<Longrightarrow> \<not> held_byte s bs x"
    and "held_byte s' bs' x \<longleftrightarrow> held_byte s bs x \<or> in_range p (unat n) x"
    and "(p, n) \<in> set bs'" and "heap_area s' = heap_area s"
proof -
  note m = assms [unfolded made_def]
  show "heap_ok s' bs'" and mset: "mset bs' = add_mset (p, n) (mset bs)" and "p \<noteq> nullptr"
    and "unat p + unat n < 4294967296" and "\<exists>m. s' = s\<lparr>mem := m\<rparr>"
    and "held_byte s bs x \<Longrightarrow> mem s' x = mem s x"
    and "in_range p (unat n) x \<Longrightarrow> \<not> held_byte s bs x"
    and "held_byte s' bs' x \<longleftrightarrow> held_byte s bs x \<or> in_range p (unat n) x"
    and "heap_area s' = heap_area s"
    using m by blast+
  show "(p, n) \<in> set bs'" using mset by (metis set_mset_mset union_single_eq_member)
qed

lemma made_alloc:
  assumes "heap_ok s bs" and "reserve s bs N" and "unat n + 12 \<le> N"
  obtains p s' bs' where "ralloc n s = Inr (p, s')" and "made s bs p n s' bs'"
    and "reserve s' bs' (N - (unat n + 12))"
  using low_heap.alloc_law [OF assms] low_heap.alloc_area [OF assms] unfolding made_def by blast

lemma made_write:
  assumes "made s bs p n s' bs'" and out: "\<And>x. \<not> in_range p (unat n) x \<Longrightarrow> m x = mem s' x"
  shows "made s bs p n (s'\<lparr>mem := m\<rparr>) bs'" and "reserve (s'\<lparr>mem := m\<rparr>) bs' N \<longleftrightarrow> reserve s' bs' N"
proof -
  note made = madeD [OF assms(1)]
  have "\<forall>x. \<not> held_byte s' bs' x \<longrightarrow> m x = mem s' x" using made(8) out by blast
  note w = low_heap.write_law [OF made(1) this] and a = low_heap.write_area [OF made(1) this]
  from w show "reserve (s'\<lparr>mem := m\<rparr>) bs' N \<longleftrightarrow> reserve s' bs' N" by blast
  have "m x = mem s x" if "held_byte s bs x" for x
    using made(6,7) out [of x] that by fastforce
  moreover have "\<exists>m'. s'\<lparr>mem := m\<rparr> = s\<lparr>mem := m'\<rparr>" using made(5) by auto
  ultimately show "made s bs p n (s'\<lparr>mem := m\<rparr>) bs'"
    unfolding made_def using w a made(2-4,7,8,10) by auto
qed

text \<open>Releasing an intermediate block after the one that stays was made.\<close>

lemma made_free:
  assumes "made s bs a k s1 bs1" and "made s1 bs1 r n s2 bs2"
  obtains s3 bs3 where "unalloc a s2 = Inr ((), s3)" and "made s bs r n s3 bs3"
    and "\<And>N. reserve s2 bs2 N \<Longrightarrow> reserve s3 bs3 N" and "\<And>x. held_byte s2 bs2 x \<Longrightarrow> mem s3 x = mem s2 x"
proof -
  note m1 = madeD [OF assms(1)] and m2 = madeD [OF assms(2)]
  have a: "(a, k) \<in> set bs2"
    using m1(9) m2(2) by (metis insert_iff set_mset_add_mset_insert set_mset_mset)
  from low_heap.release_law [OF m2(1) a] obtain s3 bs3 where r: "unalloc a s2 = Inr ((), s3)" "heap_ok s3 bs3"
    "\<And>N. reserve s2 bs2 N \<Longrightarrow> reserve s3 bs3 N" "mset bs2 = add_mset (a, k) (mset bs3)" "\<exists>m. s3 = s2\<lparr>mem := m\<rparr>"
    "\<And>x. held_byte s2 bs2 x \<Longrightarrow> mem s3 x = mem s2 x"
    "\<And>x. held_byte s3 bs3 x \<longleftrightarrow> held_byte s2 bs2 x \<and> \<not> in_range a (unat k) x" by blast
  have "mset bs3 = add_mset (r, n) (mset bs)"
    using r(4) m1(2) m2(2) by (simp add: add_mset_commute)
  moreover have "held_byte s3 bs3 x \<longleftrightarrow> held_byte s bs x \<or> in_range r (unat n) x" for x
    using r(7) m1(7,8) m2(7,8) by blast
  moreover have "mem s3 x = mem s x" if "held_byte s bs x" for x
    using that r(6) m1(6,8) m2(6,8) by simp
  moreover have "\<not> held_byte s bs x" if "in_range r (unat n) x" for x
    using that m1(8) m2(7) by blast
  moreover have "\<exists>m. s3 = s\<lparr>mem := m\<rparr>" using m1(5) m2(5) r(5) by fastforce
  moreover have "heap_area s3 = heap_area s"
    using low_heap.release_area [OF m2(1) a r(1)] m1(10) m2(10) by simp
  ultimately have "made s bs r n s3 bs3"
    unfolding made_def using r(2) m2(3,4) by blast
  then show thesis using that r(1,3,6) by blast
qed

lemma made_only:
  assumes "made s bs a k s1 bs1"
  obtains s2 bs2 where "unalloc a s1 = Inr ((), s2)" and "heap_ok s2 bs2" and "mset bs2 = mset bs"
    and "\<exists>m. s2 = s\<lparr>mem := m\<rparr>" and "\<And>N. reserve s1 bs1 N \<Longrightarrow> reserve s2 bs2 N"
    and "\<And>x. held_byte s2 bs2 x \<longleftrightarrow> held_byte s bs x" and "\<And>x. held_byte s bs x \<Longrightarrow> mem s2 x = mem s x"
proof -
  note m = madeD [OF assms]
  from low_heap.release_law [OF m(1) m(9)] obtain s2 bs2 where r: "unalloc a s1 = Inr ((), s2)" "heap_ok s2 bs2"
    "\<And>N. reserve s1 bs1 N \<Longrightarrow> reserve s2 bs2 N" "mset bs1 = add_mset (a, k) (mset bs2)" "\<exists>m. s2 = s1\<lparr>mem := m\<rparr>"
    "\<And>x. held_byte s1 bs1 x \<Longrightarrow> mem s2 x = mem s1 x"
    "\<And>x. held_byte s2 bs2 x \<longleftrightarrow> held_byte s1 bs1 x \<and> \<not> in_range a (unat k) x" by blast
  show thesis
  proof (rule that [OF r(1,2) _ _ r(3)])
    show "mset bs2 = mset bs" using r(4) m(2) by simp
    show "\<exists>m. s2 = s\<lparr>mem := m\<rparr>" using r(5) m(5) by fastforce
    show "held_byte s2 bs2 x \<longleftrightarrow> held_byte s bs x" for x using r(7) m(7,8) by blast
    show "mem s2 x = mem s x" if "held_byte s bs x" for x using that r(6) m(6,8) by simp
  qed
qed

section \<open>Strings in bytes the client holds\<close>

definition held_string :: "'a heap_state_scheme \<Rightarrow> blocks \<Rightarrow> addr \<Rightarrow> u_byte list \<Rightarrow> bool" where
  "held_string s bs p xs \<longleftrightarrow> cstring (mem s) p xs \<and> (\<forall>i \<le> length xs. held_byte s bs (p + of_nat i))"

lemma held_string_frame:
  assumes "held_string s bs p xs" and "\<And>x. held_byte s bs x \<Longrightarrow> held_byte s' bs' x \<and> mem s' x = mem s x"
  shows "held_string s' bs' p xs"
  using assms cstring_cong [of xs "mem s'" p "mem s"] by (simp add: held_string_def)

lemma held_string_made: "held_string s bs q ys \<Longrightarrow> made s bs p n s' bs' \<Longrightarrow> held_string s' bs' q ys"
  by (erule held_string_frame) (simp add: madeD)

lemma made_holds:
  assumes "made s bs p n s' bs'" and "cstring (mem s') p xs" and "length xs < unat n"
  shows "held_string s' bs' p xs"
proof -
  have "in_range p (unat n) (p + of_nat i)" if "i \<le> length xs" for i
    using that assms(3) unat_lt32 [of n] by (subst in_range_offset) auto
  then show ?thesis using assms(2) madeD(8) [OF assms(1)] by (simp add: held_string_def)
qed

text \<open>The view depends only on the memory and the address of the heap.\<close>

lemma heap_fields_view:
  assumes "mem s' = mem s" and "header s' = header s"
  shows "heap_start s' = heap_start s" and "heap_end s' = heap_end s" and "first_address s' = first_address s"
  using assms by (simp_all add: heap_start_def heap_end_def first_address_def)

lemma heap_view:
  assumes "mem s' = mem s" and "header s' = header s"
  shows "heap_ok s' bs \<longleftrightarrow> heap_ok s bs" and "held_byte s' bs x \<longleftrightarrow> held_byte s bs x"
    and "reserve s' bs N \<longleftrightarrow> reserve s bs N" and "held_string s' bs p xs \<longleftrightarrow> held_string s bs p xs"
    and "heap_area s' = heap_area s"
  using assms heap_fields_view [OF assms] usable_end_view [OF assms]
  by (simp_all add: heap_ok_def heap_inv_def held_byte_def reserve_def held_string_def heap_area_def)

section \<open>Copying into a fresh block\<close>

lemma copy_to_fresh:
  assumes "\<And>i. i < k \<Longrightarrow> \<not> in_range r k (p + of_nat i)" and "k < 4294967296"
  shows "copy_rounds p r k m x = (if in_range r k x then m (p + (x - r)) else m x)"
proof (rule copy_rounds_apply [OF assms(2)], rule ccontr)
  assume "\<not> (r = p \<or> k \<le> unat (r - p))"
  then have "unat (r - p) < k" by simp
  moreover have "p + of_nat (unat (r - p)) = r" by simp
  ultimately show False using assms(1) [of "unat (r - p)"] by (simp add: in_range_def)
qed

lemma copy_to_fresh_at:
  assumes "\<And>i. i < k \<Longrightarrow> \<not> in_range r k (p + of_nat i)" and "k < 4294967296" and "i < k"
  shows "copy_rounds p r k m (r + of_nat i) = m (p + of_nat i)"
  using assms by (simp add: copy_to_fresh in_range_offset)

section \<open>Several new blocks\<close>

text \<open>The same for a multiset of new blocks, so that they can be released in any order.\<close>

definition in_blocks :: "(addr \<times> u_dword) multiset \<Rightarrow> addr \<Rightarrow> bool" where
  "in_blocks A x \<longleftrightarrow> (\<exists>b \<in># A. in_range (fst b) (unat (snd b)) x)"

definition grown :: "'a heap_state_scheme \<Rightarrow> blocks \<Rightarrow> (addr \<times> u_dword) multiset \<Rightarrow> 'a heap_state_scheme \<Rightarrow> blocks \<Rightarrow> bool" where
  "grown s bs A s' bs' \<longleftrightarrow> heap_ok s' bs' \<and> mset bs' = A + mset bs \<and> (\<exists>m. s' = s\<lparr>mem := m\<rparr>) \<and>
     (\<forall>x. held_byte s bs x \<longrightarrow> mem s' x = mem s x) \<and> (\<forall>x. in_blocks A x \<longrightarrow> \<not> held_byte s bs x) \<and>
     (\<forall>x. held_byte s' bs' x \<longleftrightarrow> held_byte s bs x \<or> in_blocks A x) \<and> heap_area s' = heap_area s"

lemma grownD:
  assumes "grown s bs A s' bs'"
  shows "heap_ok s' bs'" and "mset bs' = A + mset bs" and "\<exists>m. s' = s\<lparr>mem := m\<rparr>"
    and "held_byte s bs x \<Longrightarrow> mem s' x = mem s x" and "in_blocks A x \<Longrightarrow> \<not> held_byte s bs x"
    and "held_byte s' bs' x \<longleftrightarrow> held_byte s bs x \<or> in_blocks A x" and "heap_area s' = heap_area s"
  using assms unfolding grown_def by blast+

lemma grown_refl: "heap_ok s bs \<Longrightarrow> grown s bs {#} s bs"
  by (auto simp: grown_def in_blocks_def intro: exI [of _ "mem s"])

lemma grown_made: "made s bs p n s' bs' \<Longrightarrow> grown s bs {#(p, n)#} s' bs'"
  by (auto simp: grown_def in_blocks_def made_def)

lemma made_grown:
  "grown s bs {#(p, n)#} s' bs' \<Longrightarrow> p \<noteq> nullptr \<Longrightarrow> unat p + unat n < 4294967296 \<Longrightarrow> made s bs p n s' bs'"
  by (auto simp: grown_def in_blocks_def made_def)

lemma grown_trans:
  assumes "grown s bs A s1 bs1" and "grown s1 bs1 B s2 bs2"
  shows "grown s bs (A + B) s2 bs2"
proof -
  note a = grownD [OF assms(1)] and b = grownD [OF assms(2)]
  have u: "in_blocks (A + B) x \<longleftrightarrow> in_blocks A x \<or> in_blocks B x" for x
    by (auto simp: in_blocks_def)
  have "\<exists>m. s2 = s\<lparr>mem := m\<rparr>" using a(3) b(3) by fastforce
  moreover have "mset bs2 = A + B + mset bs" using a(2) b(2) by simp
  moreover have "mem s2 x = mem s x" if "held_byte s bs x" for x using that a(4,6) b(4) by simp
  ultimately show ?thesis unfolding grown_def u using a(5,6,7) b(1,5,6,7) by auto
qed

lemma grown_two: "made s bs a k s1 bs1 \<Longrightarrow> made s1 bs1 c l s2 bs2 \<Longrightarrow> grown s bs {#(a, k), (c, l)#} s2 bs2"
  using grown_trans [OF grown_made grown_made] by (fastforce simp: add_mset_commute)

lemma grown_free:
  assumes "grown s bs (add_mset (p, n) A) s' bs'"
  obtains s'' bs'' where "unalloc p s' = Inr ((), s'')" and "grown s bs A s'' bs''"
    and "\<And>N. reserve s' bs' N \<Longrightarrow> reserve s'' bs'' N" and "\<And>x. held_byte s' bs' x \<Longrightarrow> mem s'' x = mem s' x"
proof -
  note g = grownD [OF assms]
  have p: "(p, n) \<in> set bs'" using g(2) by (metis add_mset_add_single set_mset_mset union_iff union_single_eq_member)
  from low_heap.release_law [OF g(1) p] obtain s'' bs'' where r: "unalloc p s' = Inr ((), s'')" "heap_ok s'' bs''"
    "\<And>N. reserve s' bs' N \<Longrightarrow> reserve s'' bs'' N" "mset bs' = add_mset (p, n) (mset bs'')" "\<exists>m. s'' = s'\<lparr>mem := m\<rparr>"
    "\<And>x. held_byte s' bs' x \<Longrightarrow> mem s'' x = mem s' x"
    "\<And>x. held_byte s'' bs'' x \<longleftrightarrow> held_byte s' bs' x \<and> \<not> in_range p (unat n) x" by blast
  have mset: "mset bs'' = A + mset bs" using r(4) g(2) by simp
  have u: "in_blocks (add_mset (p, n) A) x \<longleftrightarrow> in_range p (unat n) x \<or> in_blocks A x" for x
    by (auto simp: in_blocks_def)
  have inA: "held_byte s'' bs'' x" if "in_blocks A x" for x
  proof -
    from that obtain b where "b \<in># A" "in_range (fst b) (unat (snd b)) x" by (auto simp: in_blocks_def)
    moreover from this have "b \<in> set bs''" using mset by (metis set_mset_mset union_iff)
    ultimately show ?thesis by (auto simp: held_byte_def in_payload_def)
  qed
  have "held_byte s'' bs'' x \<longleftrightarrow> held_byte s bs x \<or> in_blocks A x" for x
    using inA [of x] r(7) [of x] g(5) [of x] g(6) [of x] u [of x] by blast
  moreover have "mem s'' x = mem s x" if "held_byte s bs x" for x
    using that g(4,6) r(6) by simp
  moreover have "\<exists>m. s'' = s\<lparr>mem := m\<rparr>" using g(3) r(5) by fastforce
  moreover have "heap_area s'' = heap_area s" using low_heap.release_area [OF g(1) p r(1)] g(7) by simp
  ultimately have "grown s bs A s'' bs''"
    unfolding grown_def using r(2) mset g(5) u by blast
  then show thesis using that r(1,3,6) by blast
qed

text \<open>When every new block is gone, the heap is as it was.\<close>

lemma grown_nothing:
  assumes "grown s bs {#} s' bs'" and "heap_ok s bs"
  shows "bs' = bs" and "reserve s' bs' N \<longleftrightarrow> reserve s bs N"
  using low_heap.blocks_unique [OF assms(2) grownD(1) [OF assms(1)]] low_heap.budget_area [OF grownD(7) [OF assms(1)]]
    grownD(2) [OF assms(1)] by simp_all

lemma held_string_grown: "held_string s bs q ys \<Longrightarrow> grown s bs A s' bs' \<Longrightarrow> held_string s' bs' q ys"
  by (erule held_string_frame) (simp add: grownD)

end
