(* ===== verification/Strings.thy ===== *)
theory Strings
  imports HeapClient
begin

text \<open>
  \<^verbatim>\<open>lib/base/string.c\<close>: length, search, comparison, substrings, moving and concatenation of
  zero-terminated strings in memory. New strings are blocks of the heap.
\<close>

section \<open>Operations\<close>

text \<open>
  The C type \<^verbatim>\<open>int\<close> is read as an integer of 32 bits; an index that passes \<open>2 ^ 31 - 1\<close> overflows,
  which is the outcome \<open>Undefined\<close>. A loop that steps an index up from zero therefore has exactly
  \<open>2 ^ 31\<close> rounds of fuel.
\<close>

definition int_fuel :: nat where
  "int_fuel = 2 ^ 31"

primrec len_walk :: "nat \<Rightarrow> addr \<Rightarrow> nat \<Rightarrow> 'a machine_scheme \<Rightarrow> ('a machine_scheme, nat) result" where
  "len_walk 0 str i s = Inl (Undefined s)"
| "len_walk (Suc fuel) str i s =
     (if mem s (str + of_nat i) \<noteq> 0 then len_walk fuel str (Suc i) s else Inr (i, s))"

definition len :: "addr \<Rightarrow> 'a machine_scheme \<Rightarrow> ('a machine_scheme, nat) result" where
  "len str s = len_walk int_fuel str 0 s"

primrec first_pos_walk ::
    "nat \<Rightarrow> addr \<Rightarrow> u_byte \<Rightarrow> nat \<Rightarrow> 'a machine_scheme \<Rightarrow> ('a machine_scheme, int) result" where
  "first_pos_walk 0 str ch i s = Inl (Undefined s)"
| "first_pos_walk (Suc fuel) str ch i s =
     (if mem s (str + of_nat i) \<noteq> 0 then
        (if mem s (str + of_nat i) = ch then Inr (int i, s) else first_pos_walk fuel str ch (Suc i) s)
      else Inr (- 1, s))"

definition first_pos :: "addr \<Rightarrow> u_byte \<Rightarrow> 'a machine_scheme \<Rightarrow> ('a machine_scheme, int) result" where
  "first_pos str ch s = first_pos_walk int_fuel str ch 0 s"

primrec last_pos_walk :: "addr \<Rightarrow> u_byte \<Rightarrow> nat \<Rightarrow> memory \<Rightarrow> int" where
  "last_pos_walk str ch 0 m = - 1"
| "last_pos_walk str ch (Suc i) m =
     (if m (str + of_nat (Suc i)) = ch then int (Suc i) else last_pos_walk str ch i m)"

definition last_pos :: "addr \<Rightarrow> u_byte \<Rightarrow> 'a machine_scheme \<Rightarrow> ('a machine_scheme, int) result" where
  "last_pos str ch s = and_then (len str s) (\<lambda>n s. Inr (last_pos_walk str ch n (mem s), s))"

primrec equals_walk ::
    "nat \<Rightarrow> addr \<Rightarrow> addr \<Rightarrow> nat \<Rightarrow> 'a machine_scheme \<Rightarrow> ('a machine_scheme, bool) result" where
  "equals_walk 0 str1 str2 i s = Inl (Undefined s)"
| "equals_walk (Suc fuel) str1 str2 i s =
     (if mem s (str1 + of_nat i) \<noteq> 0 \<and> mem s (str2 + of_nat i) \<noteq> 0 then
        (if mem s (str1 + of_nat i) = mem s (str2 + of_nat i) then equals_walk fuel str1 str2 (Suc i) s
         else Inr (False, s))
      else Inr (mem s (str1 + of_nat i) = 0 \<and> mem s (str2 + of_nat i) = 0, s))"

definition equals :: "addr \<Rightarrow> addr \<Rightarrow> 'a machine_scheme \<Rightarrow> ('a machine_scheme, bool) result" where
  "equals str1 str2 s = equals_walk int_fuel str1 str2 0 s"

text \<open>
  The loops that copy characters to a new block are \<open>copy_rounds\<close>: round \<open>k\<close> moves byte \<open>k\<close> of the
  source to byte \<open>k\<close> of the destination.
\<close>

definition substring_mid ::
    "addr \<Rightarrow> int \<Rightarrow> int \<Rightarrow> 'a heap_state_scheme \<Rightarrow> ('a heap_state_scheme, addr) result" where
  "substring_mid str b e s =
     (if \<not> (- (2 ^ 31) \<le> e - b \<and> e - b + 1 < 2 ^ 31) then Inl (Undefined s)
      else and_then (ralloc (word_of_int (e - b + 1)) s) (\<lambda>result s.
        (let m = copy_rounds (str + word_of_int b) result (nat (e - b)) (mem s);
             m = m(result + word_of_int (e - b) := 0)
         in Inr (result, s\<lparr>mem := m\<rparr>))))"

definition substring_beg :: "addr \<Rightarrow> int \<Rightarrow> 'a heap_state_scheme \<Rightarrow> ('a heap_state_scheme, addr) result" where
  "substring_beg str b s = and_then (len str s) (\<lambda>n s. substring_mid str b (int n) s)"

definition substring_end :: "addr \<Rightarrow> int \<Rightarrow> 'a heap_state_scheme \<Rightarrow> ('a heap_state_scheme, addr) result" where
  "substring_end str e s = substring_mid str 0 e s"

text \<open>
  \<^verbatim>\<open>move_string_by\<close>: round \<open>k\<close> of the \<^verbatim>\<open>do\<close> loop has \<open>i = step + k\<close>; it stores before it tests, and
  tests the memory after the store.
\<close>

primrec move_walk ::
    "nat \<Rightarrow> addr \<Rightarrow> int \<Rightarrow> nat \<Rightarrow> 'a machine_scheme \<Rightarrow> ('a machine_scheme, unit) result" where
  "move_walk 0 str step k s = Inl (Undefined s)"
| "move_walk (Suc fuel) str step k s =
     (let i = str + word_of_int (step + int k);
          s = s\<lparr>mem := (mem s)(str + of_nat k := mem s i)\<rparr>
      in if mem s i \<noteq> 0 then move_walk fuel str step (Suc k) s
         else Inr ((), s\<lparr>mem := (mem s)(str + of_nat (Suc k) := 0)\<rparr>))"

definition move_string_by :: "addr \<Rightarrow> int \<Rightarrow> 'a machine_scheme \<Rightarrow> ('a machine_scheme, unit) result" where
  "move_string_by str step s = move_walk (nat (2 ^ 31 - step)) str step 0 s"

definition concatenate :: "addr \<Rightarrow> addr \<Rightarrow> 'a heap_state_scheme \<Rightarrow> ('a heap_state_scheme, addr) result" where
  "concatenate str1 str2 s =
     and_then (len str1 s) (\<lambda>n1 s. and_then (len str2 s) (\<lambda>n2 s.
       if n1 + n2 + 1 \<ge> 2 ^ 31 then Inl (Undefined s)
       else and_then (ralloc (of_nat (n1 + n2 + 1)) s) (\<lambda>result s.
         (let m = copy_rounds str1 result n1 (mem s);
              m = copy_rounds str2 (result + of_nat n1) n2 m;
              m = m(result + of_nat (n1 + n2) := 0)
          in Inr (result, s\<lparr>mem := m\<rparr>)))))"

section \<open>Reading strings\<close>

lemma cstring_nth:
  assumes "cstring m p xs" and "i \<le> length xs"
  shows "m (p + of_nat i) = (xs @ [0]) ! i" and "(xs @ [0]) ! i = 0 \<longleftrightarrow> i = length xs"
proof -
  show "m (p + of_nat i) = (xs @ [0]) ! i"
    using assms by (cases "i = length xs") (auto simp: cstring_iff nth_append)
  show "(xs @ [0]) ! i = 0 \<longleftrightarrow> i = length xs"
  proof (cases "i = length xs")
    case False
    then have "i < length xs" using assms(2) by simp
    then have "xs ! i \<in> set xs" by simp
    then have "xs ! i \<noteq> 0" using assms(1) by (metis cstring_iff)
    then show ?thesis using \<open>i < length xs\<close> by (simp add: nth_append)
  qed simp
qed

lemma len_walk_eq:
  assumes "cstring (mem s) str xs" and "i \<le> length xs" and "length xs - i < fuel"
  shows "len_walk fuel str i s = Inr (length xs, s)"
  using assms(2,3)
proof (induction fuel arbitrary: i)
  case (Suc fuel)
  show ?case
    using cstring_nth [OF assms(1) Suc.prems(1)] Suc.IH [of "Suc i"] Suc.prems
    by (cases "i = length xs") auto
qed simp

lemma len_eq: "cstring (mem s) str xs \<Longrightarrow> length xs < 2 ^ 31 \<Longrightarrow> len str s = Inr (length xs, s)"
  using len_walk_eq [of s str xs 0 int_fuel] by (simp add: len_def int_fuel_def)

definition index_of :: "u_byte \<Rightarrow> u_byte list \<Rightarrow> int" where
  "index_of c xs = (if c \<in> set xs then int (length (takeWhile (\<lambda>x. x \<noteq> c) xs)) else - 1)"

lemma first_pos_walk_eq:
  assumes "cstring (mem s) str xs" and "i \<le> length xs" and "length xs - i < fuel"
    and "c \<notin> set (take i xs)"
  shows "first_pos_walk fuel str c i s = Inr (index_of c xs, s)"
  using assms(2-4)
proof (induction fuel arbitrary: i)
  case (Suc fuel)
  note at = cstring_nth [OF assms(1) Suc.prems(1)]
  show ?case
  proof (cases "i = length xs")
    case True
    then show ?thesis using at Suc.prems(3) by (simp add: index_of_def)
  next
    case False
    then have i: "i < length xs" and x: "(xs @ [0]) ! i = xs ! i" using Suc.prems(1) by (auto simp: nth_append)
    show ?thesis
    proof (cases "xs ! i = c")
      case True
      have "takeWhile (\<lambda>x. x \<noteq> c) xs = take i xs"
        using i True Suc.prems(3) by (intro takeWhile_eq_take_P_nth) (auto simp: in_set_conv_nth)
      then have "index_of c xs = int i"
        using i True nth_mem [OF i] by (simp add: index_of_def)
      then show ?thesis using at False True x by simp
    next
      case ne: False
      have "c \<notin> set (take (Suc i) xs)" using Suc.prems(3) ne i by (simp add: take_Suc_conv_app_nth)
      then show ?thesis
        using at False ne x Suc.IH [of "Suc i"] Suc.prems(2) i by simp
    qed
  qed
qed simp

lemma equals_walk_eq:
  assumes "cstring (mem s) p xs" and "cstring (mem s) q ys" and "i \<le> length xs" and "i \<le> length ys"
    and "take i xs = take i ys" and "length xs - i < fuel"
  shows "equals_walk fuel p q i s = Inr (xs = ys, s)"
  using assms(3-6)
proof (induction fuel arbitrary: i)
  case (Suc fuel)
  note at = cstring_nth [OF assms(1) Suc.prems(1)] and at' = cstring_nth [OF assms(2) Suc.prems(2)]
  show ?case
  proof (cases "i = length xs \<or> i = length ys")
    case True
    then have "xs = ys \<longleftrightarrow> i = length xs \<and> i = length ys"
      using Suc.prems(3) True by (metis take_all order_refl)
    moreover have "mem s (p + of_nat i) = 0 \<longleftrightarrow> i = length xs" "mem s (q + of_nat i) = 0 \<longleftrightarrow> i = length ys"
      unfolding at(1) at'(1) by (rule at(2), rule at'(2))
    ultimately show ?thesis using True by (auto simp only: equals_walk.simps split: if_splits)
  next
    case False
    then have i: "i < length xs" "i < length ys" using Suc.prems(1,2) by auto
    then have x: "(xs @ [0]) ! i = xs ! i" "(ys @ [0]) ! i = ys ! i" by (simp_all add: nth_append)
    show ?thesis
    proof (cases "xs ! i = ys ! i")
      case True
      then have "take (Suc i) xs = take (Suc i) ys"
        using i Suc.prems(3) by (simp add: take_Suc_conv_app_nth)
      then show ?thesis using at at' x False True i Suc.IH [of "Suc i"] Suc.prems(4) by simp
    next
      case ne: False
      then show ?thesis using at at' x False by auto
    qed
  qed
qed simp

section \<open>New strings\<close>

lemma in_range_shorter: "in_range r k x \<Longrightarrow> k \<le> n \<Longrightarrow> in_range r n x"
  by (simp add: in_range_def)

text \<open>
  Two pieces copied one behind the other into a fresh block, and the terminator: the shape of
  \<^verbatim>\<open>concatenate\<close>, and with an empty second piece of \<^verbatim>\<open>substring_mid\<close> and \<^verbatim>\<open>const_to_string\<close>.
\<close>

definition two_pieces :: "addr \<Rightarrow> nat \<Rightarrow> addr \<Rightarrow> nat \<Rightarrow> addr \<Rightarrow> memory \<Rightarrow> memory" where
  "two_pieces p a q b r m =
     (copy_rounds q (r + of_nat a) b (copy_rounds p r a m))(r + of_nat (a + b) := 0)"

lemma two_pieces_eq:
  assumes p: "\<And>i. i < a \<Longrightarrow> \<not> in_range r (Suc (a + b)) (p + of_nat i)"
    and q: "\<And>i. i < b \<Longrightarrow> \<not> in_range r (Suc (a + b)) (q + of_nat i)" and small: "a + b < 4294967295"
  shows "i < a \<Longrightarrow> two_pieces p a q b r m (r + of_nat i) = m (p + of_nat i)"
    and "i < b \<Longrightarrow> two_pieces p a q b r m (r + of_nat (a + i)) = m (q + of_nat i)"
    and "two_pieces p a q b r m (r + of_nat (a + b)) = 0"
    and "\<not> in_range r (Suc (a + b)) x \<Longrightarrow> two_pieces p a q b r m x = m x"
proof -
  have first: "copy_rounds p r a m x = (if in_range r a x then m (p + (x - r)) else m x)" for x
    using p small in_range_shorter [of r a _ "Suc (a + b)"] by (intro copy_to_fresh) auto
  have app: "in_range r (a + b) x \<longleftrightarrow> in_range r a x \<or> in_range (r + of_nat a) b x" for x
    using small by (intro in_range_append) simp
  have "copy_rounds q (r + of_nat a) b (copy_rounds p r a m) x =
      (if in_range (r + of_nat a) b x then copy_rounds p r a m (q + (x - (r + of_nat a))) else copy_rounds p r a m x)" for x
    using q small app in_range_shorter [of r "a + b" _ "Suc (a + b)"] by (intro copy_to_fresh) auto
  then have two: "two_pieces p a q b r m x = (if x = r + of_nat (a + b) then 0
      else if in_range (r + of_nat a) b x then copy_rounds p r a m (q + (x - (r + of_nat a)))
      else if in_range r a x then m (p + (x - r)) else m x)" for x
    by (simp add: two_pieces_def first)
  have pos: "r + of_nat i = r + of_nat j \<longleftrightarrow> i = j" if "i \<le> a + b" "j \<le> a + b" for i j
  proof -
    have "unat (of_nat i :: u_dword) = i" "unat (of_nat j :: u_dword) = j"
      using that small by (simp_all add: unat_of_nat)
    then show ?thesis by (metis add_left_cancel)
  qed
  have tail: "in_range (r + of_nat a) b (r + of_nat (a + i)) \<longleftrightarrow> i < b" if "i \<le> b" for i
    using that small in_range_offset [of i "r + of_nat a" b] by (simp add: add.assoc)
  have head: "\<not> in_range (r + of_nat a) b (r + of_nat i)" if "i < a" for i
  proof
    assume "in_range (r + of_nat a) b (r + of_nat i)"
    then have "unat (r + of_nat i - r) = a + unat (r + of_nat i - (r + of_nat a))"
      using small by (intro in_range_append_offset) auto
    then show False using that small by (simp add: unat_of_nat)
  qed
  show "two_pieces p a q b r m (r + of_nat i) = m (p + of_nat i)" if "i < a"
    using that small head [OF that] pos [of i "a + b"] by (simp add: two in_range_offset)
  show "two_pieces p a q b r m (r + of_nat (a + i)) = m (q + of_nat i)" if "i < b"
  proof -
    have "\<not> in_range r a (q + of_nat i)"
      using q [OF that] in_range_shorter [of r a _ "Suc (a + b)"] by auto
    then show ?thesis
      using that tail [of i] pos [of "a + i" "a + b"] first [of "q + of_nat i"]
      by (simp add: two)
  qed
  show "two_pieces p a q b r m (r + of_nat (a + b)) = 0" by (simp add: two)
  show "two_pieces p a q b r m x = m x" if out: "\<not> in_range r (Suc (a + b)) x"
    using out in_range_Suc [of "a + b" r x] small app two by auto
qed

lemma two_pieces_string:
  assumes "held_string s bs p (xs @ us)" and "held_string s bs q (ys @ vs)"
    and "made s bs r n s' bs'" and n: "unat n = length xs + length ys + 1"
  defines "m \<equiv> two_pieces p (length xs) q (length ys) r (mem s')"
  shows "cstring m r (xs @ ys)" and "\<not> in_range r (unat n) x \<Longrightarrow> m x = mem s' x"
proof -
  note made = madeD [OF assms(3)]
  have small: "length xs + length ys < 4294967295" using n made(4) by simp
  have keep: "\<not> in_range r (Suc (length xs + length ys)) (a + of_nat i)" "mem s' (a + of_nat i) = (zs @ ws) ! i"
    if "held_string s bs a (zs @ ws)" "i < length zs" for a zs ws i
  proof -
    have "held_byte s bs (a + of_nat i)" using that by (simp add: held_string_def)
    then show "\<not> in_range r (Suc (length xs + length ys)) (a + of_nat i)"
      using made(7) n by auto
    show "mem s' (a + of_nat i) = (zs @ ws) ! i"
      using made(6) [OF \<open>held_byte s bs (a + of_nat i)\<close>] that by (simp add: held_string_def cstring_iff)
  qed
  note eq = two_pieces_eq [where m = "mem s'" and p = p and q = q and r = r,
      OF keep(1) [OF assms(1)] keep(1) [OF assms(2)] small, folded m_def]
  show "m x = mem s' x" if "\<not> in_range r (unat n) x"
    using that eq(4) n by simp
  have "m (r + of_nat i) = (xs @ ys) ! i" if i: "i < length (xs @ ys)" for i
  proof (cases "i < length xs")
    case True
    then show ?thesis using eq(1) [of i] keep(2) [OF assms(1), of i] by (simp add: nth_append)
  next
    case False
    then obtain j where "i = length xs + j" "j < length ys"
      using i by (metis add_diff_inverse_nat length_append nat_add_left_cancel_less)
    then show ?thesis using eq(2) [of j] keep(2) [OF assms(2), of j] by (simp add: nth_append)
  qed
  moreover have "m (r + of_nat (length (xs @ ys))) = 0" using eq(3) by simp
  moreover have "0 \<notin> set (xs @ ys)"
    using assms(1,2) by (auto simp: held_string_def cstring_iff)
  ultimately show "cstring m r (xs @ ys)" unfolding cstring_iff by blast
qed

lemma pieces_made:
  assumes "heap_ok s bs" and "held_string s bs p (xs @ us)" and "held_string s bs q (ys @ vs)"
    and n: "unat n = length xs + length ys + 1" and N: "reserve s bs N" "length xs + length ys + 13 \<le> N"
  obtains r s1 bs' where "ralloc n s = Inr (r, s1)"
    and "made s bs r n (s1\<lparr>mem := two_pieces p (length xs) q (length ys) r (mem s1)\<rparr>) bs'"
    and "reserve (s1\<lparr>mem := two_pieces p (length xs) q (length ys) r (mem s1)\<rparr>) bs' (N - (length xs + length ys + 13))"
    and "cstring (two_pieces p (length xs) q (length ys) r (mem s1)) r (xs @ ys)"
proof -
  have "unat n + 12 \<le> N" using N(2) unfolding n by simp
  from made_alloc [OF assms(1) N(1) this] obtain r s1 bs1 where a: "ralloc n s = Inr (r, s1)"
    "made s bs r n s1 bs1" "reserve s1 bs1 (N - (unat n + 12))" .
  note str = two_pieces_string [OF assms(2,3) a(2) n]
  note w = made_write [of s bs r n s1 bs1, OF a(2) str(2)]
  have "unat n + 12 = length xs + length ys + 13" unfolding n by simp
  with a(3) w(2) have "reserve (s1\<lparr>mem := two_pieces p (length xs) q (length ys) r (mem s1)\<rparr>) bs1 (N - (length xs + length ys + 13))"
    by metis
  from that [OF a(1) w(1) this str(1)] show thesis .
qed

lemma concatenate_made:
  assumes "heap_ok s bs" and "held_string s bs p xs" and "held_string s bs q ys"
    and small: "length xs + length ys + 1 < 2 ^ 31" and N: "reserve s bs N" "length xs + length ys + 13 \<le> N"
  obtains r s' bs' where "concatenate p q s = Inr (r, s')"
    and "made s bs r (of_nat (length xs + length ys + 1)) s' bs'"
    and "reserve s' bs' (N - (length xs + length ys + 13))" and "cstring (mem s') r (xs @ ys)"
proof -
  let ?n = "of_nat (length xs + length ys + 1) :: u_dword"
  have n: "unat ?n = length xs + length ys + 1" using small by (intro unat_of_nat32) simp
  from pieces_made [of s bs p xs "[]" q ys "[]", unfolded append_Nil2, OF assms(1-3) n N]
  obtain r s1 bs' where a: "ralloc ?n s = Inr (r, s1)"
    "made s bs r ?n (s1\<lparr>mem := two_pieces p (length xs) q (length ys) r (mem s1)\<rparr>) bs'"
    "reserve (s1\<lparr>mem := two_pieces p (length xs) q (length ys) r (mem s1)\<rparr>) bs' (N - (length xs + length ys + 13))"
    "cstring (two_pieces p (length xs) q (length ys) r (mem s1)) r (xs @ ys)" .
  have "len p s = Inr (length xs, s)" "len q s = Inr (length ys, s)"
    using assms(2,3) small by (auto simp: held_string_def intro!: len_eq)
  then have "concatenate p q s = Inr (r, s1\<lparr>mem := two_pieces p (length xs) q (length ys) r (mem s1)\<rparr>)"
    using small a(1) by (simp add: concatenate_def two_pieces_def)
  from that [OF this a(2,3)] a(4) show thesis by simp
qed

lemma held_string_suffix:
  assumes "held_string s bs p (us @ ys)"
  shows "held_string s bs (p + of_nat (length us)) ys"
proof -
  have "mem s (p + of_nat (length us) + of_nat i) = (ys @ [0]) ! i" "held_byte s bs (p + of_nat (length us) + of_nat i)"
    if "i \<le> length ys" for i
    using that assms cstring_nth(1) [of "mem s" p "us @ ys" "length us + i"]
    by (simp_all add: held_string_def add.assoc nth_append flip: of_nat_add)
  then show ?thesis
    using assms by (auto simp: held_string_def cstring_iff nth_append)
qed

lemma substring_mid_made:
  assumes "heap_ok s bs" and "held_string s bs p (us @ xs @ vs)"
    and small: "length us + length xs + 1 < 2 ^ 31" and N: "reserve s bs N" "length xs + 13 \<le> N"
  obtains r s' bs' where "substring_mid p (int (length us)) (int (length us + length xs)) s = Inr (r, s')"
    and "made s bs r (of_nat (length xs + 1)) s' bs'"
    and "reserve s' bs' (N - (length xs + 13))" and "cstring (mem s') r xs"
proof -
  let ?n = "of_nat (length xs + 1) :: u_dword" and ?p = "p + of_nat (length us)"
  have n: "unat ?n = length xs + length ([] :: u_byte list) + 1" using small by (subst unat_of_nat32) simp_all
  have "length xs + length ([] :: u_byte list) + 13 \<le> N" using N(2) by simp
  from pieces_made [of s bs ?p xs vs ?p "[]" "xs @ vs", unfolded append_Nil,
      OF assms(1) held_string_suffix [OF assms(2)] held_string_suffix [OF assms(2)] n N(1) this]
  obtain r s1 bs' where a: "ralloc ?n s = Inr (r, s1)"
    "made s bs r ?n (s1\<lparr>mem := two_pieces ?p (length xs) ?p 0 r (mem s1)\<rparr>) bs'"
    "reserve (s1\<lparr>mem := two_pieces ?p (length xs) ?p 0 r (mem s1)\<rparr>) bs' (N - (length xs + 13))"
    "cstring (two_pieces ?p (length xs) ?p 0 r (mem s1)) r xs" by auto
  have "word_of_int (int (length us + length xs) - int (length us) + 1) = ?n" by simp
  then have "substring_mid p (int (length us)) (int (length us + length xs)) s =
      Inr (r, s1\<lparr>mem := two_pieces ?p (length xs) ?p 0 r (mem s1)\<rparr>)"
    using small a(1) by (simp add: substring_mid_def two_pieces_def Let_def add.commute)
  from that [OF this a(2,3)] a(4) show thesis by simp
qed

lemma substring_slice:
  assumes "heap_ok s bs" and "held_string s bs p xs" and "b \<le> e" and "e \<le> length xs"
    and "length xs + 1 < 2 ^ 31" and N: "reserve s bs N" "e - b + 13 \<le> N"
  obtains r s' bs' where "substring_mid p (int b) (int e) s = Inr (r, s')"
    and "made s bs r (of_nat (e - b + 1)) s' bs'" and "reserve s' bs' (N - (e - b + 13))"
    and "cstring (mem s') r (take (e - b) (drop b xs))"
proof -
  let ?ys = "take (e - b) (drop b xs)"
  have ly: "length ?ys = e - b" "length (take b xs) = b" using assms(3,4) by simp_all
  have "xs = take b xs @ ?ys @ drop e xs"
    using assms(3,4) by (metis append_take_drop_id drop_drop le_add_diff_inverse2)
  then have held: "held_string s bs p (take b xs @ ?ys @ drop e xs)" using assms(2) by simp
  have le: "b + (e - b) = e" and small: "e + 1 < 2 ^ 31" using assms(3-5) by simp_all
  from substring_mid_made [OF assms(1) held, unfolded ly le, OF small N] that show thesis by blast
qed

section \<open>Moving a string down\<close>

lemma position_inj:
  "i < 4294967296 \<Longrightarrow> j < 4294967296 \<Longrightarrow> (p :: addr) + of_nat i = p + of_nat j \<longleftrightarrow> i = j"
  by (metis add_left_cancel unat_of_nat32)

lemma move_walk_eq:
  fixes us xs :: "u_byte list"
  defines "ws \<equiv> us @ xs @ [0]"
  assumes us: "us \<noteq> []" and small: "length us + length xs < 4294967295" and zero: "0 \<notin> set xs"
    and "k \<le> length xs" and "length xs - k < fuel" and "\<And>j. j < k \<Longrightarrow> mem s (p + of_nat j) = xs ! j"
    and "\<And>j. k \<le> j \<Longrightarrow> j < length ws \<Longrightarrow> mem s (p + of_nat j) = ws ! j"
  shows "\<exists>s'. move_walk fuel p (int (length us)) k s = Inr ((), s') \<and> cstring (mem s') p xs \<and>
    (\<forall>x. \<not> in_range p (length ws) x \<longrightarrow> mem s' x = mem s x)"
  using assms(5-)
proof (induction fuel arbitrary: k s)
  case (Suc fuel)
  let ?i = "length us + k"
  have lw: "length ws = length us + length xs + 1" by (simp add: ws_def)
  have wi: "ws ! ?i = (xs @ [0]) ! k" by (simp add: ws_def nth_append)
  have at_i: "mem s (p + of_nat ?i) = (xs @ [0]) ! k"
    using Suc.prems(1) Suc.prems(4) [of ?i] wi by (simp add: lw)
  have addr: "p + word_of_int (int (length us) + int k) = p + of_nat ?i" by simp
  have ne: "p + of_nat ?i \<noteq> p + of_nat k" "p + of_nat k \<noteq> p + of_nat ?i"
    using us small Suc.prems(1) by (simp_all only: position_inj) simp_all
  define s1 where "s1 = s\<lparr>mem := (mem s)(p + of_nat k := (xs @ [0]) ! k)\<rparr>"
  have s1: "mem s1 (p + of_nat j) = (if j = k then (xs @ [0]) ! k else mem s (p + of_nat j))" if "j < length ws" for j
    using that small Suc.prems(1) position_inj [of j k p] by (simp add: s1_def lw)
  have step: "move_walk (Suc fuel) p (int (length us)) k s =
      (if (xs @ [0]) ! k \<noteq> 0 then move_walk fuel p (int (length us)) (Suc k) s1
       else Inr ((), s1\<lparr>mem := (mem s1)(p + of_nat (Suc k) := 0)\<rparr>))"
    unfolding move_walk.simps addr Let_def at_i s1_def [symmetric]
    using ne at_i by (simp add: s1_def)
  have inr: "in_range p (length ws) (p + of_nat j)" if "j < length ws" for j
    using that small by (subst in_range_offset) (auto simp: lw)
  show ?case
  proof (cases "k = length xs")
    case False
    then have k: "k < length xs" using Suc.prems(1) by simp
    then have "xs ! k \<noteq> 0" using zero by (metis nth_mem)
    moreover have "\<exists>s'. move_walk fuel p (int (length us)) (Suc k) s1 = Inr ((), s') \<and> cstring (mem s') p xs \<and>
        (\<forall>x. \<not> in_range p (length ws) x \<longrightarrow> mem s' x = mem s1 x)"
    proof (rule Suc.IH)
      show "mem s1 (p + of_nat j) = xs ! j" if "j < Suc k" for j
        using that s1 [of j] Suc.prems(3) [of j] k by (auto simp: lw nth_append less_Suc_eq)
      show "mem s1 (p + of_nat j) = ws ! j" if "Suc k \<le> j" "j < length ws" for j
        using that s1 [of j] Suc.prems(4) [of j] by simp
    qed (use k Suc.prems(2) in simp_all)
    moreover have "mem s1 x = mem s x" if "\<not> in_range p (length ws) x" for x
      using that inr [of k] k by (auto simp: s1_def lw)
    ultimately show ?thesis unfolding step using k by (auto simp: nth_append)
  next
    case True
    let ?s = "s1\<lparr>mem := (mem s1)(p + of_nat (Suc k) := 0)\<rparr>"
    have suc: "Suc k < length ws" using us True by (cases us) (simp_all add: lw)
    have "mem ?s (p + of_nat j) = mem s1 (p + of_nat j)" if "j \<le> k" for j
      using that suc small position_inj [of j "Suc k" p] by (simp add: lw)
    then have all: "mem ?s (p + of_nat j) = (xs @ [0]) ! j" if "j \<le> k" for j
      using that s1 [of j] Suc.prems(3) [of j] True suc by (auto simp: nth_append)
    have "\<forall>j < length xs. mem ?s (p + of_nat j) = xs ! j" "mem ?s (p + of_nat (length xs)) = 0"
      using all True by (simp_all only: nth_append_length) (auto simp: nth_append)
    then have "cstring (mem ?s) p xs"
      using zero unfolding cstring_iff by blast
    moreover have "mem ?s x = mem s x" if "\<not> in_range p (length ws) x" for x
      using that inr [of k] inr [OF suc] True by (auto simp: s1_def lw)
    ultimately show ?thesis unfolding step using True by simp
  qed
qed simp

section \<open>Properties of the string routines\<close>

text \<open>A state for the witnesses: two strings in low memory, outside a heap of 4096 bytes.\<close>

definition demo_strings :: heap_state where
  "demo_strings = (demo_heap 4096)\<lparr>mem := (mem (demo_heap 4096))
     (0x9000 := 72, 0x9001 := 105, 0x9002 := 72, 0x9003 := 0, 0x9010 := 79, 0x9011 := 83, 0x9012 := 0)\<rparr>"

lemma demo_strings_cstring:
  "cstring (mem demo_strings) 0x9000 [72, 105, 72]" "cstring (mem demo_strings) 0x9010 [79, 83]"
  by (simp_all add: demo_strings_def)

lemma demo_strings_heap:
  "heap_ok demo_strings []" "reserve demo_strings [] 1000"
  "held_string demo_strings [] 0x9000 [72, 105, 72]" "held_string demo_strings [] 0x9010 [79, 83]"
proof -
  let ?m = "mem demo_strings"
  have inv: "heap_ok (demo_heap 4096) []" by (rule demo_heap_ok) simp_all
  have use: "usable_end (demo_heap 4096) = 0x2000" by (subst demo_heap_ok) (simp_all add: demo_heap_fields)
  have out: "held_byte (demo_heap 4096) [] x" if "unat x \<ge> 0x9000" for x
    using that by (simp add: held_byte_def use)
  have "?m x = mem (demo_heap 4096) x" if "\<not> held_byte (demo_heap 4096) [] x" for x
    using that out [of x] by (auto simp: demo_strings_def)
  note w = held_write [of "demo_heap 4096" "[]" ?m, OF inv this]
  have eq: "(demo_heap 4096)\<lparr>mem := ?m\<rparr> = demo_strings" by (simp add: demo_strings_def)
  show "heap_ok demo_strings []" using w(1) by (simp add: eq)
  show "reserve demo_strings [] 1000"
    using w(5) [of 1000] unfolding eq by (simp add: reserve_def demo_heap_fields use)
  have cb: "held_byte demo_strings [] x" if "unat x \<ge> 0x9000" for x
    using w(2) [of x] out [OF that] by (simp add: eq)
  have "held_byte demo_strings [] (0x9000 + of_nat i)" if "i < 32" for i
    using that by (intro cb) (subst unat_plus_small; simp add: unat_of_nat)
  from this [of "_"] this [of "16 + _"]
  show "held_string demo_strings [] 0x9000 [72, 105, 72]" "held_string demo_strings [] 0x9010 [79, 83]"
    using demo_strings_cstring by (simp_all add: held_string_def add.assoc [symmetric])
qed

text \<open>\<^verbatim>\<open>len\<close> returns on every string of fewer than \<open>2 ^ 31\<close> characters, with its length.\<close>

lemma len_correct:
  assumes "cstring (mem s) str xs" and "length xs < 2 ^ 31"
  shows "len str s = Inr (length xs, s)"
  using assms by (rule len_eq)

text \<open>
  \<^verbatim>\<open>first_pos\<close> returns the position of the first occurrence, and -1 when the character does
  not occur.
\<close>

lemma first_pos_correct:
  assumes "cstring (mem s) str xs" and "length xs < 2 ^ 31"
  shows "first_pos str ch s = Inr (index_of ch xs, s)"
  using first_pos_walk_eq [OF assms(1), of 0 int_fuel ch] assms(2) by (simp add: first_pos_def int_fuel_def)

lemma last_pos_walk_absent:
  assumes "cstring m str xs" and "n \<le> length xs" and "ch \<noteq> 0" and "ch \<notin> set (tl xs)"
  shows "last_pos_walk str ch n m = - 1"
  using assms(2)
proof (induction n)
  case (Suc n)
  have "(xs @ [0]) ! Suc n \<noteq> ch"
    using assms(3,4) Suc.prems by (cases xs) (auto simp: nth_append)
  then show ?case using cstring_nth(1) [OF assms(1) Suc.prems] Suc by simp
qed simp

text \<open>
  (C39) \<^verbatim>\<open>last_pos\<close> never looks at position 0: a character that occurs there and nowhere else is
  reported as absent.
\<close>

theorem last_pos_skips_first:
  assumes "cstring (mem s) str (ch # xs)" and "length xs + 1 < 2 ^ 31" and "ch \<notin> set xs"
  shows "last_pos str ch s = Inr (- 1, s)"
proof -
  have "ch \<noteq> 0" using assms(1) by simp
  then have "last_pos_walk str ch (Suc (length xs)) (mem s) = - 1"
    using assms(3) by (intro last_pos_walk_absent [OF assms(1)]) simp_all
  then show ?thesis
    using len_eq [OF assms(1)] assms(2) by (simp add: last_pos_def del: last_pos_walk.simps)
qed

theorem last_pos_skips_first_witness: "last_pos 0x9010 79 demo_strings = Inr (- 1, demo_strings)"
  using last_pos_skips_first [OF demo_strings_cstring(2)] by simp

text \<open>(C40) \<^verbatim>\<open>equals\<close> decides equality of the two strings.\<close>

theorem equals_correct:
  assumes "cstring (mem s) p xs" and "cstring (mem s) q ys" and "length xs < 2 ^ 31"
  shows "equals p q s = Inr (xs = ys, s)"
  using equals_walk_eq [OF assms(1,2), of 0 int_fuel] assms(3) by (simp add: equals_def int_fuel_def)

theorem equals_correct_witness:
  "equals 0x9000 0x9010 demo_strings = Inr (False, demo_strings) \<and> equals 0x9010 0x9010 demo_strings = Inr (True, demo_strings)"
  using equals_correct [OF demo_strings_cstring] equals_correct [OF demo_strings_cstring(2) demo_strings_cstring(2)]
  by simp

text \<open>
  (C36) \<^verbatim>\<open>concatenate\<close> returns a new heap block, of the exact size, that holds the two strings one
  after the other; everything else the client holds is unchanged.
\<close>

theorem concatenate_correct:
  assumes "heap_ok s bs" and "held_string s bs p xs" and "held_string s bs q ys"
    and "length xs + length ys + 1 < 2 ^ 31" and "reserve s bs (length xs + length ys + 13)"
  shows "\<exists>r s' bs'. concatenate p q s = Inr (r, s') \<and>
    made s bs r (of_nat (length xs + length ys + 1)) s' bs' \<and> held_string s' bs' r (xs @ ys)"
proof -
  from concatenate_made [OF assms order_refl] obtain r s' bs' where r: "concatenate p q s = Inr (r, s')"
    "made s bs r (of_nat (length xs + length ys + 1)) s' bs'" "cstring (mem s') r (xs @ ys)" .
  have "unat (of_nat (length xs + length ys + 1) :: u_dword) = length xs + length ys + 1"
    using assms(4) by (intro unat_of_nat32) simp
  then show ?thesis using r made_holds [OF r(2,3)] by auto
qed

theorem concatenate_correct_witness:
  "\<exists>r s' bs'. concatenate 0x9000 0x9010 demo_strings = Inr (r, s') \<and>
    made demo_strings [] r 6 s' bs' \<and> held_string s' bs' r [72, 105, 72, 79, 83]"
  using concatenate_correct [OF demo_strings_heap(1,3,4)] reserve_mono [OF demo_strings_heap(2)] by simp

text \<open>
  (C37) \<^verbatim>\<open>substring_mid\<close> returns a new block with the characters from \<^verbatim>\<open>begin\<close> up to \<^verbatim>\<open>end\<close>.
\<close>

theorem substring_mid_correct:
  assumes "heap_ok s bs" and "held_string s bs p xs" and "b \<le> e" and "e \<le> length xs"
    and "length xs + 1 < 2 ^ 31" and "reserve s bs (e - b + 13)"
  shows "\<exists>r s' bs'. substring_mid p (int b) (int e) s = Inr (r, s') \<and>
    made s bs r (of_nat (e - b + 1)) s' bs' \<and> held_string s' bs' r (take (e - b) (drop b xs))"
proof -
  from substring_slice [OF assms order_refl]
  obtain r s' bs' where r: "substring_mid p (int b) (int e) s = Inr (r, s')"
    "made s bs r (of_nat (e - b + 1)) s' bs'" "cstring (mem s') r (take (e - b) (drop b xs))" .
  have "unat (of_nat (e - b + 1) :: u_dword) = e - b + 1"
    using assms(4,5) by (intro unat_of_nat32) simp
  then show ?thesis using r made_holds [OF r(2,3)] assms(3,4) by auto
qed

theorem substring_mid_correct_witness:
  "\<exists>r s' bs'. substring_mid 0x9000 1 3 demo_strings = Inr (r, s') \<and>
    made demo_strings [] r 3 s' bs' \<and> held_string s' bs' r [105, 72]"
  using substring_mid_correct [OF demo_strings_heap(1,3), of 1 3] reserve_mono [OF demo_strings_heap(2)]
  by simp

text \<open>
  (C38) \<^verbatim>\<open>move_string_by\<close> with a positive step drops that many characters in place and writes
  no byte outside the old string.
\<close>

theorem move_string_by_correct:
  assumes "cstring (mem s) p (us @ xs)" and "us \<noteq> []" and "length us + length xs < 2 ^ 31"
  shows "\<exists>s'. move_string_by p (int (length us)) s = Inr ((), s') \<and> cstring (mem s') p xs \<and>
    (\<forall>x. \<not> in_range p (length us + length xs + 1) x \<longrightarrow> mem s' x = mem s x)"
proof -
  have fuel: "length xs - 0 < nat (2 ^ 31 - int (length us))" using assms(3) by simp
  have "mem s (p + of_nat j) = (us @ xs @ [0]) ! j" if "j < length (us @ xs @ [0])" for j
    using that cstring_nth(1) [OF assms(1), of j] by simp
  then have "\<exists>s'. move_walk (nat (2 ^ 31 - int (length us))) p (int (length us)) 0 s = Inr ((), s') \<and> cstring (mem s') p xs \<and>
      (\<forall>x. \<not> in_range p (length (us @ xs @ [0])) x \<longrightarrow> mem s' x = mem s x)"
    using assms fuel by (intro move_walk_eq) (simp_all add: cstring_iff)
  then show ?thesis by (simp add: move_string_by_def)
qed

theorem move_string_by_correct_witness:
  "\<exists>s'. move_string_by 0x9000 1 demo_strings = Inr ((), s') \<and> cstring (mem s') 0x9000 [105, 72] \<and>
    (\<forall>x. \<not> in_range 0x9000 (Suc (Suc (Suc 1))) x \<longrightarrow> mem s' x = mem demo_strings x)"
  using move_string_by_correct [where s = demo_strings and p = "0x9000" and us = "[72]" and xs = "[105, 72]"]
    demo_strings_cstring(1) by simp

end
