(* ===== verification/Format.thy ===== *)
theory Format
  imports Strings
begin

text \<open>
  \<^verbatim>\<open>lib/base/format.c\<close> and the variadic argument access of \<^verbatim>\<open>lib/base/vararg.h\<close>: the operations, and the conversion
  of characters, strings, numbers, booleans and pointers to new heap strings.
\<close>

section \<open>Operations\<close>

definition char_to_string :: "u_byte \<Rightarrow> 'a heap_state_scheme \<Rightarrow> ('a heap_state_scheme, addr) result" where
  "char_to_string c s =
     and_then (ralloc 2 s) (\<lambda>str s. Inr (str, s\<lparr>mem := (mem s)(str := c, str + 1 := 0)\<rparr>))"

definition const_to_string :: "addr \<Rightarrow> 'a heap_state_scheme \<Rightarrow> ('a heap_state_scheme, addr) result" where
  "const_to_string str s =
     and_then (len str s) (\<lambda>n s. and_then (ralloc (of_nat n + 1) s) (\<lambda>md s.
       Inr (md, s\<lparr>mem := (copy_rounds str md n (mem s))(md + of_nat n := 0)\<rparr>)))"

text \<open>
  The enumeration \<^verbatim>\<open>system\<close>; every caller passes one of its three constants, so the \<^verbatim>\<open>default\<close>
  branch of \<^verbatim>\<open>number_to_string\<close> has no counterpart.
\<close>

datatype numeral_system = DECIMAL | HEXADECIMAL | BINARY

fun system_value :: "numeral_system \<Rightarrow> u_dword" where
  "system_value DECIMAL = 10"
| "system_value HEXADECIMAL = 16"
| "system_value BINARY = 2"

definition atom_to_char :: "u_byte \<Rightarrow> u_dword \<Rightarrow> u_byte" where
  "atom_to_char b sys =
     (if sys \<ge> 2 \<and> sys \<le> 10 then b + 48
      else if sys > 10 \<and> sys \<le> 36 then (if b < 10 then b + 48 else b + 65 - 10)
      else 63)"

text \<open>
  The first loop of \<^verbatim>\<open>int_to_string\<close> counts the digits. \<^verbatim>\<open>mult\<close> has 64 bits, so after
  \<open>2 ^ 64\<close> rounds it has repeated; that much fuel is exact.
\<close>

primrec power_walk :: "nat \<Rightarrow> u_qword \<Rightarrow> u_dword \<Rightarrow> u_dword \<Rightarrow> u_dword \<Rightarrow> u_dword option" where
  "power_walk 0 mlt pow b sys = None"
| "power_walk (Suc fuel) mlt pow b sys =
     (if mlt \<le> ucast b then power_walk fuel (mlt * ucast sys) (pow + 1) b sys else Some pow)"

text \<open>The second loop writes the digits from the right; \<^verbatim>\<open>integer\<close> shrinks in every round.\<close>

primrec digit_walk :: "nat \<Rightarrow> u_dword \<Rightarrow> u_dword \<Rightarrow> u_dword \<Rightarrow> addr \<Rightarrow> memory \<Rightarrow> memory option" where
  "digit_walk 0 n pow sys result m = (if n = 0 then Some m else None)"
| "digit_walk (Suc fuel) n pow sys result m =
     (if n = 0 then Some m
      else digit_walk fuel (n div sys) (pow - 1) sys result
        (m(result + (pow - 1) := atom_to_char (ucast (n mod sys)) sys)))"

definition int_to_string ::
    "u_dword \<Rightarrow> numeral_system \<Rightarrow> 'a heap_state_scheme \<Rightarrow> ('a heap_state_scheme, addr) result" where
  "int_to_string b sys s =
     (case power_walk (2 ^ 64) (ucast (system_value sys)) 1 b (system_value sys) of
        None \<Rightarrow> Inl (Hang s)
      | Some pow \<Rightarrow> and_then (ralloc (pow + 1) s) (\<lambda>result s.
          (let m = (mem s)(result + pow := 0)
           in case digit_walk (2 ^ 32) b pow (system_value sys) result m of
                None \<Rightarrow> Inl (Hang s)
              | Some m \<Rightarrow> Inr (result, s\<lparr>mem := m\<rparr>))))"

definition boolean_to_string :: "bool \<Rightarrow> 'a heap_state_scheme \<Rightarrow> ('a heap_state_scheme, addr) result" where
  "boolean_to_string b s =
     (if b then const_to_string (literal s ''true'') s else const_to_string (literal s ''false'') s)"

text \<open>
  Floating-point values are the 64 bits of the argument. The floating-point unit is a parameter, with the
  operations the code uses: the conversions to and from unsigned integers, subtraction, multiplication and
  the comparison.
\<close>

record fpu =
  fpu_to_dword :: "u_qword \<Rightarrow> u_dword"
  fpu_of_dword :: "u_dword \<Rightarrow> u_qword"
  fpu_sub :: "u_qword \<Rightarrow> u_qword \<Rightarrow> u_qword"
  fpu_mul :: "u_qword \<Rightarrow> u_qword \<Rightarrow> u_qword"
  fpu_less :: "u_qword \<Rightarrow> u_qword \<Rightarrow> bool"

text \<open>The loop that moves the digits after the point in front of it.\<close>

primrec scale_rounds :: "fpu \<Rightarrow> nat \<Rightarrow> u_qword \<Rightarrow> u_qword" where
  "scale_rounds fp 0 floating = floating"
| "scale_rounds fp (Suc n) floating = scale_rounds fp n (fpu_mul fp floating (fpu_of_dword fp (system_value DECIMAL)))"

definition float_to_string ::
    "fpu \<Rightarrow> u_qword \<Rightarrow> u_dword \<Rightarrow> 'a heap_state_scheme \<Rightarrow> ('a heap_state_scheme, addr) result" where
  "float_to_string fp b after_comma s =
     (if after_comma \<noteq> 0 then
        and_then (int_to_string (fpu_to_dword fp b) DECIMAL s) (\<lambda>integer s.
        and_then (concatenate integer (literal s ''.'') s) (\<lambda>full s.
        and_then (unalloc integer s) (\<lambda>_ s.
          (let floating = fpu_sub fp b (fpu_of_dword fp (fpu_to_dword fp b));
               floating = scale_rounds fp (unat after_comma) floating
           in and_then (int_to_string (fpu_to_dword fp floating) DECIMAL s) (\<lambda>part s.
        and_then (concatenate full part s) (\<lambda>result s.
        and_then (unalloc part s) (\<lambda>_ s.
        and_then (unalloc full s) (\<lambda>_ s.
          if fpu_less fp b (fpu_of_dword fp 0) then
            and_then (concatenate (literal s ''-'') result s) (\<lambda>signum s.
            and_then (unalloc result s) (\<lambda>_ s. Inr (signum, s)))
          else Inr (result, s)))))))))
      else int_to_string (fpu_to_dword fp b) DECIMAL s)"

definition pointer_to_string :: "addr \<Rightarrow> 'a heap_state_scheme \<Rightarrow> ('a heap_state_scheme, addr) result" where
  "pointer_to_string ptr s =
     (if ptr = nullptr then const_to_string (literal s ''.null'') s
      else and_then (int_to_string ptr HEXADECIMAL s) (\<lambda>integer s.
        and_then (concatenate (literal s ''.'') integer s) (\<lambda>result s.
        and_then (unalloc integer s) (\<lambda>_ s. Inr (result, s)))))"

text \<open>
  \<^verbatim>\<open>-num\<close> is a negation of a signed number, which overflows for the smallest one: C gives that call no meaning.
\<close>

definition number_to_string ::
    "u_dword \<Rightarrow> numeral_system \<Rightarrow> 'a heap_state_scheme \<Rightarrow> ('a heap_state_scheme, addr) result" where
  "number_to_string num sys s =
     and_then
       (if num = 0 then char_to_string (atom_to_char 0 (system_value sys)) s
        else if sint num < 0 then (if num = 0x80000000 then Inl (Undefined s) else int_to_string (- num) sys s)
        else int_to_string num sys s) (\<lambda>number s. and_then
       (case sys of
          DECIMAL \<Rightarrow> Inr (number, s)
        | HEXADECIMAL \<Rightarrow> and_then (concatenate (literal s ''0x'') number s) (\<lambda>result s.
            and_then (unalloc number s) (\<lambda>_ s. Inr (result, s)))
        | BINARY \<Rightarrow> and_then (concatenate (literal s ''0b'') number s) (\<lambda>result s.
            and_then (unalloc number s) (\<lambda>_ s. Inr (result, s)))) (\<lambda>result s.
       if sint num < 0 then
         and_then (concatenate (literal s ''-'') result s) (\<lambda>signum s.
         and_then (unalloc result s) (\<lambda>_ s. Inr (signum, s)))
       else Inr (result, s)))"

definition free_concat :: "addr \<Rightarrow> addr \<Rightarrow> 'a heap_state_scheme \<Rightarrow> ('a heap_state_scheme, addr) result" where
  "free_concat string1 string2 s =
     and_then (concatenate string1 string2 s) (\<lambda>result s.
     and_then (unalloc string1 s) (\<lambda>_ s.
     and_then (unalloc string2 s) (\<lambda>_ s. Inr (result, s))))"

text \<open>
  \<^verbatim>\<open>get_arg\<close> reads the stack at \<^verbatim>\<open>ebp + 8 + skip\<close>; \<open>ebp\<close> is the frame pointer of the formatter's
  activation. \<^verbatim>\<open>get_vararg\<close> then advances the offset by the size of the type, at least four.
\<close>

definition arg_address :: "addr \<Rightarrow> u_dword \<Rightarrow> addr" where
  "arg_address ebp skip = ebp + (8 + skip)"

definition init_vararg :: "u_dword \<Rightarrow> u_dword" where
  "init_vararg skip = (let off = skip AND 0xfffffffc in if skip mod 4 \<noteq> 0 then off + 4 else off)"

definition load64 :: "memory \<Rightarrow> addr \<Rightarrow> u_qword" where
  "load64 m a = ucast (load32 m a) OR push_bit 32 (ucast (load32 m (a + 4)))"

text \<open>One conversion: the new string and the size of the argument it consumed, if the letter is known.\<close>

definition convert ::
    "fpu \<Rightarrow> u_byte \<Rightarrow> addr \<Rightarrow> 'a heap_state_scheme \<Rightarrow>
      ('a heap_state_scheme, (addr \<times> u_dword) option) result" where
  "convert fp letter arg s =
     (let m = mem s; give = (\<lambda>n r. and_then r (\<lambda>str s. Inr (Some (str, max_dword n 4), s)))
      in if letter = of_char (CHR ''l'') then give 1 (boolean_to_string (m arg \<noteq> 0) s)
         else if letter = of_char (CHR ''p'') then give 4 (pointer_to_string (load32 m arg) s)
         else if letter = of_char (CHR ''d'') then give 4 (number_to_string (load32 m arg) DECIMAL s)
         else if letter = of_char (CHR ''h'') then give 4 (number_to_string (load32 m arg) HEXADECIMAL s)
         else if letter = of_char (CHR ''b'') then give 4 (number_to_string (load32 m arg) BINARY s)
         else if letter = of_char (CHR ''f'') then give 8 (float_to_string fp (load64 m arg) 4 s)
         else if letter = of_char (CHR ''c'') then give 1 (char_to_string (m arg) s)
         else if letter = of_char (CHR ''s'') then give 4 (const_to_string (load32 m arg) s)
         else Inr (None, s))"

primrec format_walk ::
    "nat \<Rightarrow> fpu \<Rightarrow> addr \<Rightarrow> addr \<Rightarrow> nat \<Rightarrow> u_dword \<Rightarrow> u_dword \<Rightarrow> addr \<Rightarrow> 'a heap_state_scheme \<Rightarrow>
      ('a heap_state_scheme, u_dword \<times> addr) result" where
  "format_walk 0 fp template ebp j printed argumentor result s = Inl (Undefined s)"
| "format_walk (Suc fuel) fp template ebp j printed argumentor result s =
     and_then (len template s) (\<lambda>n s.
       if \<not> j < n then Inr ((printed, result), s)
       else if mem s (template + of_nat j) = of_char (CHR ''%'') then
         and_then (substring_mid template (sint printed) (int j) s) (\<lambda>part s.
         and_then (free_concat result part s) (\<lambda>result s.
         and_then (convert fp (mem s (template + of_nat (j + 1))) (arg_address ebp argumentor) s) (\<lambda>conv s.
           case conv of
             Some (str, sz) \<Rightarrow> and_then (free_concat result str s) (\<lambda>result s.
               format_walk fuel fp template ebp (j + 2) (of_nat j + 2) (argumentor + sz) result s)
           | None \<Rightarrow> format_walk fuel fp template ebp (j + 1) (of_nat j) argumentor result s)))
       else format_walk fuel fp template ebp (j + 1) printed argumentor result s)"

definition format_string ::
    "fpu \<Rightarrow> addr \<Rightarrow> addr \<Rightarrow> 'a heap_state_scheme \<Rightarrow> ('a heap_state_scheme, addr) result" where
  "format_string fp template ebp s =
     and_then (zalloc 1 s) (\<lambda>result s.
     and_then (format_walk int_fuel fp template ebp 0 0 (init_vararg 4) result s) (\<lambda>(printed, result) s.
     and_then (substring_beg template (sint printed) s) (\<lambda>rest s.
       free_concat result rest s)))"

text \<open>
  \<^verbatim>\<open>vararg.c\<close>: the dword arguments behind the count on the stack of \<^verbatim>\<open>extract_dword_args\<close>, copied to
  a heap array.
\<close>

primrec extract_rounds :: "addr \<Rightarrow> addr \<Rightarrow> nat \<Rightarrow> memory \<Rightarrow> memory" where
  "extract_rounds ebp args 0 m = m"
| "extract_rounds ebp args (Suc i) m =
     (let m = extract_rounds ebp args i m
      in store32 m (args + 4 * of_nat i) (load32 m (arg_address ebp (4 * (of_nat i + 1)))))"

definition extract_dword_args ::
    "addr \<Rightarrow> u_dword \<Rightarrow> 'a heap_state_scheme \<Rightarrow> ('a heap_state_scheme, addr) result" where
  "extract_dword_args ebp args_num s =
     and_then (ralloc (args_num * 4) s) (\<lambda>args s.
       Inr (args, s\<lparr>mem := extract_rounds ebp args (unat args_num) (mem s)\<rparr>))"

section \<open>Digits\<close>

function digits :: "nat \<Rightarrow> nat \<Rightarrow> nat list" where
  "digits b n = (if b < 2 \<or> n = 0 then [] else digits b (n div b) @ [n mod b])"
  by auto
termination
  by (relation "measure snd") auto

declare digits.simps [simp del]

text \<open>The number a digit list denotes.\<close>

definition number_of :: "nat \<Rightarrow> nat list \<Rightarrow> nat" where
  "number_of b ds = foldl (\<lambda>acc d. acc * b + d) 0 ds"

lemma number_of_digits: "2 \<le> b \<Longrightarrow> number_of b (digits b n) = n"
proof (induction b n rule: digits.induct)
  case (1 b n)
  show ?case
  proof (cases "n = 0")
    case False
    then show ?thesis using 1 by (subst digits.simps) (simp add: number_of_def)
  qed (simp add: number_of_def digits.simps)
qed

lemma length_digits:
  assumes "2 \<le> b"
  shows "b ^ k \<le> n \<Longrightarrow> n < b ^ Suc k \<Longrightarrow> length (digits b n) = Suc k"
proof (induction k arbitrary: n)
  case 0
  then have "n div b = 0" "n \<noteq> 0" by auto
  then show ?case using assms by (subst digits.simps) (simp add: digits.simps)
next
  case (Suc k)
  have "n \<noteq> 0" using Suc.prems(1) assms by (cases n) auto
  have "b ^ k \<le> n div b" using Suc.prems(1) assms by (simp add: less_eq_div_iff_mult_less_eq mult.commute)
  moreover have "n div b < b ^ Suc k" using Suc.prems(2) by (simp add: less_mult_imp_div_less mult.commute)
  ultimately have "length (digits b (n div b)) = Suc k" by (rule Suc.IH)
  then show ?case using assms \<open>n \<noteq> 0\<close> by (subst digits.simps) simp
qed

lemma digits_less: "2 \<le> b \<Longrightarrow> d \<in> set (digits b n) \<Longrightarrow> d < b"
proof (induction b n rule: digits.induct)
  case (1 b n)
  show ?case
  proof (cases "n = 0")
    case False
    then show ?thesis using 1 by (subst (asm) digits.simps) auto
  qed (use 1(3) in \<open>simp add: digits.simps\<close>)
qed

definition base :: "numeral_system \<Rightarrow> nat" where
  "base sys = unat (system_value sys)"

lemma base_bounds: "2 \<le> base sys" "base sys \<le> 16"
  by (cases sys; simp add: base_def)+

definition numeral_chars :: "numeral_system \<Rightarrow> nat \<Rightarrow> u_byte list" where
  "numeral_chars sys n = map (\<lambda>d. if d < 10 then of_nat (48 + d) else of_nat (55 + d)) (digits (base sys) n)"

lemma atom_to_char_digit:
  assumes "d < base sys"
  shows "atom_to_char (of_nat d) (system_value sys) = (if d < 10 then of_nat (48 + d) else of_nat (55 + d))"
proof -
  have "d < 16" using assms base_bounds(2) [of sys] by simp
  then have "(of_nat d :: u_byte) < 10 \<longleftrightarrow> d < 10" by (simp add: word_less_nat_alt unat_of_nat)
  moreover have "sys \<noteq> HEXADECIMAL \<Longrightarrow> d < 10" using assms by (cases sys) (auto simp: base_def)
  moreover have "atom_to_char (of_nat d) (system_value sys) =
      (if sys = HEXADECIMAL \<and> \<not> (of_nat d :: u_byte) < 10 then of_nat d + 65 - 10 else of_nat d + 48)"
    by (cases sys) (simp_all add: atom_to_char_def)
  moreover have "of_nat d + 48 = (of_nat (48 + d) :: u_byte)" "of_nat d + 65 - 10 = (of_nat (55 + d) :: u_byte)"
    by simp_all
  ultimately show ?thesis by presburger
qed

section \<open>Counting the digits\<close>

lemma unat_ucast64: "unat (ucast (b :: u_dword) :: u_qword) = unat b"
  by (simp add: unsigned_ucast_eq take_bit_nat_eq_self unat_lt32 less_trans [OF unat_lt32])

lemma power_walk_eq:
  assumes "0 < b" and "k < fuel" and "unat mlt = base sys ^ Suc j" and "base sys ^ j \<le> unat b"
    and "base sys ^ (j + k) \<le> unat b" and "unat b < base sys ^ Suc (j + k)"
  shows "power_walk fuel mlt pow b (system_value sys) = Some (pow + of_nat k)"
  using assms(2-)
proof (induction k arbitrary: fuel mlt pow j)
  case 0
  then obtain f where "fuel = Suc f" by (cases fuel) auto
  moreover have "\<not> mlt \<le> ucast b"
    using 0 by (simp add: word_le_nat_alt unat_ucast64)
  ultimately show ?case by simp
next
  case (Suc k)
  then obtain f where f: "fuel = Suc f" "k < f" by (cases fuel) auto
  have "base sys ^ Suc j \<le> base sys ^ (j + Suc k)"
    using base_bounds(1) [of sys] by (intro power_increasing) simp_all
  then have le: "base sys ^ Suc j \<le> unat b" using Suc.prems(4) by (rule order_trans)
  then have cond: "mlt \<le> ucast b"
    using Suc.prems(2) by (simp add: word_le_nat_alt unat_ucast64)
  have "unat (mlt * ucast (system_value sys)) = unat mlt * base sys"
  proof -
    have "unat mlt * base sys \<le> 4294967296 * 16"
      using le Suc.prems(2) unat_lt32 [of b] base_bounds(2) [of sys] by (intro mult_mono) auto
    then have "unat mlt * base sys < 2 ^ 64" by simp
    then show ?thesis by (simp add: unat_word_ariths unat_ucast64 base_def)
  qed
  then have "unat (mlt * ucast (system_value sys)) = base sys ^ Suc (Suc j)"
    using Suc.prems(2) by simp
  from Suc.IH [OF f(2) this le] Suc.prems(4,5) cond f(1) show ?case
    by (simp add: algebra_simps)
qed

lemma digit_count_exists:
  assumes "0 < (n :: nat)" and "2 \<le> b"
  shows "\<exists>k. b ^ k \<le> n \<and> n < b ^ Suc k"
proof -
  have "n < b ^ n" using assms by (intro less_exp [THEN less_le_trans] power_mono) auto
  define k where "k = (LEAST k. n < b ^ k)"
  have lt: "n < b ^ k" unfolding k_def using \<open>n < b ^ n\<close> by (rule LeastI)
  then have "k \<noteq> 0" using assms(1) by (cases k) auto
  then obtain l where l: "k = Suc l" by (cases k) auto
  have "\<not> n < b ^ l" using not_less_Least [of l "\<lambda>k. n < b ^ k"] l by (simp add: k_def)
  then show ?thesis using lt l by (intro exI [of _ l]) simp
qed

lemma digit_count_small:
  assumes "2 \<le> b" and "b ^ k \<le> unat (n :: u_dword)"
  shows "k < 32"
proof (rule ccontr)
  assume "\<not> k < 32"
  then have "(2 :: nat) ^ 32 \<le> 2 ^ k" by (intro power_increasing) auto
  also have "\<dots> \<le> b ^ k" using assms(1) by (rule power_mono) simp
  finally show False using assms(2) unat_lt32 [of n] by simp
qed

lemma power_walk_digits:
  assumes "0 < b"
  shows "power_walk (2 ^ 64) (ucast (system_value sys)) 1 b (system_value sys) =
    Some (of_nat (length (digits (base sys) (unat b))))" and "length (digits (base sys) (unat b)) \<le> 32"
    and "0 < length (digits (base sys) (unat b))"
proof -
  have "0 < unat b" using assms by (simp add: word_less_nat_alt)
  from digit_count_exists [OF this base_bounds(1)]
  obtain k where k: "base sys ^ k \<le> unat b" "unat b < base sys ^ Suc k" by blast
  have l: "length (digits (base sys) (unat b)) = Suc k" by (rule length_digits [OF base_bounds(1) k])
  have "k < 32" by (rule digit_count_small [OF base_bounds(1) k(1)])
  then show "length (digits (base sys) (unat b)) \<le> 32" "0 < length (digits (base sys) (unat b))"
    using l by simp_all
  have "power_walk (2 ^ 64) (ucast (system_value sys)) 1 b (system_value sys) = Some (1 + of_nat k)"
    using k \<open>k < 32\<close> \<open>0 < unat b\<close> by (intro power_walk_eq [where j = 0] assms) (simp_all add: unat_ucast64 base_def)
  then show "power_walk (2 ^ 64) (ucast (system_value sys)) 1 b (system_value sys) =
    Some (of_nat (length (digits (base sys) (unat b))))" by (simp add: l)
qed

section \<open>Writing the digits\<close>

lemma digit_walk_eq:
  assumes "length (digits (base sys) (unat n)) \<le> p" and "p < 4294967296" and "length (digits (base sys) (unat n)) \<le> fuel"
  shows "\<exists>m'. digit_walk fuel n (of_nat p) (system_value sys) result m = Some m' \<and>
    (\<forall>i < length (digits (base sys) (unat n)).
      m' (result + of_nat (p - length (digits (base sys) (unat n)) + i)) = numeral_chars sys (unat n) ! i) \<and>
    (\<forall>x. \<not> (\<exists>i < p. p - length (digits (base sys) (unat n)) \<le> i \<and> x = result + of_nat i) \<longrightarrow> m' x = m x)"
  using assms
proof (induction fuel arbitrary: n p m)
  case 0
  have "n = 0"
  proof (rule ccontr)
    assume "n \<noteq> 0"
    then have "0 < n" by (simp add: word_neq_0_conv)
    from power_walk_digits(3) [OF this, of sys] 0 show False by simp
  qed
  then show ?case by (simp add: digits.simps)
next
  case (Suc fuel)
  show ?case
  proof (cases "n = 0")
    case True
    then show ?thesis by (simp add: digits.simps)
  next
    case False
    let ?q = "n div system_value sys" and ?r = "n mod system_value sys"
    let ?ds = "digits (base sys) (unat ?q)"
    have q: "unat ?q = unat n div base sys" "unat ?r = unat n mod base sys"
      by (simp_all add: unat_div unat_mod base_def)
    have ds: "digits (base sys) (unat n) = ?ds @ [unat ?r]"
      using False base_bounds(1) [of sys] by (subst digits.simps) (simp add: q unat_eq_0)
    then obtain p' where p': "p = Suc p'" "length ?ds \<le> p'" "p' < 4294967296" "length ?ds \<le> fuel"
      using Suc.prems by (cases p) auto
    have pow: "of_nat p - 1 = (of_nat p' :: u_dword)" by (simp add: p')
    let ?c = "atom_to_char (ucast ?r) (system_value sys)" and ?m = "m(result + of_nat p' := atom_to_char (ucast ?r) (system_value sys))"
    have chr: "?c = numeral_chars sys (unat n) ! length ?ds"
    proof -
      have "unat ?r < base sys" unfolding q using base_bounds(1) [of sys] by simp
      moreover have "(ucast ?r :: u_byte) = of_nat (unat ?r)" by (simp add: unsigned_ucast_eq)
      ultimately show ?thesis
        using atom_to_char_digit [of "unat ?r" sys] by (simp add: numeral_chars_def ds nth_append)
    qed
    from Suc.IH [OF p'(2-4), of ?m] obtain m' where m': "digit_walk fuel ?q (of_nat p') (system_value sys) result ?m = Some m'"
      "\<And>i. i < length ?ds \<Longrightarrow> m' (result + of_nat (p' - length ?ds + i)) = numeral_chars sys (unat ?q) ! i"
      "\<And>x. \<not> (\<exists>i < p'. p' - length ?ds \<le> i \<and> x = result + of_nat i) \<Longrightarrow> m' x = ?m x" by blast
    have last: "m' (result + of_nat p') = ?c"
    proof -
      have "result + of_nat p' \<noteq> result + of_nat i" if "i < p'" for i
        using position_inj [of p' i result] that p'(3) by simp
      then show ?thesis using m'(3) [of "result + of_nat p'"] by auto
    qed
    show ?thesis
    proof (intro exI [of _ m'] conjI allI impI)
      show "digit_walk (Suc fuel) n (of_nat p) (system_value sys) result m = Some m'"
        using False m'(1) by (simp add: pow del: of_nat_Suc)
      show "m' (result + of_nat (p - length (digits (base sys) (unat n)) + i)) = numeral_chars sys (unat n) ! i"
        if "i < length (digits (base sys) (unat n))" for i
      proof (cases "i < length ?ds")
        case True
        then show ?thesis using m'(2) [OF True] p' by (simp add: ds numeral_chars_def nth_append)
      next
        case False
        then have "i = length ?ds" using that ds by simp
        then show ?thesis using last chr p' by (simp add: ds)
      qed
      show "m' x = m x" if "\<not> (\<exists>i < p. p - length (digits (base sys) (unat n)) \<le> i \<and> x = result + of_nat i)" for x
      proof -
        have "x \<noteq> result + of_nat p'" using that p' ds by auto
        moreover have "\<not> (\<exists>i < p'. p' - length ?ds \<le> i \<and> x = result + of_nat i)"
          using that p' ds by (auto simp: less_Suc_eq)
        ultimately show ?thesis using m'(3) [of x] by simp
      qed
    qed
  qed
qed

section \<open>New strings for numbers\<close>

lemma numeral_chars_nonzero: "0 \<notin> set (numeral_chars sys n)"
proof
  assume "0 \<in> set (numeral_chars sys n)"
  then obtain d where d: "d \<in> set (digits (base sys) n)"
    "(0 :: u_byte) = (if d < 10 then of_nat (48 + d) else of_nat (55 + d))"
    by (auto simp: numeral_chars_def)
  have "d < 16" using digits_less [OF base_bounds(1) d(1)] base_bounds(2) [of sys] by simp
  then have "unat (of_nat (48 + d) :: u_byte) = 48 + d" "unat (of_nat (55 + d) :: u_byte) = 55 + d"
    by (simp_all add: unat_of_nat del: of_nat_add)
  then show False using d(2) by (auto split: if_splits simp del: of_nat_add)
qed

lemma length_numeral_chars [simp]: "length (numeral_chars sys n) = length (digits (base sys) n)"
  by (simp add: numeral_chars_def)

lemma int_to_string_made:
  assumes "heap_ok s bs" and "0 < b" and N: "reserve s bs N" "length (digits (base sys) (unat b)) + 13 \<le> N"
  obtains r s' bs' where "int_to_string b sys s = Inr (r, s')"
    and "made s bs r (of_nat (length (digits (base sys) (unat b)) + 1)) s' bs'"
    and "reserve s' bs' (N - (length (digits (base sys) (unat b)) + 13))"
    and "cstring (mem s') r (numeral_chars sys (unat b))"
proof -
  define l where "l = length (digits (base sys) (unat b))"
  note cnt = power_walk_digits [OF assms(2), of sys, folded l_def]
  let ?n = "of_nat (l + 1) :: u_dword"
  have n: "unat ?n = l + 1" using cnt(2) by (intro unat_of_nat32) simp
  have N2: "l + 13 \<le> N" using N(2) by (simp add: l_def)
  have "unat ?n + 12 \<le> N" using N2 unfolding n by simp
  from made_alloc [OF assms(1) N(1) this] obtain r s1 bs1 where a: "ralloc ?n s = Inr (r, s1)"
    "made s bs r ?n s1 bs1" "reserve s1 bs1 (N - (unat ?n + 12))" .
  let ?m = "(mem s1)(r + of_nat l := 0)"
  have "length (digits (base sys) (unat b)) \<le> l" "l < 4294967296" "length (digits (base sys) (unat b)) \<le> 2 ^ 32"
    using cnt(2) by (simp_all add: l_def)
  from digit_walk_eq [OF this, of r ?m] obtain m' where
    m': "digit_walk (2 ^ 32) b (of_nat l) (system_value sys) r ?m = Some m'"
    "\<And>i. i < l \<Longrightarrow> m' (r + of_nat i) = numeral_chars sys (unat b) ! i"
    "\<And>x. \<not> (\<exists>i < l. x = r + of_nat i) \<Longrightarrow> m' x = ?m x"
    by (auto simp: l_def)
  have ne: "r + of_nat l \<noteq> r + of_nat i" if "i < l" for i
    using position_inj [of l i r] that cnt(2) by simp
  then have fin: "m' (r + of_nat l) = 0" using m'(3) [of "r + of_nat l"] by auto
  have str: "cstring m' r (numeral_chars sys (unat b))"
    using m'(2) fin numeral_chars_nonzero by (simp add: cstring_iff l_def)
  have out: "m' x = mem s1 x" if "\<not> in_range r (unat ?n) x" for x
  proof -
    have "x \<noteq> r + of_nat i" if "i \<le> l" for i
      using \<open>\<not> in_range r (unat ?n) x\<close> in_range_offset [of i r "l + 1"] that cnt(2) unfolding n by auto
    then show ?thesis using m'(3) [of x] by auto
  qed
  have w: "made s bs r ?n (s1\<lparr>mem := m'\<rparr>) bs1" "reserve (s1\<lparr>mem := m'\<rparr>) bs1 M \<longleftrightarrow> reserve s1 bs1 M" for M
    by (rule made_write [OF a(2)], erule out)+
  have eq: "int_to_string b sys s = Inr (r, s1\<lparr>mem := m'\<rparr>)"
    using cnt(1) a(1) m'(1) by (simp add: int_to_string_def add.commute)
  have "reserve (s1\<lparr>mem := m'\<rparr>) bs1 (N - (l + 13))" using w(2) a(3) unfolding n by (simp add: add.commute)
  from that [OF eq w(1) [unfolded l_def] this [unfolded l_def]] str show thesis by (simp add: l_def)
qed

lemma char_to_string_made:
  assumes "heap_ok s bs" and N: "reserve s bs N" "14 \<le> N"
  obtains r s' bs' where "char_to_string c s = Inr (r, s')" and "made s bs r 2 s' bs'"
    and "reserve s' bs' (N - 14)" and "cstring (mem s') r (if c = 0 then [] else [c])"
proof -
  have "unat (2 :: u_dword) + 12 \<le> N" using N(2) by simp
  from made_alloc [OF assms(1) N(1) this] obtain r s1 bs1 where a: "ralloc 2 s = Inr (r, s1)"
    "made s bs r 2 s1 bs1" "reserve s1 bs1 (N - (unat (2 :: u_dword) + 12))" .
  let ?m = "(mem s1)(r := c, r + 1 := 0)"
  have "?m x = mem s1 x" if "\<not> in_range r (unat (2 :: u_dword)) x" for x
    using that by (auto simp: in_range_def)
  note w = made_write [OF a(2), of ?m, OF this]
  have "char_to_string c s = Inr (r, s1\<lparr>mem := ?m\<rparr>)" using a(1) by (simp add: char_to_string_def)
  from that [OF this w(1)] w(2) a(3) show thesis by simp
qed

lemma const_to_string_made:
  assumes "heap_ok s bs" and "held_string s bs p xs" and small: "length xs + 1 < 2 ^ 31"
    and N: "reserve s bs N" "length xs + 13 \<le> N"
  obtains r s' bs' where "const_to_string p s = Inr (r, s')" and "made s bs r (of_nat (length xs + 1)) s' bs'"
    and "reserve s' bs' (N - (length xs + 13))" and "cstring (mem s') r xs"
proof -
  let ?n = "of_nat (length xs + 1) :: u_dword"
  have n: "unat ?n = length xs + length ([] :: u_byte list) + 1" using small by (subst unat_of_nat32) simp_all
  have "length xs + length ([] :: u_byte list) + 13 \<le> N" using N(2) by simp
  from pieces_made [of s bs p xs "[]" p "[]" xs, unfolded append_Nil append_Nil2,
      OF assms(1,2,2) n N(1) this]
  obtain r s1 bs' where a: "ralloc ?n s = Inr (r, s1)"
    "made s bs r ?n (s1\<lparr>mem := two_pieces p (length xs) p 0 r (mem s1)\<rparr>) bs'"
    "reserve (s1\<lparr>mem := two_pieces p (length xs) p 0 r (mem s1)\<rparr>) bs' (N - (length xs + 13))"
    "cstring (two_pieces p (length xs) p 0 r (mem s1)) r xs" by auto
  have "len p s = Inr (length xs, s)" using assms(2) small by (auto simp: held_string_def intro!: len_eq)
  then have "const_to_string p s = Inr (r, s1\<lparr>mem := two_pieces p (length xs) p 0 r (mem s1)\<rparr>)"
    using a(1) by (simp add: const_to_string_def two_pieces_def add.commute)
  from that [OF this a(2,3)] a(4) show thesis by simp
qed

text \<open>Putting a literal in front of a string just made and releasing the latter.\<close>

lemma prefix_made:
  assumes made: "made s bs a k s1 bs1" and xs: "cstring (mem s1) a xs" "length xs < unat k"
    and ys: "held_string s bs lit ys" and small: "length ys + length xs + 1 < 2 ^ 31"
    and N: "reserve s1 bs1 N" "length ys + length xs + 13 \<le> N"
  obtains r s' bs' where "and_then (concatenate lit a s1) (\<lambda>r s. and_then (unalloc a s) (\<lambda>_ s. Inr (r, s))) = Inr (r, s')"
    and "made s bs r (of_nat (length ys + length xs + 1)) s' bs'"
    and "reserve s' bs' (N - (length ys + length xs + 13))" and "cstring (mem s') r (ys @ xs)"
proof -
  note held = held_string_made [OF ys made] made_holds [OF made xs]
  from concatenate_made [OF madeD(1) [OF made] held small N]
  obtain r s2 bs2 where c: "concatenate lit a s1 = Inr (r, s2)"
    "made s1 bs1 r (of_nat (length ys + length xs + 1)) s2 bs2"
    "reserve s2 bs2 (N - (length ys + length xs + 13))" "cstring (mem s2) r (ys @ xs)" .
  from made_free [OF made c(2)] obtain s3 bs3 where f: "unalloc a s2 = Inr ((), s3)"
    "made s bs r (of_nat (length ys + length xs + 1)) s3 bs3" "\<And>N. reserve s2 bs2 N \<Longrightarrow> reserve s3 bs3 N"
    "\<And>x. held_byte s2 bs2 x \<Longrightarrow> mem s3 x = mem s2 x" by blast
  have "unat (of_nat (length ys + length xs + 1) :: u_dword) = length ys + length xs + 1"
    using small by (intro unat_of_nat32) simp
  then have "held_string s2 bs2 r (ys @ xs)" by (intro made_holds [OF c(2,4)]) simp
  then have "cstring (mem s3) r (ys @ xs)"
    using f(4) cstring_cong [of "ys @ xs" "mem s3" r "mem s2"] by (simp add: held_string_def)
  from that [OF _ f(2) f(3) [OF c(3)] this] c(1) f(1) show thesis by simp
qed

section \<open>Signed numbers and pointers\<close>

fun system_prefix :: "numeral_system \<Rightarrow> string" where
  "system_prefix DECIMAL = []"
| "system_prefix HEXADECIMAL = ''0x''"
| "system_prefix BINARY = ''0b''"

definition magnitude_chars :: "numeral_system \<Rightarrow> u_dword \<Rightarrow> u_byte list" where
  "magnitude_chars sys num = (if num = 0 then [48] else numeral_chars sys (nat \<bar>sint num\<bar>))"

definition number_chars :: "numeral_system \<Rightarrow> u_dword \<Rightarrow> u_byte list" where
  "number_chars sys num =
     (if sint num < 0 then chars ''-'' else []) @ chars (system_prefix sys) @ magnitude_chars sys num"

lemma uint_of_sint: "uint (num :: u_dword) = (if sint num < 0 then sint num + 4294967296 else sint num)"
proof -
  have r: "- 2147483648 \<le> sint num" "sint num < 2147483648"
    using sint_range_size [of num] by (simp_all add: word_size)
  have "uint num = sint num mod 4294967296"
    by (simp add: uint_sint take_bit_eq_mod)
  also have "\<dots> = (if sint num < 0 then sint num + 4294967296 else sint num)"
    using r by (auto simp: mod_pos_pos_trivial intro!: mod_pos_pos_trivial
        mod_add_self2 [of "sint num", THEN sym, THEN trans])
  finally show ?thesis .
qed

lemma magnitude:
  "sint (num :: u_dword) < 0 \<Longrightarrow> unat (- num) = nat \<bar>sint num\<bar>"
  "\<not> sint num < 0 \<Longrightarrow> unat num = nat \<bar>sint num\<bar>"
proof -
  have r: "- 2147483648 \<le> sint num" using sint_range_size [of num] by (simp add: word_size)
  show "unat (- num) = nat \<bar>sint num\<bar>" if "sint num < 0"
  proof -
    have "uint (- num) = (- uint num) mod 4294967296" by (simp add: uint_word_ariths)
    also have "- uint num = - sint num + (- 1) * 4294967296" using that uint_of_sint [of num] by simp
    also have "(- sint num + (- 1) * 4294967296) mod 4294967296 = - sint num"
      using that r by (subst mod_mult_self1) (simp add: mod_pos_pos_trivial)
    finally show ?thesis using that by (simp add: unat_eq_nat_uint)
  qed
  show "unat num = nat \<bar>sint num\<bar>" if "\<not> sint num < 0"
    using that uint_of_sint [of num] by (simp add: unat_eq_nat_uint)
qed

lemma held_literal_made:
  assumes "held_string s bs (literal s l) xs" and "made s bs p n s' bs'"
  shows "held_string s' bs' (literal s' l) xs"
  using held_string_made [OF assms] madeD(5) [OF assms(2)] by auto

lemma made_literal: "made s bs p n s' bs' \<Longrightarrow> literal s' = literal s"
  using madeD(5) by fastforce

lemma length_magnitude: "length (magnitude_chars sys num) \<le> 32" "0 < length (magnitude_chars sys num)"
proof -
  have "length (magnitude_chars sys num) \<le> 32 \<and> 0 < length (magnitude_chars sys num)"
  proof (cases "num = 0")
    case False
    then have "0 < num" "0 < - num" by (simp_all add: word_neq_0_conv [symmetric])
    then show ?thesis
      using power_walk_digits(2,3) [of num sys] power_walk_digits(2,3) [of "- num" sys] magnitude [of num] False
      by (cases "sint num < 0") (auto simp: magnitude_chars_def)
  qed (simp add: magnitude_chars_def)
  then show "length (magnitude_chars sys num) \<le> 32" "0 < length (magnitude_chars sys num)" by blast+
qed

text \<open>The literals the formatter uses are in place, in bytes the heap does not own.\<close>

definition format_literals :: "string list" where
  "format_literals = [''true'', ''false'', ''.'', ''-'', ''.null'', ''0x'', ''0b'']"

definition literals_held :: "'a heap_state_scheme \<Rightarrow> blocks \<Rightarrow> bool" where
  "literals_held s bs \<longleftrightarrow> (\<forall>l \<in> set format_literals. held_string s bs (literal s l) (chars l))"

lemma literals_heldD: "literals_held s bs \<Longrightarrow> l \<in> set format_literals \<Longrightarrow> held_string s bs (literal s l) (chars l)"
  by (simp add: literals_held_def)

lemma literals_held_made: "literals_held s bs \<Longrightarrow> made s bs p n s' bs' \<Longrightarrow> literals_held s' bs'"
  unfolding literals_held_def using held_literal_made by blast

text \<open>A new string with its contents, under a budget.\<close>

definition new_string :: "'a heap_state_scheme \<Rightarrow> blocks \<Rightarrow> nat \<Rightarrow> u_byte list \<Rightarrow>
    ('a heap_state_scheme, addr) result \<Rightarrow> bool" where
  "new_string s bs N xs res \<longleftrightarrow> (\<exists>r s' bs'. res = Inr (r, s') \<and>
     made s bs r (of_nat (length xs + 1)) s' bs' \<and> reserve s' bs' N \<and> cstring (mem s') r xs)"

lemma new_stringI:
  "res = Inr (r, s') \<Longrightarrow> made s bs r (of_nat (length xs + 1)) s' bs' \<Longrightarrow> reserve s' bs' M \<Longrightarrow> N \<le> M \<Longrightarrow>
    cstring (mem s') r xs \<Longrightarrow> new_string s bs N xs res"
  unfolding new_string_def using reserve_mono by blast

lemma new_string_mono: "new_string s bs M xs res \<Longrightarrow> N \<le> M \<Longrightarrow> new_string s bs N xs res"
  unfolding new_string_def using reserve_mono by blast

lemma new_string_prefix:
  assumes "new_string s bs M xs res" and "held_string s bs lit ys"
    and "length ys + length xs + 1 < 2 ^ 31" and "N + (length ys + length xs + 13) \<le> M"
    and lit: "\<And>s'. literal s' = literal s \<Longrightarrow> lit = f s'"
  shows "new_string s bs N (ys @ xs) (and_then res (\<lambda>a s'. and_then (concatenate (f s') a s') (\<lambda>r s.
    and_then (unalloc a s) (\<lambda>_ s. Inr (r, s)))))"
proof -
  from assms(1) obtain a s1 bs1 where a: "res = Inr (a, s1)" "made s bs a (of_nat (length xs + 1)) s1 bs1"
    "reserve s1 bs1 M" "cstring (mem s1) a xs" by (auto simp: new_string_def)
  have k: "unat (of_nat (length xs + 1) :: u_dword) = length xs + 1" using assms(3) by (intro unat_of_nat32) simp
  have le: "length xs < unat (of_nat (length xs + 1) :: u_dword)" unfolding k by simp
  have le2: "length ys + length xs + 13 \<le> M" using assms(4) by simp
  have f: "f s1 = lit" using lit [OF made_literal [OF a(2)]] by simp
  from prefix_made [OF a(2,4) le assms(2,3) a(3) le2] obtain r s' bs' where
    "and_then (concatenate lit a s1) (\<lambda>r s. and_then (unalloc a s) (\<lambda>_ s. Inr (r, s))) = Inr (r, s')"
    "made s bs r (of_nat (length ys + length xs + 1)) s' bs'"
    "reserve s' bs' (M - (length ys + length xs + 13))" "cstring (mem s') r (ys @ xs)" .
  then show ?thesis
    using assms(4) by (intro new_stringI [where M = "M - (length ys + length xs + 13)"]) (auto simp: a(1) f)
qed

lemma int_to_string_new:
  assumes "heap_ok s bs" and "0 < b" and N: "reserve s bs (N + 45)"
  shows "new_string s bs N (numeral_chars sys (unat b)) (int_to_string b sys s)"
proof -
  define l where "l = length (digits (base sys) (unat b))"
  have l: "l \<le> 32" "l + 13 \<le> N + 45" using power_walk_digits(2) [OF assms(2), of sys] by (simp_all add: l_def)
  from int_to_string_made [OF assms, of sys, folded l_def, OF l(2)] obtain r s' bs' where
    c: "int_to_string b sys s = Inr (r, s')" "made s bs r (of_nat (l + 1)) s' bs'"
    "reserve s' bs' (N + 45 - (l + 13))" "cstring (mem s') r (numeral_chars sys (unat b))" .
  show ?thesis
    by (rule new_stringI [OF c(1) _ c(3) _ c(4)]) (use c(2) l in \<open>simp_all add: l_def\<close>)
qed

text \<open>Ten digits are enough for a number in decimal.\<close>

lemma int_to_string_decimal:
  assumes "heap_ok s bs" and "0 < b" and N: "reserve s bs (N + 23)"
  shows "new_string s bs N (numeral_chars DECIMAL (unat b)) (int_to_string b DECIMAL s)"
    and "length (numeral_chars DECIMAL (unat b)) \<le> 10"
proof -
  define l where "l = length (digits (base DECIMAL) (unat b))"
  have "0 < unat b" using assms(2) by (simp add: word_less_nat_alt)
  from digit_count_exists [OF this base_bounds(1)]
  obtain k where k: "base DECIMAL ^ k \<le> unat b" "unat b < base DECIMAL ^ Suc k" by blast
  have "(10 :: nat) ^ k < 10 ^ 10" using k(1) unat_lt32 [of b] by (simp add: base_def)
  then have "k < 10" by (rule power_less_imp_less_exp [rotated]) simp
  then have l: "l \<le> 10" using length_digits [OF base_bounds(1) k] by (simp add: l_def)
  then show "length (numeral_chars DECIMAL (unat b)) \<le> 10" by (simp add: l_def numeral_chars_def)
  from l have "l + 13 \<le> N + 23" by simp
  from int_to_string_made [OF assms, of DECIMAL, folded l_def, OF this] obtain r s' bs' where
    c: "int_to_string b DECIMAL s = Inr (r, s')" "made s bs r (of_nat (l + 1)) s' bs'"
    "reserve s' bs' (N + 23 - (l + 13))" "cstring (mem s') r (numeral_chars DECIMAL (unat b))" .
  show "new_string s bs N (numeral_chars DECIMAL (unat b)) (int_to_string b DECIMAL s)"
    by (rule new_stringI [OF c(1) _ c(3) _ c(4)]) (use c(2) l in \<open>simp_all add: l_def numeral_chars_def\<close>)
qed

lemma magnitude_made:
  assumes "heap_ok s bs" and N: "reserve s bs (N + 45)"
  shows "new_string s bs N (magnitude_chars sys num)
    (if num = 0 then char_to_string (atom_to_char 0 (system_value sys)) s
     else if sint num < 0 then int_to_string (- num) sys s else int_to_string num sys s)"
proof (cases "num = 0")
  case True
  have a0: "atom_to_char 0 (system_value sys) = 48"
    by (cases sys) (simp_all add: atom_to_char_def)
  have "14 \<le> N + 45" by simp
  from char_to_string_made [OF assms(1) N this, of 48] obtain r s' bs' where
    c: "char_to_string 48 s = Inr (r, s')" "made s bs r 2 s' bs'" "reserve s' bs' (N + 45 - 14)" "cstring (mem s') r [48]" by auto
  show ?thesis
    using c True by (intro new_stringI [where M = "N + 45 - 14"]) (auto simp: a0 magnitude_chars_def)
next
  case False
  have "0 < num" "0 < - num" using False by (simp_all add: word_neq_0_conv [symmetric])
  then show ?thesis
    using False int_to_string_new [OF assms(1) _ N, of num sys] int_to_string_new [OF assms(1) _ N, of "- num" sys]
      magnitude [of num] by (cases "sint num < 0") (simp_all add: magnitude_chars_def)
qed

lemma number_to_string_made:
  assumes "heap_ok s bs" and lits: "literals_held s bs" and N: "reserve s bs (N + 141)" and min: "num \<noteq> 0x80000000"
  shows "new_string s bs N (number_chars sys num) (number_to_string num sys s)"
proof -
  let ?mag = "if num = 0 then char_to_string (atom_to_char 0 (system_value sys)) s
        else if sint num < 0 then int_to_string (- num) sys s else int_to_string num sys s"
  note ll = length_magnitude(1) [of sys num]
  have "reserve s bs (N + 96 + 45)" using N by (simp add: add.assoc)
  note mag = magnitude_made [OF assms(1) this, of sys num]
  have "new_string s bs (N + 48) (chars (system_prefix sys) @ magnitude_chars sys num)
    (and_then ?mag (\<lambda>number s. case sys of
          DECIMAL \<Rightarrow> Inr (number, s)
        | HEXADECIMAL \<Rightarrow> and_then (concatenate (literal s ''0x'') number s) (\<lambda>result s.
            and_then (unalloc number s) (\<lambda>_ s. Inr (result, s)))
        | BINARY \<Rightarrow> and_then (concatenate (literal s ''0b'') number s) (\<lambda>result s.
            and_then (unalloc number s) (\<lambda>_ s. Inr (result, s)))))"
  proof (cases sys)
    case DECIMAL
    then show ?thesis using new_string_mono [OF mag, of "N + 48"] by (auto simp: new_string_def chars_def)
  next
    case HEXADECIMAL
    have "held_string s bs (literal s ''0x'') (chars ''0x'')"
      by (rule literals_heldD [OF lits]) (simp add: format_literals_def)
    from new_string_prefix [OF mag this, where N = "N + 48" and f = "\<lambda>s. literal s ''0x''"] HEXADECIMAL ll
    show ?thesis by (simp add: chars_def)
  next
    case BINARY
    have "held_string s bs (literal s ''0b'') (chars ''0b'')"
      by (rule literals_heldD [OF lits]) (simp add: format_literals_def)
    from new_string_prefix [OF mag this, where N = "N + 48" and f = "\<lambda>s. literal s ''0b''"] BINARY ll
    show ?thesis by (simp add: chars_def)
  qed
  note pre = this
  let ?pre = "and_then ?mag (\<lambda>number s. case sys of
          DECIMAL \<Rightarrow> Inr (number, s)
        | HEXADECIMAL \<Rightarrow> and_then (concatenate (literal s ''0x'') number s) (\<lambda>result s.
            and_then (unalloc number s) (\<lambda>_ s. Inr (result, s)))
        | BINARY \<Rightarrow> and_then (concatenate (literal s ''0b'') number s) (\<lambda>result s.
            and_then (unalloc number s) (\<lambda>_ s. Inr (result, s))))"
  have eq: "number_to_string num sys s = and_then ?pre (\<lambda>result s. if sint num < 0 then
         and_then (concatenate (literal s ''-'') result s) (\<lambda>signum s.
         and_then (unalloc result s) (\<lambda>_ s. Inr (signum, s))) else Inr (result, s))"
    unfolding number_to_string_def and_then_assoc using min by (simp only: if_False)
  show ?thesis
  proof (cases "sint num < 0")
    case True
    have "held_string s bs (literal s ''-'') (chars ''-'')"
      by (rule literals_heldD [OF lits]) (simp add: format_literals_def)
    moreover have "length (chars (system_prefix sys)) \<le> 2" "length (chars ''-'') = 1"
      by (cases sys; simp add: chars_def)+
    ultimately have "new_string s bs N (chars ''-'' @ chars (system_prefix sys) @ magnitude_chars sys num)
      (and_then ?pre (\<lambda>result s. and_then (concatenate (literal s ''-'') result s) (\<lambda>signum s.
         and_then (unalloc result s) (\<lambda>_ s. Inr (signum, s)))))"
      using ll by (intro new_string_prefix [OF pre]) auto
    then show ?thesis unfolding eq number_chars_def using True by simp
  next
    case False
    have "new_string s bs N (chars (system_prefix sys) @ magnitude_chars sys num) ?pre"
      by (rule new_string_mono [OF pre]) simp
    then show ?thesis unfolding eq number_chars_def using False by (simp add: and_then_return)
  qed
qed

section \<open>Joining two new strings\<close>

lemma new_string_cases:
  assumes "new_string s bs N xs res" and "length xs + 1 < 2 ^ 31"
  obtains r s' bs' where "res = Inr (r, s')" and "made s bs r (of_nat (length xs + 1)) s' bs'"
    and "reserve s' bs' N" and "held_string s' bs' r xs"
proof -
  from assms(1) obtain r s' bs' where r: "res = Inr (r, s')" "made s bs r (of_nat (length xs + 1)) s' bs'"
    "reserve s' bs' N" "cstring (mem s') r xs" by (auto simp: new_string_def)
  have k: "unat (of_nat (length xs + 1) :: u_dword) = length xs + 1" using assms(2) by (intro unat_of_nat32) simp
  have "length xs < unat (of_nat (length xs + 1) :: u_dword)" unfolding k by simp
  from that [OF r(1-3) made_holds [OF r(2,4) this]] show thesis .
qed

lemma free_concat_made:
  assumes grown: "grown s bs {#(a, k), (c, l)#} s2 bs2"
    and "held_string s2 bs2 a xs" and "held_string s2 bs2 c ys" and small: "length xs + length ys + 1 < 2 ^ 31"
    and N: "reserve s2 bs2 (N + (length xs + length ys + 13))"
  shows "new_string s bs N (xs @ ys) (free_concat a c s2)"
proof -
  let ?n = "of_nat (length xs + length ys + 1) :: u_dword"
  have n: "unat ?n = length xs + length ys + 1" using small by (intro unat_of_nat32) simp
  from concatenate_made [OF grownD(1) [OF grown] assms(2,3) small N le_add2]
  obtain r s3 bs3 where c: "concatenate a c s2 = Inr (r, s3)" "made s2 bs2 r ?n s3 bs3"
    "reserve s3 bs3 N" "cstring (mem s3) r (xs @ ys)" by auto
  have "length (xs @ ys) < unat ?n" unfolding n by simp
  note held3 = made_holds [OF c(2,4) this]
  have "{#(a, k), (c, l)#} + {#(r, ?n)#} = add_mset (a, k) {#(c, l), (r, ?n)#}" by simp
  then have "grown s bs (add_mset (a, k) {#(c, l), (r, ?n)#}) s3 bs3"
    using grown_trans [OF grown grown_made [OF c(2)]] by metis
  from grown_free [OF this] obtain s4 bs4 where f4: "unalloc a s3 = Inr ((), s4)"
    "grown s bs {#(c, l), (r, ?n)#} s4 bs4" "\<And>N. reserve s3 bs3 N \<Longrightarrow> reserve s4 bs4 N"
    "\<And>x. held_byte s3 bs3 x \<Longrightarrow> mem s4 x = mem s3 x" by blast
  from grown_free [OF f4(2)] obtain s5 bs5 where f5: "unalloc c s4 = Inr ((), s5)"
    "grown s bs {#(r, ?n)#} s5 bs5" "\<And>N. reserve s4 bs4 N \<Longrightarrow> reserve s5 bs5 N"
    "\<And>x. held_byte s4 bs4 x \<Longrightarrow> mem s5 x = mem s4 x" by blast
  have "in_range r (unat ?n) (r + of_nat i)" if "i \<le> length (xs @ ys)" for i
    using that small unfolding n by (subst in_range_offset) auto
  then have "held_byte s4 bs4 (r + of_nat i)" if "i \<le> length (xs @ ys)" for i
    using that grownD(6) [OF f4(2)] by (auto simp: in_blocks_def)
  then have "cstring (mem s5) r (xs @ ys)"
    using held3 f4(4) f5(4) cstring_cong [of "xs @ ys" "mem s5" r "mem s3"] by (simp add: held_string_def)
  moreover have "made s bs r ?n s5 bs5"
    using made_grown [OF f5(2)] madeD(3,4) [OF c(2)] by blast
  ultimately show ?thesis
    using c(1,3) f4(1,3) f5(1,3) by (intro new_stringI [where M = N]) (auto simp: free_concat_def)
qed

section \<open>Conversions\<close>

definition pointer_chars :: "addr \<Rightarrow> u_byte list" where
  "pointer_chars v = (if v = nullptr then chars ''.null'' else chars ''.'' @ numeral_chars HEXADECIMAL (unat v))"

lemma const_literal_made:
  assumes "heap_ok s bs" and "literals_held s bs" and "l \<in> set format_literals" and "reserve s bs (N + 20)"
  shows "new_string s bs N (chars l) (const_to_string (literal s l) s)"
proof -
  have le: "length (chars l) \<le> 5" using assms(3) by (auto simp: format_literals_def chars_def)
  then have "length (chars l) + 1 < 2 ^ 31" "length (chars l) + 13 \<le> N + 20" by auto
  from const_to_string_made [OF assms(1) literals_heldD [OF assms(2,3)] this(1) assms(4) this(2)]
  obtain r s' bs' where "const_to_string (literal s l) s = Inr (r, s')" "made s bs r (of_nat (length (chars l) + 1)) s' bs'"
    "reserve s' bs' (N + 20 - (length (chars l) + 13))" "cstring (mem s') r (chars l)" .
  then show ?thesis using le by (intro new_stringI [where M = "N + 20 - (length (chars l) + 13)"]) auto
qed

lemma pointer_to_string_made:
  assumes "heap_ok s bs" and lits: "literals_held s bs" and N: "reserve s bs (N + 141)"
  shows "new_string s bs N (pointer_chars v) (pointer_to_string v s)"
proof (cases "v = nullptr")
  case True
  have "new_string s bs N (chars ''.null'') (const_to_string (literal s ''.null'') s)"
    using reserve_mono [OF N] by (intro const_literal_made [OF assms(1,2)]) (simp_all add: format_literals_def)
  then show ?thesis using True by (simp add: pointer_to_string_def pointer_chars_def)
next
  case False
  then have v: "0 < v" by (simp add: word_neq_0_conv)
  have l: "length (digits (base HEXADECIMAL) (unat v)) \<le> 32" by (rule power_walk_digits(2) [OF v])
  have "reserve s bs (N + 96 + 45)" using N by (simp add: add.assoc)
  from int_to_string_new [OF assms(1) v this]
  have "new_string s bs (N + 96) (numeral_chars HEXADECIMAL (unat v)) (int_to_string v HEXADECIMAL s)" .
  moreover have "held_string s bs (literal s ''.'') (chars ''.'')"
    by (rule literals_heldD [OF lits]) (simp add: format_literals_def)
  ultimately have "new_string s bs N (chars ''.'' @ numeral_chars HEXADECIMAL (unat v))
    (and_then (int_to_string v HEXADECIMAL s) (\<lambda>a s'. and_then (concatenate (literal s' ''.'') a s') (\<lambda>r s.
      and_then (unalloc a s) (\<lambda>_ s. Inr (r, s)))))"
    using l by (intro new_string_prefix) (auto simp: chars_def)
  then show ?thesis using False by (simp add: pointer_to_string_def pointer_chars_def)
qed

section \<open>Decoding\<close>

text \<open>Reading a decimal numeral back.\<close>

definition parse_decimal :: "u_byte list \<Rightarrow> int" where
  "parse_decimal xs =
     (let value = (\<lambda>ys. int (number_of 10 (map (\<lambda>c. unat c - 48) ys)))
      in if xs \<noteq> [] \<and> hd xs = 45 then - value (tl xs) else value xs)"

lemma decode_digits: "map (\<lambda>c. unat c - 48) (numeral_chars DECIMAL n) = digits 10 n"
proof -
  have "unat (if d < 10 then of_nat (48 + d) else of_nat (55 + d) :: u_byte) - 48 = d" if "d \<in> set (digits 10 n)" for d
    using digits_less [OF _ that] by (simp add: unat_of_nat del: of_nat_add)
  then show ?thesis by (simp add: numeral_chars_def base_def map_idI)
qed

lemma numeral_chars_no_minus: "n \<noteq> 0 \<Longrightarrow> numeral_chars DECIMAL n \<noteq> [] \<and> hd (numeral_chars DECIMAL n) \<noteq> 45"
proof -
  assume n: "n \<noteq> 0"
  have "digits 10 n \<noteq> []" using n by (subst digits.simps) simp
  then obtain d ds where ds: "digits 10 n = d # ds" by (cases "digits 10 n") auto
  then have "d < 10" using digits_less [of 10 d n] by simp
  then have "unat (of_nat (48 + d) :: u_byte) = 48 + d" by (simp add: unat_of_nat del: of_nat_add)
  then have "of_nat (48 + d) \<noteq> (45 :: u_byte)"
    using arg_cong [of "of_nat (48 + d)" "45 :: u_byte" unat] by (auto simp del: of_nat_add)
  then show ?thesis using ds \<open>d < 10\<close> by (simp add: numeral_chars_def base_def)
qed

lemma parse_number_chars: "parse_decimal (number_chars DECIMAL num) = sint num"
proof (cases "num = 0")
  case True
  then show ?thesis by (simp add: number_chars_def magnitude_chars_def parse_decimal_def number_of_def chars_def)
next
  case False
  define n where "n = nat \<bar>sint num\<bar>"
  have n: "n \<noteq> 0" using False by (simp add: n_def) (metis signed_eq_0_iff)
  have val: "number_of 10 (map (\<lambda>c. unat c - 48) (numeral_chars DECIMAL n)) = n"
    unfolding decode_digits by (rule number_of_digits) simp
  have mag: "magnitude_chars DECIMAL num = numeral_chars DECIMAL n" using False by (simp add: magnitude_chars_def n_def)
  show ?thesis
  proof (cases "sint num < 0")
    case True
    then have "number_chars DECIMAL num = 45 # numeral_chars DECIMAL n"
      by (simp add: number_chars_def mag chars_def of_char_def)
    then show ?thesis using val True by (simp add: parse_decimal_def n_def)
  next
    case False
    then have "number_chars DECIMAL num = numeral_chars DECIMAL n" by (simp add: number_chars_def mag chars_def)
    then show ?thesis using val False numeral_chars_no_minus [OF n] by (simp add: parse_decimal_def n_def)
  qed
qed

section \<open>States for the witnesses\<close>

text \<open>
  A heap of 64 KB; the formatter's literals, a template and argument slots behind the stack slot
  of the template: the number -42 and eight bytes of floating point.
\<close>

definition demo_literal :: "string \<Rightarrow> addr" where
  "demo_literal l =
     (if l = ''true'' then 0x20000 else if l = ''false'' then 0x20010 else if l = ''.'' then 0x20020
      else if l = ''-'' then 0x20030 else if l = ''.null'' then 0x20040 else if l = ''0x'' then 0x20050 else 0x20060)"

definition demo_texts :: "(addr \<times> u_byte list) list" where
  "demo_texts = [(0x20000, chars ''true''), (0x20010, chars ''false''), (0x20020, chars ''.''), (0x20030, chars ''-''),
     (0x20040, chars ''.null''), (0x20050, chars ''0x''), (0x20060, chars ''0b''), (0x21000, chars ''%d %f''),
     (0x2200c, [0xd6, 0xff, 0xff, 0xff, 0, 0, 0, 0x10, 1, 0, 0, 0])]"

definition put_text :: "addr \<times> u_byte list \<Rightarrow> memory \<Rightarrow> memory" where
  "put_text = (\<lambda>(a, xs) m x. if unat (x - a) < length xs then xs ! unat (x - a) else m x)"

definition demo_format :: heap_state where
  "demo_format = (demo_heap 0x10000)\<lparr>mem := fold put_text demo_texts (mem (demo_heap 0x10000)), literal := demo_literal\<rparr>"

lemma demo_heap_blank: "\<not> in_range 0x1000 12 x \<Longrightarrow> mem (demo_heap cap) x = 0"
  by (simp add: demo_heap_def initialize_heap_fields)

lemma fold_frame: "(\<And>t m. t \<in> set ts \<Longrightarrow> f t m x = m x) \<Longrightarrow> fold f ts m x = m x"
  by (induction ts arbitrary: m) auto

lemma demo_texts_outside: "unat x < 0x20000 \<Longrightarrow> fold put_text demo_texts m x = m x"
proof -
  assume x: "unat x < 0x20000"
  have "put_text t m x = m x" if "t \<in> set demo_texts" for t m
  proof -
    obtain a xs where t: "t = (a, xs)" by (cases t)
    then have "0x20000 \<le> unat a" "unat a + length xs < 0x30000"
      using that by (auto simp: demo_texts_def chars_def)
    then have "\<not> unat (x - a) < length xs" using x by (simp add: unat_minus_lt)
    then show ?thesis by (simp add: put_text_def t)
  qed
  then show ?thesis by (rule fold_frame)
qed

lemma demo_format_state:
  shows "heap_ok demo_format []" and "reserve demo_format [] 60000"
    and "0x20000 \<le> unat x \<Longrightarrow> held_byte demo_format [] x"
proof -
  let ?h = "demo_heap 0x10000"
  define m where "m = fold put_text demo_texts (mem ?h)"
  have inv: "heap_ok ?h []" by (rule demo_heap_ok) simp_all
  have use: "usable_end ?h = 0x11000" by (subst demo_heap_ok) (simp_all add: demo_heap_fields)
  have far: "held_byte ?h [] x" if "0x20000 \<le> unat x" for x
    using that by (simp add: held_byte_def use)
  have out: "m x = mem ?h x" if "\<not> held_byte ?h [] x" for x
  proof -
    have "unat x < 0x20000" using far [of x] that by (meson not_le)
    then show ?thesis using demo_texts_outside [of x "mem ?h"] by (simp add: m_def)
  qed
  note w = held_write [of ?h "[]" m, OF inv out]
  let ?s = "?h\<lparr>mem := m\<rparr>"
  have ends: "mem demo_format = mem ?s" "header demo_format = header ?s" by (simp_all add: demo_format_def m_def)
  note v = heap_view [OF ends]
  show "heap_ok demo_format []" using w(1) v(1) by blast
  have "reserve ?h [] 60000" by (simp add: reserve_def use demo_heap_fields)
  then show "reserve demo_format [] 60000" using w(5) v(3) by blast
  show "held_byte demo_format [] x" if "0x20000 \<le> unat x" using far [OF that] w(2) v(2) by blast
qed

lemma demo_held:
  assumes "cstring (mem demo_format) a xs" and "0x20000 \<le> unat a" and "length xs < 100" and "unat a < 0x30000"
  shows "held_string demo_format [] a xs"
proof -
  have "0x20000 \<le> unat (a + of_nat i)" if "i \<le> length xs" for i
    using assms(2-) that by (subst unat_plus_small) (simp_all add: unat_of_nat)
  then show ?thesis using assms(1) demo_format_state(3) by (simp add: held_string_def)
qed

lemma demo_format_texts:
  "cstring (mem demo_format) 0x20000 (chars ''true'')" "cstring (mem demo_format) 0x20010 (chars ''false'')"
  "cstring (mem demo_format) 0x20020 (chars ''.'')" "cstring (mem demo_format) 0x20030 (chars ''-'')"
  "cstring (mem demo_format) 0x20040 (chars ''.null'')" "cstring (mem demo_format) 0x20050 (chars ''0x'')"
  "cstring (mem demo_format) 0x20060 (chars ''0b'')" "cstring (mem demo_format) 0x21000 (chars ''%d %f'')"
  by (simp_all add: demo_format_def demo_texts_def put_text_def chars_def of_char_def demo_heap_blank in_range_def)

lemma demo_literals: "literals_held demo_format []"
proof -
  have "held_string demo_format [] 0x20000 (chars ''true'')"
    by (rule demo_held [OF demo_format_texts(1)]; simp add: chars_def)
  moreover have "held_string demo_format [] 0x20010 (chars ''false'')"
    by (rule demo_held [OF demo_format_texts(2)]; simp add: chars_def)
  moreover have "held_string demo_format [] 0x20020 (chars ''.'')"
    by (rule demo_held [OF demo_format_texts(3)]; simp add: chars_def)
  moreover have "held_string demo_format [] 0x20030 (chars ''-'')"
    by (rule demo_held [OF demo_format_texts(4)]; simp add: chars_def)
  moreover have "held_string demo_format [] 0x20040 (chars ''.null'')"
    by (rule demo_held [OF demo_format_texts(5)]; simp add: chars_def)
  moreover have "held_string demo_format [] 0x20050 (chars ''0x'')"
    by (rule demo_held [OF demo_format_texts(6)]; simp add: chars_def)
  moreover have "held_string demo_format [] 0x20060 (chars ''0b'')"
    by (rule demo_held [OF demo_format_texts(7)]; simp add: chars_def)
  moreover have "literal demo_format = demo_literal" by (simp add: demo_format_def)
  moreover have "demo_literal ''true'' = 0x20000" "demo_literal ''false'' = 0x20010" "demo_literal ''.'' = 0x20020"
    "demo_literal ''-'' = 0x20030" "demo_literal ''.null'' = 0x20040" "demo_literal ''0x'' = 0x20050"
    "demo_literal ''0b'' = 0x20060"
    by (simp_all add: demo_literal_def)
  ultimately show ?thesis unfolding literals_held_def format_literals_def list.set by (simp only: ball_simps simp_thms)
qed

section \<open>Properties\<close>

text \<open>
  (C32) Decimal conversion round-trips: for every 32-bit signed number but -2147483648, whose negation
  C leaves undefined, the string \<^verbatim>\<open>number_to_string\<close> leaves in memory reads back as that number.
\<close>

theorem number_to_string_roundtrip:
  assumes "heap_ok s bs" and "literals_held s bs" and "reserve s bs (N + 141)"
  shows "if num = 0x80000000 then number_to_string num DECIMAL s = Inl (Undefined s)
    else \<exists>r s' xs. number_to_string num DECIMAL s = Inr (r, s') \<and> cstring (mem s') r xs \<and> parse_decimal xs = sint num"
proof (cases "num = 0x80000000")
  case True
  moreover from this have "sint num < 0" by simp
  ultimately show ?thesis by (simp add: number_to_string_def)
next
  case False
  then show ?thesis using number_to_string_made [OF assms, of num DECIMAL] parse_number_chars [of num] by (auto simp: new_string_def)
qed

theorem number_to_string_roundtrip_witness:
  "\<exists>r s' xs. number_to_string 0x80000001 DECIMAL demo_format = Inr (r, s') \<and> cstring (mem s') r xs \<and>
    parse_decimal xs = - 2147483647"
  using number_to_string_roundtrip [OF demo_format_state(1) demo_literals, of 0 "0x80000001"]
    reserve_mono [OF demo_format_state(2), of 141] by simp

text \<open>
  Zero is a special case \<^verbatim>\<open>int_to_string\<close> does not handle: the block gets its terminator, but
  the only digit position is never written and keeps whatever the memory held.
\<close>

lemma int_to_string_zero:
  "int_to_string 0 sys s =
    and_then (ralloc 2 s) (\<lambda>r s. Inr (r, s\<lparr>mem := (mem s)(r + 1 := 0)\<rparr>))"
proof -
  have "power_walk (Suc f) (ucast (system_value sys)) 1 0 (system_value sys) = Some 1" for f
    by (cases sys) simp_all
  then have "power_walk (2 ^ 64) (ucast (system_value sys)) 1 0 (system_value sys) = Some 1"
    by (metis not0_implies_Suc power_not_zero zero_neq_numeral)
  moreover have "digit_walk f 0 1 (system_value sys) r m = Some m" for f r m
    by (cases f) simp_all
  ultimately show ?thesis by (simp add: int_to_string_def)
qed

end
