(* ===== verification/Interrupts.thy ===== *)
theory Interrupts
  imports Format
begin

text \<open>
  \<^verbatim>\<open>core/kernel/interruption_tables.c\<close> (the descriptor table, the remapping of the interrupt
  controllers, the handler table and the acknowledgement of hardware interrupts) and the
  programming of the timer in \<^verbatim>\<open>core/kernel/timer.c\<close>.
\<close>

section \<open>State\<close>

text \<open>The C functions the sources register as interrupt handlers.\<close>

datatype interruption_handler =
    Timer_callback | Screen_callback | Debug_handler | Keyboard_callback | Silent_handler | Page_fault

text \<open>
  The assembly entry points: \<open>Isr n\<close> is \<^verbatim>\<open>isr\<close>\<open>n\<close>, \<open>Irq n\<close> is \<^verbatim>\<open>irq\<close>\<open>n\<close>. Each pushes a vector number
  and jumps to the common code that calls \<^verbatim>\<open>isr_handler\<close> or \<^verbatim>\<open>irq_handler\<close>.
\<close>

datatype stub = Isr nat | Irq nat

fun stub_vector :: "stub \<Rightarrow> nat" where
  "stub_vector (Isr n) = n"
| "stub_vector (Irq n) = 32 + n"

text \<open>
  \<open>stub_address\<close> is the address the linker gives an entry point; \<open>idtr\<close> is the operand of the last
  \<^verbatim>\<open>lidt\<close>, \<open>int_flag\<close> the interrupt flag. The three frames are the stack addresses of the
  activations of \<^verbatim>\<open>format\<close>, of \<^verbatim>\<open>extract_dword_args\<close> and of a system call.
\<close>

record int_state = heap_state +
  interruption_handlers :: "u_byte \<Rightarrow> interruption_handler option"
  idt_table :: addr
  stub_address :: "stub \<Rightarrow> addr"
  idtr :: addr
  int_flag :: bool
  tick :: u_dword
  format_frame :: addr
  extract_frame :: addr
  system_frame :: addr

section \<open>The descriptor table\<close>

definition interruptions_placement :: addr where "interruptions_placement = 0x500"

definition create_idt_entry ::
    "u_dword \<Rightarrow> addr \<Rightarrow> u_word \<Rightarrow> u_byte \<Rightarrow> 'a int_state_scheme \<Rightarrow> 'a int_state_scheme" where
  "create_idt_entry pos target selector flags s =
     (let e = idt_table s + 8 * pos;
          m = mem s;
          m = store16 m e (ucast (target AND 0xffff));
          m = store16 m (e + 2) selector;
          m = m(e + 4 := 0);
          m = m(e + 5 := flags);
          m = store16 m (e + 6) (ucast (drop_bit 16 target))
      in s\<lparr>mem := m\<rparr>)"

definition install :: "nat \<times> stub \<Rightarrow> 'a int_state_scheme \<Rightarrow> 'a int_state_scheme" where
  "install = (\<lambda>(pos, st) s. create_idt_entry (of_nat pos) (stub_address s st) 0x08 0x8e s)"

definition exception_gates :: "(nat \<times> stub) list" where
  "exception_gates = map (\<lambda>n. (n, Isr n)) [0..<32]"

definition hardware_gates :: "(nat \<times> stub) list" where
  "hardware_gates = map (\<lambda>k. (32 + k, Irq k)) [0..<16]"

definition system_gates :: "(nat \<times> stub) list" where
  "system_gates = map (\<lambda>n. (n, Isr n)) [48..<53]"

definition default_gates :: "(nat \<times> stub) list" where
  "default_gates = map (\<lambda>i. (i, Isr 32)) [53..<256]"

definition remap_controllers :: "'a int_state_scheme \<Rightarrow> 'a int_state_scheme" where
  "remap_controllers s =
     (let (master_mask, s) = port_byte_in 0x21 s;
          (slave_mask, s) = port_byte_in 0xa1 s;
          s = port_byte_out 0x20 0x11 s;
          s = port_byte_out 0xa0 0x11 s;
          s = port_byte_out 0x21 0x20 s;
          s = port_byte_out 0xa1 0x28 s;
          s = port_byte_out 0x21 0x04 s;
          s = port_byte_out 0xa1 0x02 s;
          s = port_byte_out 0x21 0x01 s;
          s = port_byte_out 0xa1 0x01 s;
          s = port_byte_out 0x21 0x0 s;
          s = port_byte_out 0xa1 0x0 s;
          s = port_byte_out 0x21 master_mask s;
          s = port_byte_out 0xa1 slave_mask s
      in s)"

text \<open>The assembly routine loads the table register and enables interrupts.\<close>

definition idt_flush :: "addr \<Rightarrow> 'a int_state_scheme \<Rightarrow> 'a int_state_scheme" where
  "idt_flush descriptor s = s\<lparr>idtr := descriptor, int_flag := True\<rparr>"

definition init_interruptions :: "'a int_state_scheme \<Rightarrow> 'a int_state_scheme" where
  "init_interruptions s =
     (let s = s\<lparr>idt_table := interruptions_placement\<rparr>;
          s = s\<lparr>mem := memory_clear (idt_table s) (256 * 8) 0 (mem s)\<rparr>;
          s = fold install exception_gates s;
          s = remap_controllers s;
          s = fold install hardware_gates s;
          s = fold install system_gates s;
          s = fold install default_gates s;
          s = s\<lparr>mem := store16 (mem s) (idt_table s + 2048) (256 * 8 - 1)\<rparr>;
          s = s\<lparr>mem := store32 (mem s) (idt_table s + 2048 + 2) (idt_table s)\<rparr>
      in idt_flush (idt_table s + 2048) s)"

section \<open>Handlers, acknowledgement and the timer\<close>

text \<open>
  The assignment shared by \<^verbatim>\<open>set_interrupt_handler\<close> and \<^verbatim>\<open>silence_interrupt\<close>; the message they
  print follows with the console.
\<close>

definition put_handler :: "u_byte \<Rightarrow> interruption_handler \<Rightarrow> 'a int_state_scheme \<Rightarrow> 'a int_state_scheme" where
  "put_handler n h s = s\<lparr>interruption_handlers := (interruption_handlers s)(n := Some h)\<rparr>"

interpretation int_table: handler_table interruption_handlers put_handler
  by unfold_locales (simp add: put_handler_def)

text \<open>The part of \<^verbatim>\<open>irq_handler\<close> that signals the end of the interrupt.\<close>

definition acknowledge :: "u_dword \<Rightarrow> 'a int_state_scheme \<Rightarrow> 'a int_state_scheme" where
  "acknowledge int_no s =
     (let s = (if int_no \<ge> 40 then port_byte_out 0xa0 0x20 s else s)
      in port_byte_out 0x20 0x20 s)"

text \<open>
  \<^verbatim>\<open>init_timer\<close>. Vector 32 is the one for which registering prints nothing. A frequency of zero
  makes the division trap.
\<close>

definition init_timer :: "u_dword \<Rightarrow> 'a int_state_scheme \<Rightarrow> ('a int_state_scheme, unit) result" where
  "init_timer frequency s =
     (let s = put_handler 32 Timer_callback s in
      if frequency = 0 then Inl (Undefined s)
      else
        (let divisor = 1193180 div frequency;
             s = port_byte_out 0x43 0x36 s;
             l = ucast (divisor AND 0xff);
             h = ucast (drop_bit 8 divisor AND 0xff);
             s = port_byte_out 0x40 l s;
             s = port_byte_out 0x40 h s
         in Inr ((), s)))"

section \<open>Reading the table as the processor does\<close>

definition gate_target :: "memory \<Rightarrow> addr \<Rightarrow> addr" where
  "gate_target m e = ucast (load16 m e) OR push_bit 16 (ucast (load16 m (e + 6)))"

definition gate :: "memory \<Rightarrow> addr \<Rightarrow> addr \<times> u_word \<times> u_byte \<times> u_byte" where
  "gate m e = (gate_target m e, load16 m (e + 2), m (e + 4), m (e + 5))"

lemma halves_join: "(ucast (ucast (x AND 0xffff) :: u_word) OR push_bit 16 (ucast (ucast (drop_bit 16 x) :: u_word)) :: u_dword) = x"
proof (rule bit_word_eqI)
  fix n
  assume "n < LENGTH(32)"
  then have n: "n < 32" by simp
  have m: "x AND 0xffff = take_bit 16 x"
    by (simp add: take_bit_eq_mask mask_eq_exp_minus_1)
  show "bit (ucast (ucast (x AND 0xffff) :: u_word) OR push_bit 16 (ucast (ucast (drop_bit 16 x) :: u_word)) :: u_dword) n = bit x n"
    unfolding m using n
    by (cases "n < 16") (auto simp: bit_or_iff bit_take_bit_iff bit_ucast_iff bit_push_bit_iff bit_drop_bit_eq)
qed

lemma load16_store16_other:
  "disjoint_ranges a 2 b 2 \<Longrightarrow> load16 (store16 m a v) b = load16 m b"
  by (rule load16_cong) (auto intro: store16_outside dest: disjoint_rangesD)

lemma create_idt_entry_gate:
  "gate (mem (create_idt_entry pos target sel flags s)) (idt_table s + 8 * pos) = (target, sel, 0, flags)"
proof -
  let ?e = "idt_table s + 8 * pos"
  have d: "disjoint_ranges (?e + 2) 2 ?e 2" "disjoint_ranges (?e + 6) 2 ?e 2" "disjoint_ranges (?e + 6) 2 (?e + 2) 2"
    by (rule disjoint_by_distance; simp)+
  have upd: "load16 (m(?e + 4 := a)) ?e = load16 m ?e" "load16 (m(?e + 5 := a)) ?e = load16 m ?e"
    "load16 (m(?e + 4 := a)) (?e + 2) = load16 m (?e + 2)" "load16 (m(?e + 5 := a)) (?e + 2) = load16 m (?e + 2)" for m a
    by (auto simp: load16_def)
  have out: "store16 m (?e + 6) a (?e + 4) = m (?e + 4)" "store16 m (?e + 6) a (?e + 5) = m (?e + 5)" for m a
    by (auto intro!: store16_outside simp: in_range_def unsigned_minus_1_eq_mask mask_eq_exp_minus_1)
  show ?thesis
    by (simp add: gate_def gate_target_def create_idt_entry_def Let_def load16_store16_other d upd out halves_join)
qed

lemma create_idt_entry_outside:
  assumes "\<not> in_range (idt_table s + 8 * pos) 8 x"
  shows "mem (create_idt_entry pos target sel flags s) x = mem s x"
proof -
  let ?e = "idt_table s + 8 * pos"
  have sub: "in_range ?e 8 y" if "in_range (?e + of_nat off) 2 y" "off \<le> 6" for off y
    using in_range_append [of off 2 ?e y] that by (simp add: in_range_def)
  have "\<not> in_range ?e 2 x" "\<not> in_range (?e + 2) 2 x" "\<not> in_range (?e + 6) 2 x"
    using sub [of 0 x] sub [of 2 x] sub [of 6 x] assms by auto
  moreover have "x \<noteq> ?e + 4" "x \<noteq> ?e + 5" using assms by (auto simp: in_range_def)
  ultimately show ?thesis by (simp add: create_idt_entry_def Let_def store16_outside)
qed

lemma gate_frame:
  assumes "\<And>x. in_range e 8 x \<Longrightarrow> m' x = m x"
  shows "gate m' e = gate m e"
proof -
  have sub: "in_range e 8 y" if "in_range (e + of_nat off) 2 y" "off \<le> 6" for off y
    using in_range_append [of off 2 e y] that by (simp add: in_range_def)
  have "load16 m' (e + of_nat off) = load16 m (e + of_nat off)" if "off \<le> 6" for off
    using sub [OF _ that] assms by (intro load16_cong) blast
  from this [of 0] this [of 2] this [of 6] have "load16 m' e = load16 m e" "load16 m' (e + 2) = load16 m (e + 2)"
    "load16 m' (e + 6) = load16 m (e + 6)" by simp_all
  moreover have "m' (e + 4) = m (e + 4)" "m' (e + 5) = m (e + 5)"
    using assms by (simp_all add: in_range_def)
  ultimately show ?thesis by (simp add: gate_def gate_target_def)
qed

lemma install_fields [simp]:
  "idt_table (install g s) = idt_table s" "stub_address (install g s) = stub_address s"
  "io_trace (install g s) = io_trace s" "device (install g s) = device s"
  by (simp_all add: install_def create_idt_entry_def Let_def split: prod.splits)

lemma fold_install_fields [simp]:
  "idt_table (fold install gs s) = idt_table s" "stub_address (fold install gs s) = stub_address s"
  "io_trace (fold install gs s) = io_trace s" "device (fold install gs s) = device s"
  by (induction gs arbitrary: s) simp_all

lemma entries_apart:
  assumes "i < 256" and "j < 256" and "i \<noteq> j" and "in_range (0x500 + 8 * of_nat i) 8 x"
  shows "\<not> in_range (0x500 + 8 * of_nat j) 8 x"
proof -
  have e: "unat (0x500 + 8 * of_nat k :: addr) = 0x500 + 8 * k" if "k < 256" for k
  proof -
    have "unat (8 * of_nat k :: addr) = 8 * k" using that by (simp add: unat_word_ariths unat_of_nat)
    then show ?thesis using that by (subst unat_plus_small) simp_all
  qed
  show ?thesis using assms by (simp add: in_range_linear e)
qed

lemma fold_install_gate:
  assumes "idt_table s = 0x500" and "distinct (map fst gs)" and "\<forall>(p, st) \<in> set gs. p < 256"
  shows "n < 256 \<Longrightarrow> gate (mem (fold install gs s)) (0x500 + 8 * of_nat n) =
    (case map_of gs n of Some st \<Rightarrow> (stub_address s st, 0x08, 0, 0x8e) | None \<Rightarrow> gate (mem s) (0x500 + 8 * of_nat n))"
  using assms
proof (induction gs arbitrary: s)
  case (Cons g gs)
  obtain p st where g: "g = (p, st)" by (cases g)
  have one: "gate (mem (install g s)) (0x500 + 8 * of_nat n) =
      (if n = p then (stub_address s st, 0x08, 0, 0x8e) else gate (mem s) (0x500 + 8 * of_nat n))"
  proof (cases "n = p")
    case True
    then show ?thesis
      using create_idt_entry_gate [of "of_nat p" "stub_address s st" "0x08" "0x8e" s] Cons.prems(2) by (simp add: g install_def)
  next
    case False
    have "mem (install g s) x = mem s x" if "in_range (0x500 + 8 * of_nat n) 8 x" for x
      using entries_apart [OF Cons.prems(1) _ False that] Cons.prems(2,4) create_idt_entry_outside [of s "of_nat p" x]
      by (simp add: g install_def)
    from gate_frame [of "0x500 + 8 * of_nat n" "mem (install g s)" "mem s", OF this] False show ?thesis by simp
  qed
  have "map_of gs p = None" using Cons.prems(3) by (simp add: g map_of_eq_None_iff)
  then show ?case
    using Cons.IH [of "install g s"] Cons.prems one by (auto simp: g split: option.splits)
qed simp

section \<open>The table after initialisation\<close>

text \<open>The entry point each of the 256 vectors is routed to.\<close>

definition gate_stub :: "nat \<Rightarrow> stub" where
  "gate_stub n = (if n < 32 then Isr n else if n < 48 then Irq (n - 32) else if n < 53 then Isr n else Isr 32)"

lemma map_of_upt: "map_of (map (\<lambda>n. (n, f n)) [a..<b]) n = (if a \<le> n \<and> n < b then Some (f n) else None)"
  by (induction b) (auto simp: map_add_def less_Suc_eq split: option.splits if_splits)

lemma map_of_gates:
  "map_of exception_gates n = (if n < 32 then Some (Isr n) else None)"
  "map_of hardware_gates n = (if 32 \<le> n \<and> n < 48 then Some (Irq (n - 32)) else None)"
  "map_of system_gates n = (if 48 \<le> n \<and> n < 53 then Some (Isr n) else None)"
  "map_of default_gates n = (if 53 \<le> n \<and> n < 256 then Some (Isr 32) else None)"
proof -
  have eq: "hardware_gates = map (\<lambda>n. (n, Irq (n - 32))) [32..<48]"
    unfolding hardware_gates_def by (simp add: upt_rec)
  show "map_of hardware_gates n = (if 32 \<le> n \<and> n < 48 then Some (Irq (n - 32)) else None)"
    unfolding eq map_of_upt ..
  show "map_of exception_gates n = (if n < 32 then Some (Isr n) else None)"
    unfolding exception_gates_def map_of_upt by simp
  show "map_of system_gates n = (if 48 \<le> n \<and> n < 53 then Some (Isr n) else None)"
    "map_of default_gates n = (if 53 \<le> n \<and> n < 256 then Some (Isr 32) else None)"
    unfolding system_gates_def default_gates_def map_of_upt by (rule refl)+
qed

lemma gates_positions:
  "map fst exception_gates = [0..<32]" "map fst hardware_gates = [32..<48]"
  "map fst system_gates = [48..<53]" "map fst default_gates = [53..<256]"
proof -
  show "map fst hardware_gates = [32..<48]"
    unfolding hardware_gates_def by (simp add: upt_rec)
qed (simp_all only: exception_gates_def system_gates_def default_gates_def map_map comp_def fst_conv list.map_ident)

lemma positions_below: "map fst gs = [a..<b] \<Longrightarrow> b \<le> 256 \<Longrightarrow> \<forall>(p, st) \<in> set gs. p < 256"
  by (metis (no_types, lifting) atLeastLessThan_iff case_prodI2 fst_conv image_eqI le_trans less_le_trans set_map set_upt)

lemma install_range:
  assumes "map fst gs = [a..<b]" and "b \<le> 256" and "idt_table s = 0x500" and "n < 256"
  shows "gate (mem (fold install gs s)) (0x500 + 8 * of_nat n) =
    (case map_of gs n of Some st \<Rightarrow> (stub_address s st, 0x08, 0, 0x8e) | None \<Rightarrow> gate (mem s) (0x500 + 8 * of_nat n))"
  using assms positions_below [OF assms(1,2)] by (intro fold_install_gate) simp_all

lemma remap_fields [simp]:
  "mem (remap_controllers s) = mem s" "idt_table (remap_controllers s) = idt_table s"
  "stub_address (remap_controllers s) = stub_address s"
  by (simp_all add: remap_controllers_def port_byte_in_def port_byte_out_def Let_def)

text \<open>All gates installed: the state before the descriptor is written.\<close>

definition gates_installed :: "'a int_state_scheme \<Rightarrow> 'a int_state_scheme" where
  "gates_installed s =
     (let s = s\<lparr>idt_table := interruptions_placement\<rparr>;
          s = s\<lparr>mem := memory_clear (idt_table s) (256 * 8) 0 (mem s)\<rparr>
      in fold install default_gates (fold install system_gates (fold install hardware_gates
           (remap_controllers (fold install exception_gates s)))))"

lemma gates_installed_fields:
  "idt_table (gates_installed s) = 0x500" "stub_address (gates_installed s) = stub_address s"
  by (simp_all add: gates_installed_def interruptions_placement_def Let_def)

lemma init_interruptions_eq:
  "init_interruptions s = idt_flush 0xd00 ((gates_installed s)\<lparr>mem :=
     store32 (store16 (mem (gates_installed s)) 0xd00 2047) 0xd02 0x500\<rparr>)"
  by (simp add: init_interruptions_def gates_installed_def interruptions_placement_def Let_def)

lemma gates_installed_gate:
  assumes "n < 256"
  shows "gate (mem (gates_installed s)) (0x500 + 8 * of_nat n) = (stub_address s (gate_stub n), 0x08, 0, 0x8e)"
proof -
  define s1 where "s1 = s\<lparr>idt_table := interruptions_placement,
    mem := memory_clear interruptions_placement (256 * 8) 0 (mem s)\<rparr>"
  have s1: "idt_table s1 = 0x500" "stub_address s1 = stub_address s"
    by (simp_all add: s1_def interruptions_placement_def)
  define s2 where "s2 = remap_controllers (fold install exception_gates s1)"
  define s3 where "s3 = fold install hardware_gates s2"
  define s4 where "s4 = fold install system_gates s3"
  have f: "idt_table s2 = 0x500" "idt_table s3 = 0x500" "idt_table s4 = 0x500"
    "stub_address s2 = stub_address s" "stub_address s3 = stub_address s" "stub_address s4 = stub_address s"
    by (simp_all add: s2_def s3_def s4_def s1)
  note g1 = install_range [OF gates_positions(1) _ s1(1) assms] and g2 = install_range [OF gates_positions(2) _ f(1) assms]
    and g3 = install_range [OF gates_positions(3) _ f(2) assms] and g4 = install_range [OF gates_positions(4) _ f(3) assms]
  have "gates_installed s = fold install default_gates s4"
    by (simp add: gates_installed_def s1_def s2_def s3_def s4_def Let_def)
  moreover have "gate (mem s2) (0x500 + 8 * of_nat n) = gate (mem (fold install exception_gates s1)) (0x500 + 8 * of_nat n)"
    by (simp add: s2_def)
  ultimately show ?thesis
    using g1 g2 g3 g4 assms unfolding s3_def [symmetric] s4_def [symmetric] f s1 map_of_gates gate_stub_def
    by (simp split: if_splits)
qed

section \<open>The interrupt controllers and the timer chip\<close>

text \<open>
  An 8259 controller, as its data sheet describes the writes it receives: a command with bit 4 set
  starts an initialisation, whose next three data bytes are the vector base, the wiring and the
  mode; every other data byte sets the interrupt mask. The state is the number of initialisation
  bytes seen (0 when idle), the vector base and the mask; histories are newest first.
\<close>

fun pic_run :: "u_word \<Rightarrow> u_word \<Rightarrow> io_event list \<Rightarrow> nat \<times> u_byte \<times> u_byte" where
  "pic_run cmd dat [] = (0, 0, 0)"
| "pic_run cmd dat (In p v # t) = pic_run cmd dat t"
| "pic_run cmd dat (InW p w # t) = pic_run cmd dat t"
| "pic_run cmd dat (Out p v # t) =
     (let (phase, vbase, imask) = pic_run cmd dat t in
      if p = cmd \<and> bit v 4 then (1, vbase, 0)
      else if p = dat then
        (if phase = 1 then (2, v, imask) else if phase = 2 then (3, vbase, imask)
         else if phase = 3 then (0, vbase, imask) else (0, vbase, v))
      else (phase, vbase, imask))"

text \<open>The reload value of timer channel 0: the last two bytes written to port 0x40, low byte first.\<close>

fun pit_reload :: "io_event list \<Rightarrow> nat" where
  "pit_reload (Out p h # Out q l # t) = (if p = 0x40 \<and> q = 0x40 then 256 * unat h + unat l else 0)"
| "pit_reload t = 0"

section \<open>Properties of the interrupt tables\<close>

text \<open>
  (C8) After \<^verbatim>\<open>init_interruptions\<close> the table register points to a descriptor for all 256 gates at
  0x500, and the processor finds for every vector a present 32-bit interrupt gate for kernel
  code: the exception, hardware and system entry points at their own vectors, and the entry point
  \<^verbatim>\<open>isr32\<close> at every vector from 53 on.
\<close>

theorem idt_routes_every_vector:
  fixes s :: "'a int_state_scheme"
  assumes "n < 256"
  defines "s' \<equiv> init_interruptions s"
  shows "load16 (mem s') (idtr s') = 256 * 8 - 1 \<and> int_flag s' \<and>
    gate (mem s') (load32 (mem s') (idtr s' + 2) + 8 * of_nat n) = (stub_address s (gate_stub n), 0x08, 0, 0x8e)"
proof -
  let ?m = "mem (gates_installed s)"
  let ?m' = "store32 (store16 ?m 0xd00 2047) 0xd02 0x500"
  have s': "mem s' = ?m'" "idtr s' = 0xd00" "int_flag s'"
    by (simp_all add: s'_def init_interruptions_eq idt_flush_def)
  have "load16 ?m' 0xd00 = load16 (store16 ?m 0xd00 2047) 0xd00"
    by (rule load16_cong) (auto intro!: store32_outside simp: in_range_linear)
  moreover have "gate ?m' (0x500 + 8 * of_nat n) = gate ?m (0x500 + 8 * of_nat n)"
  proof (rule gate_frame)
    fix x :: addr
    assume x: "in_range (0x500 + 8 * of_nat n) 8 x"
    have "unat (8 * of_nat n :: addr) = 8 * n" using assms(1) by (simp add: unat_word_ariths unat_of_nat)
    then have "unat (0x500 + 8 * of_nat n :: addr) = 0x500 + 8 * n" using assms(1) by (subst unat_plus_small) simp_all
    then have "unat x < 0xd00" using x assms(1) by (simp add: in_range_linear)
    then show "?m' x = ?m x" by (simp add: store32_outside store16_outside in_range_linear)
  qed
  ultimately show ?thesis
    using gates_installed_gate [OF assms(1), of s] by (simp add: s')
qed

theorem idt_routes_every_vector_witness:
  "\<forall>s :: int_state. gate (mem (init_interruptions s))
      (load32 (mem (init_interruptions s)) (idtr (init_interruptions s) + 2) + 8 * of_nat 33) =
    (stub_address s (Irq 1), 0x08, 0, 0x8e)"
proof
  fix s :: int_state
  have "gate_stub 33 = Irq 1" by (simp add: gate_stub_def)
  then show "gate (mem (init_interruptions s))
      (load32 (mem (init_interruptions s)) (idtr (init_interruptions s) + 2) + 8 * of_nat 33) =
    (stub_address s (Irq 1), 0x08, 0, 0x8e)"
    using idt_routes_every_vector [of 33 s] by simp
qed

text \<open>
  (C35) The controllers are remapped and their masks survive: whatever went before, after
  \<^verbatim>\<open>init_interruptions\<close> the master delivers its interrupts at vectors 32 to 39 and the slave at 40 to
  47, both are out of initialisation, and their masks are the ones read at the start.
\<close>

theorem controllers_remapped:
  fixes s :: "'a int_state_scheme"
  defines "master \<equiv> device s (io_trace s) 0x21"
  defines "slave \<equiv> device s (In 0x21 master # io_trace s) 0xa1"
  shows "pic_run 0x20 0x21 (io_trace (init_interruptions s)) = (0, 32, master) \<and>
    pic_run 0xa0 0xa1 (io_trace (init_interruptions s)) = (0, 40, slave)"
proof -
  have tr: "io_trace (init_interruptions s) =
    [Out 0xa1 slave, Out 0x21 master, Out 0xa1 0, Out 0x21 0, Out 0xa1 1, Out 0x21 1, Out 0xa1 2, Out 0x21 4,
     Out 0xa1 0x28, Out 0x21 0x20, Out 0xa0 0x11, Out 0x20 0x11, In 0xa1 slave, In 0x21 master] @ io_trace s"
    unfolding init_interruptions_eq idt_flush_def gates_installed_def
    by (simp add: Let_def remap_controllers_def port_byte_in_def port_byte_out_def master_def slave_def)
  have bits: "bit (0x11 :: u_byte) 4" by (simp add: bit_numeral_rec numeral_eq_Suc)
  show ?thesis unfolding tr by (simp add: Let_def bits split: prod.splits)
qed

text \<open>
  The timer chip is programmed with the quotient of its clock and the frequency: for every
  frequency from 19 Hz on, the reload value is 1193180 divided by the frequency, and the timer
  handler is registered at vector 32. (Below 19 Hz the quotient has more than 16 bits and its
  upper part is lost.)
\<close>

lemma init_timer_programs_reload:
  assumes "19 \<le> unat f"
  shows "\<exists>s'. init_timer f s = Inr ((), s') \<and> pit_reload (io_trace s') = 1193180 div unat f \<and>
    interruption_handlers s' = (interruption_handlers s)(32 := Some Timer_callback) \<and> mem s' = mem s"
proof -
  let ?d = "1193180 div f"
  have f: "f \<noteq> 0" using assms by auto
  have d: "unat ?d = 1193180 div unat f" by (simp add: unat_div)
  have "1193180 div unat f \<le> 1193180 div 19" using assms by (intro div_le_mono2) simp_all
  then have small: "unat ?d < 65536" unfolding d by simp
  have masks: "?d AND 0xff = take_bit 8 ?d" "drop_bit 8 ?d AND 0xff = take_bit 8 (drop_bit 8 ?d)"
    by (simp_all add: take_bit_eq_mask mask_eq_exp_minus_1)
  have lo: "unat (ucast (take_bit 8 ?d) :: u_byte) = unat ?d mod 256"
    by (simp add: unsigned_ucast_eq unsigned_take_bit_eq take_bit_nat_def)
  have hi: "unat (ucast (take_bit 8 (drop_bit 8 ?d)) :: u_byte) = unat ?d div 256 mod 256"
    by (simp add: unsigned_ucast_eq unsigned_take_bit_eq unsigned_drop_bit_eq take_bit_nat_def drop_bit_nat_def
        mod_less [OF unat_lt32])
  have "256 * (unat ?d div 256 mod 256) + unat ?d mod 256 = unat ?d"
    using small by (simp add: div_less_mono)
  then show ?thesis
    using f by (simp add: init_timer_def Let_def port_byte_out_def put_handler_def masks lo hi d)
qed

lemma init_timer_programs_reload_demo:
  "\<forall>s :: int_state. \<exists>s'. init_timer 100 s = Inr ((), s') \<and> pit_reload (io_trace s') = 11931"
proof
  fix s :: int_state
  show "\<exists>s'. init_timer 100 s = Inr ((), s') \<and> pit_reload (io_trace s') = 11931"
    using init_timer_programs_reload [of 100 s] by auto
qed

end
