(* ===== verification/Scheduler.thy ===== *)
theory Scheduler
  imports Interrupts
begin

text \<open>
  The state of the kernel above the interrupt tables, and the scheduler: the task structure of
  \<^verbatim>\<open>core/kernel/task.h\<close>, \<^verbatim>\<open>switch_task\<close> and \<^verbatim>\<open>getpid\<close> of \<^verbatim>\<open>core/kernel/task.c\<close>, and the timer
  handler of \<^verbatim>\<open>core/kernel/timer.c\<close> that drives it. Tasks form a singly linked list in memory; the
  abstract view is the list of their addresses, and switching is a step in it, round and round.
\<close>

section \<open>The state of the kernel\<close>

text \<open>The registers the entry points push for a handler (\<^verbatim>\<open>interruption_tables.h\<close>).\<close>

record registers =
  regs_ds :: u_dword
  regs_edi :: u_dword
  regs_esi :: u_dword
  regs_ebp :: u_dword
  regs_esp_plus :: u_dword
  regs_ebx :: u_dword
  regs_edx :: u_dword
  regs_ecx :: u_dword
  regs_eax :: u_dword
  regs_int_no :: u_dword
  regs_err_code :: u_dword
  regs_eip :: u_dword
  regs_cs :: u_dword
  regs_eflags :: u_dword

text \<open>
  The globals of \<^verbatim>\<open>pages.c\<close>, \<^verbatim>\<open>task.c\<close> and \<^verbatim>\<open>modules.c\<close>, and the parts of the processor those files
  read or write. \<open>cpu\<close> holds the general registers as an interrupt finds them. Four fields are fixed by
  the build and changed by no operation: \<open>entry_junk\<close>, the bits of the local variable that
  \<^verbatim>\<open>create_page_entry\<close> does not initialise (it may depend on the arguments of the call);
  \<open>switch_eip\<close> and \<open>fork_eip\<close>, the addresses behind the calls of \<^verbatim>\<open>get_instruction_pointer\<close> in
  \<^verbatim>\<open>switch_task\<close> and in \<^verbatim>\<open>fork\<close>; and \<open>fp_unit\<close>, the floating-point unit.
\<close>

record kernel_state = int_state +
  kernel_directory :: addr
  current_directory :: addr
  paging_pool :: addr
  user_space_pool :: addr
  current_task :: addr
  ready_queue :: addr
  next_pid :: u_dword
  modules_placement :: u_dword
  cpu :: registers
  cpu_esp :: u_dword
  cpu_ebp :: u_dword
  cr2 :: addr
  cr3 :: addr
  paging_enabled :: bool
  entry_junk :: "addr \<Rightarrow> bool \<Rightarrow> bool \<Rightarrow> u_dword"
  switch_eip :: addr
  fork_eip :: addr
  fp_unit :: fpu

section \<open>The task structure\<close>

definition task_id :: "memory \<Rightarrow> addr \<Rightarrow> u_dword" where "task_id m t = load32 m t"
definition task_esp :: "memory \<Rightarrow> addr \<Rightarrow> u_dword" where "task_esp m t = load32 m (t + 4)"
definition task_ebp :: "memory \<Rightarrow> addr \<Rightarrow> u_dword" where "task_ebp m t = load32 m (t + 8)"
definition task_eip :: "memory \<Rightarrow> addr \<Rightarrow> u_dword" where "task_eip m t = load32 m (t + 12)"
definition task_directory :: "memory \<Rightarrow> addr \<Rightarrow> addr" where "task_directory m t = load32 m (t + 16)"
definition task_next :: "memory \<Rightarrow> addr \<Rightarrow> addr" where "task_next m t = load32 m (t + 20)"

abbreviation task_size :: u_dword where "task_size \<equiv> 24"

definition set_task_id :: "addr \<Rightarrow> u_dword \<Rightarrow> memory \<Rightarrow> memory" where "set_task_id t v m = store32 m t v"
definition set_task_esp :: "addr \<Rightarrow> u_dword \<Rightarrow> memory \<Rightarrow> memory" where "set_task_esp t v m = store32 m (t + 4) v"
definition set_task_ebp :: "addr \<Rightarrow> u_dword \<Rightarrow> memory \<Rightarrow> memory" where "set_task_ebp t v m = store32 m (t + 8) v"
definition set_task_eip :: "addr \<Rightarrow> u_dword \<Rightarrow> memory \<Rightarrow> memory" where "set_task_eip t v m = store32 m (t + 12) v"
definition set_task_directory :: "addr \<Rightarrow> addr \<Rightarrow> memory \<Rightarrow> memory" where "set_task_directory t v m = store32 m (t + 16) v"
definition set_task_next :: "addr \<Rightarrow> addr \<Rightarrow> memory \<Rightarrow> memory" where "set_task_next t v m = store32 m (t + 20) v"

lemmas task_fields = task_id_def task_esp_def task_ebp_def task_eip_def task_directory_def task_next_def
lemmas task_updates = set_task_id_def set_task_esp_def set_task_ebp_def set_task_eip_def
  set_task_directory_def set_task_next_def

section \<open>Switching\<close>

text \<open>
  How a handler ends: it returns to its caller, or the final \<^verbatim>\<open>jmp\<close> of \<^verbatim>\<open>switch_task\<close> goes on at an
  instruction of another task, with \<^verbatim>\<open>0xDEADBABA\<close> in \<^verbatim>\<open>eax\<close>.
\<close>

datatype control = Return | Jump addr

definition switched_mark :: u_dword where "switched_mark = 0xdeadbaba"

text \<open>
  \<^verbatim>\<open>switch_task\<close>, entered by a call. (Entered by the jump, at \<open>switch_eip\<close>, it finds the mark and
  returns at once.)
\<close>

definition switch_task :: "'a kernel_state_scheme \<Rightarrow> control \<times> 'a kernel_state_scheme" where
  "switch_task s =
     (if current_task s = nullptr then (Return, s)
      else
        (let esp = cpu_esp s; ebp = cpu_ebp s; eip = switch_eip s in
         if eip = switched_mark then (Return, s)
         else
           (let t = current_task s;
                s = s\<lparr>mem := set_task_eip t eip (mem s)\<rparr>;
                s = s\<lparr>mem := set_task_esp t esp (mem s)\<rparr>;
                s = s\<lparr>mem := set_task_ebp t ebp (mem s)\<rparr>;
                s = s\<lparr>current_task := task_next (mem s) (current_task s)\<rparr>;
                s = (if current_task s = nullptr then s\<lparr>current_task := ready_queue s\<rparr> else s);
                eip = task_eip (mem s) (current_task s);
                esp = task_esp (mem s) (current_task s);
                ebp = task_ebp (mem s) (current_task s);
                s = s\<lparr>current_directory := task_directory (mem s) (current_task s)\<rparr>;
                s = s\<lparr>cpu_esp := esp, cpu_ebp := ebp, cr3 := current_directory s, int_flag := True\<rparr>
            in (Jump eip, s))))"

definition getpid :: "'a kernel_state_scheme \<Rightarrow> u_dword" where
  "getpid s = task_id (mem s) (current_task s)"

definition timer_callback :: "'a kernel_state_scheme \<Rightarrow> control \<times> 'a kernel_state_scheme" where
  "timer_callback s = switch_task (s\<lparr>tick := tick s + 1\<rparr>)"

section \<open>The ready queue\<close>

text \<open>
  The tasks \<open>ts\<close> in the order of the list: their structures do not overlap, each points to the next and
  the last one to nothing.
\<close>

definition task_queue :: "'a kernel_state_scheme \<Rightarrow> addr list \<Rightarrow> bool" where
  "task_queue s ts \<longleftrightarrow> ts \<noteq> [] \<and> ready_queue s = ts ! 0 \<and>
     (\<forall>i < length ts. ts ! i \<noteq> nullptr \<and>
        task_next (mem s) (ts ! i) = (if Suc i < length ts then ts ! Suc i else nullptr)) \<and>
     (\<forall>i < length ts. \<forall>j < length ts. i \<noteq> j \<longrightarrow> disjoint_ranges (ts ! i) 24 (ts ! j) 24)"

lemma task_queueD:
  assumes "task_queue s ts"
  shows "ts \<noteq> []" and "ready_queue s = ts ! 0"
    and "i < length ts \<Longrightarrow> ts ! i \<noteq> nullptr"
    and "i < length ts \<Longrightarrow> task_next (mem s) (ts ! i) = (if Suc i < length ts then ts ! Suc i else nullptr)"
    and "i < length ts \<Longrightarrow> j < length ts \<Longrightarrow> i \<noteq> j \<Longrightarrow> disjoint_ranges (ts ! i) 24 (ts ! j) 24"
  using assms unfolding task_queue_def by blast+

definition in_task :: "addr list \<Rightarrow> addr \<Rightarrow> bool" where
  "in_task ts x \<longleftrightarrow> (\<exists>t \<in> set ts. in_range t 24 x)"

lemma task_field_in: "in_range (t + of_nat k) 4 x \<Longrightarrow> k \<le> 20 \<Longrightarrow> in_range t 24 x"
  using in_range_append_offset [of t k 4 x] by (simp add: in_range_def)

lemma task_field_frame:
  assumes "\<And>x. in_range t 24 x \<Longrightarrow> m' x = m x"
  shows "task_id m' t = task_id m t" and "task_esp m' t = task_esp m t" and "task_ebp m' t = task_ebp m t"
    and "task_eip m' t = task_eip m t" and "task_directory m' t = task_directory m t"
    and "task_next m' t = task_next m t"
proof -
  have "load32 m' (t + of_nat k) = load32 m (t + of_nat k)" if "k \<le> 20" for k
    using assms task_field_in [OF _ that] by (intro load32_cong) blast
  from this [of 0] this [of 4] this [of 8] this [of 12] this [of 16] this [of 20]
  show "task_id m' t = task_id m t" and "task_esp m' t = task_esp m t" and "task_ebp m' t = task_ebp m t"
    and "task_eip m' t = task_eip m t" and "task_directory m' t = task_directory m t"
    and "task_next m' t = task_next m t"
    by (simp_all add: task_fields)
qed

lemma task_queue_frame:
  assumes "task_queue s ts" and "\<And>x. in_task ts x \<Longrightarrow> mem s' x = mem s x" and "ready_queue s' = ready_queue s"
  shows "task_queue s' ts"
proof -
  have "task_next (mem s') (ts ! i) = task_next (mem s) (ts ! i)" if "i < length ts" for i
    using assms(2) nth_mem [OF that] by (intro task_field_frame) (auto simp: in_task_def)
  then show ?thesis using assms(1,3) by (simp add: task_queue_def)
qed

lemma task_queue_distinct:
  assumes "task_queue s ts"
  shows "distinct ts"
  unfolding distinct_conv_nth
proof (intro allI impI notI)
  fix i j
  assume ij: "i < length ts" "j < length ts" "i \<noteq> j" and eq: "ts ! i = ts ! j"
  have "in_range (ts ! i) 24 (ts ! i)" by (simp add: in_range_def)
  then show False using disjoint_rangesD [OF task_queueD(5) [OF assms ij]] eq by metis
qed

section \<open>The abstract scheduler\<close>

text \<open>
  A context is what a task structure keeps of a suspended task. Abstractly there is a context for every
  task and the index of the running one: a switch stores the registers in the context of the running
  task, advances the index cyclically and loads the context found there.
\<close>

record task_context =
  ctx_esp :: u_dword
  ctx_ebp :: u_dword
  ctx_eip :: u_dword
  ctx_dir :: addr

definition context_of :: "memory \<Rightarrow> addr \<Rightarrow> task_context" where
  "context_of m t = \<lparr>ctx_esp = task_esp m t, ctx_ebp = task_ebp m t, ctx_eip = task_eip m t,
     ctx_dir = task_directory m t\<rparr>"

definition spec_switch :: "u_dword \<Rightarrow> u_dword \<Rightarrow> u_dword \<Rightarrow> task_context list \<times> nat \<Rightarrow> task_context list \<times> nat" where
  "spec_switch esp ebp eip = (\<lambda>(cs, i).
     (cs[i := (cs ! i)\<lparr>ctx_esp := esp, ctx_ebp := ebp, ctx_eip := eip\<rparr>], Suc i mod length cs))"

definition save_context :: "u_dword \<Rightarrow> u_dword \<Rightarrow> u_dword \<Rightarrow> addr \<Rightarrow> memory \<Rightarrow> memory" where
  "save_context esp ebp eip t m = set_task_ebp t ebp (set_task_esp t esp (set_task_eip t eip m))"

lemma save_context_outside:
  assumes "\<not> in_range t 24 x"
  shows "save_context esp ebp eip t m x = m x"
proof -
  have "\<not> in_range (t + of_nat k) 4 x" if "k \<le> 20" for k
    using that task_field_in assms by blast
  from this [of 4] this [of 8] this [of 12]
  show ?thesis by (simp add: save_context_def task_updates store32_outside)
qed

lemma save_context_fields:
  "context_of (save_context esp ebp eip t m) t =
     (context_of m t)\<lparr>ctx_esp := esp, ctx_ebp := ebp, ctx_eip := eip\<rparr>"
  "task_next (save_context esp ebp eip t m) t = task_next m t"
  "task_id (save_context esp ebp eip t m) t = task_id m t"
proof -
  have other: "load32 (store32 m' (t + a) v) (t + b) = load32 m' (t + b)"
    if "4 \<le> unat (b - a)" "4 \<le> unat (a - b)" for a b v m'
    using that by (intro load32_store32_other disjoint_by_distance) simp_all
  show "context_of (save_context esp ebp eip t m) t =
      (context_of m t)\<lparr>ctx_esp := esp, ctx_ebp := ebp, ctx_eip := eip\<rparr>"
    and "task_next (save_context esp ebp eip t m) t = task_next m t"
    by (simp_all add: context_of_def save_context_def task_fields task_updates other)
  show "task_id (save_context esp ebp eip t m) t = task_id m t"
    using other [of 0] by (simp add: save_context_def task_fields task_updates)
qed

lemma save_context_others:
  assumes "task_queue s ts" and "i < length ts"
  shows "map (context_of (save_context esp ebp eip (ts ! i) (mem s))) ts =
    fst (spec_switch esp ebp eip (map (context_of (mem s)) ts, i))"
proof (rule nth_equalityI)
  fix j
  assume j: "j < length (map (context_of (save_context esp ebp eip (ts ! i) (mem s))) ts)"
  have "context_of (save_context esp ebp eip (ts ! i) (mem s)) (ts ! j) = context_of (mem s) (ts ! j)" if "i \<noteq> j"
    unfolding context_of_def
    by (intro arg_cong4 [where f = "\<lambda>a b c d. \<lparr>ctx_esp = a, ctx_ebp = b, ctx_eip = c, ctx_dir = d\<rparr>"] task_field_frame
        save_context_outside; use j that task_queueD(5) [OF assms] in \<open>auto dest: disjoint_rangesD\<close>)
  then show "map (context_of (save_context esp ebp eip (ts ! i) (mem s))) ts ! j =
      fst (spec_switch esp ebp eip (map (context_of (mem s)) ts, i)) ! j"
    using j assms(2) by (cases "i = j") (simp_all add: spec_switch_def save_context_fields)
qed (simp add: spec_switch_def)

lemma task_queue_save:
  assumes "task_queue s ts" and i: "i < length ts"
  shows "task_queue (s\<lparr>mem := save_context esp ebp eip (ts ! i) (mem s)\<rparr>) ts"
proof -
  have "task_next (save_context esp ebp eip (ts ! i) (mem s)) (ts ! j) = task_next (mem s) (ts ! j)"
    if j: "j < length ts" for j
  proof (cases "i = j")
    case False
    then show ?thesis
      using task_queueD(5) [OF assms j]
      by (intro task_field_frame save_context_outside) (auto dest: disjoint_rangesD)
  qed (simp add: save_context_fields)
  then show ?thesis using assms(1) by (simp add: task_queue_def)
qed

lemma next_in_queue:
  assumes "task_queue s ts" and "i < length ts"
  shows "(if task_next (mem s) (ts ! i) = nullptr then ready_queue s else task_next (mem s) (ts ! i)) = ts ! (Suc i mod length ts)"
proof (cases "Suc i < length ts")
  case False
  then have "Suc i = length ts" using assms(2) by simp
  then show ?thesis using task_queueD [OF assms(1)] assms(2) by simp
qed (simp add: task_queueD [OF assms(1)] assms(2))

lemma switch_task_eq:
  assumes q: "task_queue s ts" and i: "i < length ts" and cur: "current_task s = ts ! i"
    and eip: "switch_eip s \<noteq> switched_mark"
  defines "m \<equiv> save_context (cpu_esp s) (cpu_ebp s) (switch_eip s) (ts ! i) (mem s)"
  defines "t \<equiv> ts ! (Suc i mod length ts)"
  shows "switch_task s = (Jump (task_eip m t), s\<lparr>mem := m, current_task := t, current_directory := task_directory m t,
    cpu_esp := task_esp m t, cpu_ebp := task_ebp m t, cr3 := task_directory m t, int_flag := True\<rparr>)"
proof -
  have nz: "ts ! i \<noteq> nullptr" by (rule task_queueD(3) [OF q i])
  have n: "(if task_next m (ts ! i) = nullptr then ready_queue s else task_next m (ts ! i)) = t"
    using next_in_queue [OF task_queue_save [OF q i, of "cpu_esp s" "cpu_ebp s" "switch_eip s"] i]
    by (simp add: m_def t_def split: if_splits)
  show ?thesis
    using nz eip n unfolding switch_task_def Let_def cur
    by (simp add: cur m_def [unfolded save_context_def, symmetric] split: if_splits)
qed

section \<open>Runs of the scheduler\<close>

text \<open>
  What happens while tasks run, seen by the scheduler: the running task computes, which changes
  its registers and memory outside of the task structures, or the timer strikes. The run counts the
  ticks and keeps, for every task, the context with which it was last suspended (at first the one its
  structure was given): the stack registers at that time, the instruction behind the call in
  \<^verbatim>\<open>switch_task\<close>, and the directory, which a suspension does not change.
\<close>

definition suspended :: "(addr \<Rightarrow> task_context) \<Rightarrow> 'a kernel_state_scheme \<Rightarrow> addr \<Rightarrow> task_context" where
  "suspended g s = g(current_task s :=
     (g (current_task s))\<lparr>ctx_esp := cpu_esp s, ctx_ebp := cpu_ebp s, ctx_eip := switch_eip s\<rparr>)"

inductive sched_run :: "addr list \<Rightarrow> nat \<Rightarrow> (addr \<Rightarrow> task_context) \<Rightarrow> 'a kernel_state_scheme \<Rightarrow> bool"
  for ts where
  started: "task_queue s ts \<Longrightarrow> current_task s = ready_queue s \<Longrightarrow> switch_eip s \<noteq> switched_mark \<Longrightarrow>
    sched_run ts 0 (context_of (mem s)) s"
| computed: "sched_run ts n g s \<Longrightarrow> (\<And>x. in_task ts x \<Longrightarrow> m x = mem s x) \<Longrightarrow>
    sched_run ts n g (s\<lparr>mem := m, cpu_esp := esp, cpu_ebp := ebp\<rparr>)"
| ticked: "sched_run ts n g s \<Longrightarrow> timer_callback s = (c, s') \<Longrightarrow>
    sched_run ts (Suc n) (suspended g s) s'"

inductive_cases sched_run_zeroE: "sched_run ts 0 g s"

definition sched_inv :: "addr list \<Rightarrow> nat \<Rightarrow> (addr \<Rightarrow> task_context) \<Rightarrow> 'a kernel_state_scheme \<Rightarrow> bool" where
  "sched_inv ts n g s \<longleftrightarrow> task_queue s ts \<and> current_task s = ts ! (n mod length ts) \<and>
     switch_eip s \<noteq> switched_mark \<and>
     (\<forall>t \<in> set ts. task_directory (mem s) t = ctx_dir (g t) \<and> (t \<noteq> current_task s \<longrightarrow> context_of (mem s) t = g t)) \<and>
     (0 < n \<longrightarrow> cr3 s = ctx_dir (g (current_task s)) \<and> current_directory s = ctx_dir (g (current_task s)))"

lemma timer_callback_eq:
  assumes "sched_inv ts n g s"
  defines "i \<equiv> n mod length ts"
  defines "m \<equiv> save_context (cpu_esp s) (cpu_ebp s) (switch_eip s) (ts ! i) (mem s)"
  defines "t \<equiv> ts ! (Suc n mod length ts)"
  shows "timer_callback s = (Jump (task_eip m t), s\<lparr>tick := tick s + 1, mem := m, current_task := t,
    current_directory := task_directory m t, cpu_esp := task_esp m t, cpu_ebp := task_ebp m t,
    cr3 := task_directory m t, int_flag := True\<rparr>)"
proof -
  have q: "task_queue s ts" and cur: "current_task s = ts ! i" and eip: "switch_eip s \<noteq> switched_mark"
    using assms(1) by (simp_all add: sched_inv_def i_def)
  have i: "i < length ts" using task_queueD(1) [OF q] by (simp add: i_def)
  have "task_queue (s\<lparr>tick := tick s + 1\<rparr>) ts" by (rule task_queue_frame [OF q]) simp_all
  from switch_task_eq [OF this i] cur eip show ?thesis
    by (simp add: timer_callback_def m_def t_def i_def mod_Suc_eq)
qed

lemma sched_inv_tick:
  assumes inv: "sched_inv ts n g s" and "timer_callback s = (c, s')"
  defines "r \<equiv> suspended g s (current_task s')"
  shows "sched_inv ts (Suc n) (suspended g s) s'"
    and "c = Jump (ctx_eip r)" and "cpu_esp s' = ctx_esp r" and "cpu_ebp s' = ctx_ebp r"
    and "cr3 s' = ctx_dir r" and "current_directory s' = ctx_dir r"
proof -
  define i where "i = n mod length ts"
  define m where "m = save_context (cpu_esp s) (cpu_ebp s) (switch_eip s) (ts ! i) (mem s)"
  define t' where "t' = ts ! (Suc n mod length ts)"
  have q: "task_queue s ts" and cur: "current_task s = ts ! i" and eip: "switch_eip s \<noteq> switched_mark"
    and g: "\<And>t. t \<in> set ts \<Longrightarrow> t \<noteq> ts ! i \<Longrightarrow> context_of (mem s) t = g t"
    and dir: "\<And>t. t \<in> set ts \<Longrightarrow> task_directory (mem s) t = ctx_dir (g t)"
    using inv by (simp_all add: sched_inv_def i_def)
  have i: "i < length ts" using task_queueD(1) [OF q] by (simp add: i_def)
  have s': "s' = s\<lparr>tick := tick s + 1, mem := m, current_task := t', current_directory := task_directory m t',
    cpu_esp := task_esp m t', cpu_ebp := task_ebp m t', cr3 := task_directory m t', int_flag := True\<rparr>"
    and c: "c = Jump (task_eip m t')"
    using timer_callback_eq [OF inv] assms(2) by (simp_all add: m_def i_def t'_def)
  have q': "task_queue s' ts"
    by (rule task_queue_frame [OF task_queue_save [OF q i]]) (simp_all add: s' m_def)
  have all: "context_of m t = suspended g s t" if t: "t \<in> set ts" for t
  proof -
    obtain j where j: "j < length ts" "t = ts ! j" using t by (auto simp: in_set_conv_nth)
    have "map (context_of m) ts ! j = fst (spec_switch (cpu_esp s) (cpu_ebp s) (switch_eip s) (map (context_of (mem s)) ts, i)) ! j"
      using save_context_others [OF q i] by (simp add: m_def)
    then have "context_of m t = (if i = j then (context_of (mem s) t)\<lparr>ctx_esp := cpu_esp s, ctx_ebp := cpu_ebp s, ctx_eip := switch_eip s\<rparr>
        else context_of (mem s) t)"
      using i j by (auto simp: spec_switch_def nth_list_update)
    moreover have "i = j \<longleftrightarrow> t = ts ! i" using task_queue_distinct [OF q] i j by (auto simp: nth_eq_iff_index_eq)
    moreover have "(context_of (mem s) t)\<lparr>ctx_esp := cpu_esp s, ctx_ebp := cpu_ebp s, ctx_eip := switch_eip s\<rparr> =
        (g t)\<lparr>ctx_esp := cpu_esp s, ctx_ebp := cpu_ebp s, ctx_eip := switch_eip s\<rparr>"
      using dir [OF t] by (simp add: context_of_def)
    ultimately show ?thesis using g [OF t] unfolding suspended_def cur by (cases "t = ts ! i") auto
  qed
  have "t' \<in> set ts" unfolding t'_def using task_queueD(1) [OF q] by (intro nth_mem) simp
  from all [OF this] have r: "r = context_of m t'" by (simp add: r_def s')
  show "c = Jump (ctx_eip r)" "cpu_esp s' = ctx_esp r" "cpu_ebp s' = ctx_ebp r" "cr3 s' = ctx_dir r" "current_directory s' = ctx_dir r"
    unfolding r by (simp_all add: c s' context_of_def)
  have "task_directory m t = ctx_dir (suspended g s t)" if "t \<in> set ts" for t
    unfolding all [OF that, symmetric] by (simp add: context_of_def)
  then show "sched_inv ts (Suc n) (suspended g s) s'"
    unfolding sched_inv_def using q' all eip all [OF \<open>t' \<in> set ts\<close>, symmetric] by (simp add: s' t'_def [symmetric] context_of_def)
qed

lemma sched_run_inv: "sched_run ts n g s \<Longrightarrow> sched_inv ts n g s"
proof (induction rule: sched_run.induct)
  case (started s)
  then show ?case using task_queueD(2) [of s ts] by (simp add: sched_inv_def context_of_def)
next
  case (computed n g s m ebp esp)
  have "task_queue s ts" using computed.IH by (simp add: sched_inv_def)
  then have "task_queue (s\<lparr>mem := m, cpu_esp := esp, cpu_ebp := ebp\<rparr>) ts"
    by (rule task_queue_frame) (simp_all add: computed.hyps(2))
  moreover have "context_of m t = context_of (mem s) t" "task_directory m t = task_directory (mem s) t" if "t \<in> set ts" for t
    using task_field_frame [of t m "mem s"] computed.hyps(2) that by (auto simp: in_task_def context_of_def)
  ultimately show ?case using computed.IH unfolding sched_inv_def by simp
next
  case (ticked n g s c s')
  from sched_inv_tick(1) [OF ticked.IH ticked.hyps(2)] show ?case .
qed

section \<open>A system with two tasks\<close>

definition two_tasks :: memory where
  "two_tasks = set_task_next 0x1000 0x2000 (set_task_esp 0x2000 0x6f00 (set_task_ebp 0x2000 0x6f80
     (set_task_eip 0x2000 0x9000 (\<lambda>_. 0))))"

definition demo_tasks :: kernel_state where
  "demo_tasks = \<lparr>mem = two_tasks, device = (\<lambda>_ _. 0), io_trace = [], stack_slot = 0x6000, word_device = (\<lambda>_ _. 0),
     handlers = (\<lambda>_. None), literal = (\<lambda>_. 0), header = 0, interruption_handlers = (\<lambda>_. None), idt_table = 0x500,
     stub_address = (\<lambda>_. 0), idtr = 0, int_flag = True, tick = 7, format_frame = 0x5000, extract_frame = 0x5100,
     system_frame = 0x5200, kernel_directory = 0x100000, current_directory = 0x100000, paging_pool = 0,
     user_space_pool = 0, current_task = 0x1000, ready_queue = 0x1000, next_pid = 2, modules_placement = 0x30000,
     cpu = \<lparr>regs_ds = 0, regs_edi = 0, regs_esi = 0, regs_ebp = 0, regs_esp_plus = 0, regs_ebx = 0, regs_edx = 0,
       regs_ecx = 0, regs_eax = 0, regs_int_no = 0, regs_err_code = 0, regs_eip = 0, regs_cs = 0, regs_eflags = 0\<rparr>,
     cpu_esp = 0x6e00, cpu_ebp = 0x6e80, cr2 = 0, cr3 = 0x100000, paging_enabled = True,
     entry_junk = (\<lambda>_ _ _. 0), switch_eip = 0x8000, fork_eip = 0x9000,
     fp_unit = \<lparr>fpu_to_dword = (\<lambda>_. 0), fpu_of_dword = (\<lambda>_. 0), fpu_sub = (\<lambda>_ _. 0), fpu_mul = (\<lambda>_ _. 0), fpu_less = (\<lambda>_ _. False)\<rparr>\<rparr>"

lemma demo_tasks_fields:
  "mem demo_tasks = two_tasks" "ready_queue demo_tasks = 0x1000" "current_task demo_tasks = 0x1000"
  "switch_eip demo_tasks = 0x8000" "cpu_esp demo_tasks = 0x6e00" "cpu_ebp demo_tasks = 0x6e80"
  by (simp_all add: demo_tasks_def)

lemma two_tasks_fields:
  "task_next two_tasks 0x1000 = 0x2000" "task_next two_tasks 0x2000 = 0"
  "task_esp two_tasks 0x2000 = 0x6f00" "task_ebp two_tasks 0x2000 = 0x6f80" "task_eip two_tasks 0x2000 = 0x9000"
proof -
  have o: "load32 (store32 m a v) b = load32 m b" if "4 \<le> unat (b - a)" "4 \<le> unat (a - b)" for m a v b
    using that by (intro load32_store32_other disjoint_by_distance)
  have z: "load32 (\<lambda>_. 0) b = 0" for b by (simp add: load32_def)
  show "task_next two_tasks 0x1000 = 0x2000" "task_next two_tasks 0x2000 = 0"
    "task_esp two_tasks 0x2000 = 0x6f00" "task_ebp two_tasks 0x2000 = 0x6f80" "task_eip two_tasks 0x2000 = 0x9000"
    by (simp_all add: two_tasks_def task_fields task_updates o z)
qed

lemma demo_tasks_queue: "task_queue demo_tasks [0x1000, 0x2000]"
proof -
  have d: "disjoint_ranges (0x1000 :: addr) 24 0x2000 24" "disjoint_ranges (0x2000 :: addr) 24 0x1000 24"
    by (rule disjoint_by_distance; simp)+
  show ?thesis
    unfolding task_queue_def demo_tasks_fields
    by (auto simp: two_tasks_fields less_Suc_eq d)
qed

section \<open>Properties of the scheduler\<close>

text \<open>
  (C10) Switching refines the abstract scheduler: the registers of the running task go to its context, all
  other contexts are unchanged, the next task in cyclic order becomes current, its stack registers and
  its page directory are loaded, and execution goes on at its saved instruction.
\<close>

theorem switch_task_refines:
  fixes s :: "'a kernel_state_scheme"
  assumes "task_queue s ts" and "i < length ts" and "current_task s = ts ! i" and "switch_eip s \<noteq> switched_mark"
    and "spec_switch (cpu_esp s) (cpu_ebp s) (switch_eip s) (map (context_of (mem s)) ts, i) = (cs, k)"
  shows "\<exists>s'. switch_task s = (Jump (ctx_eip (cs ! k)), s') \<and> task_queue s' ts \<and>
    map (context_of (mem s')) ts = cs \<and> current_task s' = ts ! k \<and>
    cpu_esp s' = ctx_esp (cs ! k) \<and> cpu_ebp s' = ctx_ebp (cs ! k) \<and>
    current_directory s' = ctx_dir (cs ! k) \<and> cr3 s' = ctx_dir (cs ! k) \<and>
    (\<forall>x. \<not> in_task ts x \<longrightarrow> mem s' x = mem s x)"
proof -
  let ?m = "save_context (cpu_esp s) (cpu_ebp s) (switch_eip s) (ts ! i) (mem s)"
  have cs: "map (context_of ?m) ts = cs" and k: "k = Suc i mod length ts"
    using save_context_others [OF assms(1,2)] assms(5) by (auto simp: spec_switch_def)
  have "k < length ts" using assms(2) k by (simp add: mod_less_divisor) (metis mod_less_divisor length_greater_0_conv not_less_zero list.size(3))
  then have at: "context_of ?m (ts ! k) = cs ! k" using cs by auto
  have "mem s x = ?m x" if "\<not> in_task ts x" for x
    using that nth_mem [OF assms(2)] by (intro save_context_outside [symmetric]) (auto simp: in_task_def)
  moreover have "task_queue (snd (switch_task s)) ts"
    unfolding switch_task_eq [OF assms(1-4)]
    by (rule task_queue_frame [OF task_queue_save [OF assms(1,2), of "cpu_esp s" "cpu_ebp s" "switch_eip s"]]) simp_all
  ultimately show ?thesis
    unfolding switch_task_eq [OF assms(1-4)] using cs at [symmetric] by (simp add: k context_of_def)
qed

theorem switch_task_refines_witness:
  "\<exists>s'. switch_task demo_tasks = (Jump 0x9000, s') \<and> current_task s' = 0x2000 \<and> cpu_esp s' = 0x6f00"
  using switch_task_refines [OF demo_tasks_queue, of 0, OF _ _ _ surjective_pairing]
  by (auto simp: demo_tasks_fields switched_mark_def spec_switch_def context_of_def two_tasks_fields)

text \<open>
  (C11) The scheduler is fair and transparent: in every run, after \<open>n\<close> ticks the task at position \<open>n\<close> modulo the
  length of the queue is running, so that each task runs in every round, and (after the first tick) runs in its
  own directory; and a tick resumes a task with exactly the context it was last suspended with: its stack
  registers, the instruction it was suspended at, and its directory.
\<close>

theorem sched_run_fair:
  fixes s :: "'a kernel_state_scheme"
  assumes "sched_run ts n g s"
  shows "current_task s = ts ! (n mod length ts) \<and> (0 < n \<longrightarrow> cr3 s = ctx_dir (g (current_task s))) \<and>
    (\<forall>c s'. timer_callback s = (c, s') \<longrightarrow>
      (let r = suspended g s (current_task s') in
        c = Jump (ctx_eip r) \<and> cpu_esp s' = ctx_esp r \<and> cpu_ebp s' = ctx_ebp r \<and>
        cr3 s' = ctx_dir r \<and> current_directory s' = ctx_dir r))"
proof (intro conjI allI impI)
  note inv = sched_run_inv [OF assms]
  show "current_task s = ts ! (n mod length ts)" using inv by (simp add: sched_inv_def)
  show "cr3 s = ctx_dir (g (current_task s))" if "0 < n" using inv that by (simp add: sched_inv_def)
  fix c s'
  assume "timer_callback s = (c, s')"
  from sched_inv_tick(2-6) [OF inv this] show "let r = suspended g s (current_task s') in
    c = Jump (ctx_eip r) \<and> cpu_esp s' = ctx_esp r \<and> cpu_ebp s' = ctx_ebp r \<and>
    cr3 s' = ctx_dir r \<and> current_directory s' = ctx_dir r"
    by (simp add: Let_def)
qed

text \<open>Two ticks: the second task starts where its structure says, then the first goes on where it was suspended.\<close>

theorem sched_run_fair_witness:
  "\<exists>c s' c2 s2. timer_callback demo_tasks = (c, s') \<and> current_task s' = 0x2000 \<and>
    (c, cpu_esp s', cpu_ebp s') = (Jump 0x9000, 0x6f00, 0x6f80) \<and>
    timer_callback s' = (c2, s2) \<and> current_task s2 = 0x1000 \<and>
    (c2, cpu_esp s2, cpu_ebp s2) = (Jump 0x8000, 0x6e00, 0x6e80)"
proof -
  let ?g = "context_of two_tasks"
  have run: "sched_run [0x1000, 0x2000] 0 ?g demo_tasks"
    using sched_run.started [OF demo_tasks_queue] by (simp add: demo_tasks_fields switched_mark_def)
  obtain c s' where t: "timer_callback demo_tasks = (c, s')" by fastforce
  obtain c2 s2 where t2: "timer_callback s' = (c2, s2)" by fastforce
  note run1 = sched_run.ticked [OF run t] and run2 = sched_run.ticked [OF sched_run.ticked [OF run t] t2]
  from sched_run_fair [OF run1] sched_run_fair [OF run2] have cur: "current_task s' = 0x2000" "current_task s2 = 0x1000" by simp_all
  from sched_run_fair [OF run] t have "c = Jump (ctx_eip (?g 0x2000)) \<and> cpu_esp s' = ctx_esp (?g 0x2000) \<and> cpu_ebp s' = ctx_ebp (?g 0x2000)"
    by (simp add: Let_def suspended_def cur demo_tasks_fields)
  moreover from sched_run_fair [OF run1] t2 have "c2 = Jump 0x8000 \<and> cpu_esp s2 = 0x6e00 \<and> cpu_ebp s2 = 0x6e80"
    by (simp add: Let_def suspended_def cur demo_tasks_fields)
  ultimately show ?thesis using t t2 cur by (simp add: two_tasks_fields context_of_def)
qed

end
