(* ===== verification/Console.thy ===== *)
theory Console
  imports Scheduler
begin

text \<open>
  Printing and interrupt dispatch, which call each other: \<^verbatim>\<open>print_formatted\<close> of \<^verbatim>\<open>lib/base/stdio.h\<close>
  formats a string and hands it to the screen driver through the system call macro of
  \<^verbatim>\<open>lib/base/syscall.h\<close>; the interrupt arrives at \<^verbatim>\<open>isr_handler\<close>, whose handlers and error paths
  print in turn. The reports of \<^verbatim>\<open>lib/base/exceptions.c\<close> and the \<^verbatim>\<open>PANIC\<close> macro of
  \<^verbatim>\<open>core/kernel/kernel.h\<close> are here for the same reason, and so are the keyboard driver, the debug
  handler and the page fault handler.
\<close>

section \<open>Colours\<close>

datatype console_color = BLACK | LOW_BLUE | LOW_GREEN | LOW_CYAN | LOW_RED | LOW_MAGENTA | BROWN | LIGHT_GRAY
  | DARK_GRAY | HIGH_BLUE | HIGH_GREEN | HIGH_CYAN | HIGH_RED | HIGH_MAGENTA | YELLOW | WHITE

fun color_value :: "console_color \<Rightarrow> u_dword" where
  "color_value BLACK = 0"
| "color_value LOW_BLUE = 1"
| "color_value LOW_GREEN = 2"
| "color_value LOW_CYAN = 3"
| "color_value LOW_RED = 4"
| "color_value LOW_MAGENTA = 5"
| "color_value BROWN = 6"
| "color_value LIGHT_GRAY = 7"
| "color_value DARK_GRAY = 8"
| "color_value HIGH_BLUE = 9"
| "color_value HIGH_GREEN = 10"
| "color_value HIGH_CYAN = 11"
| "color_value HIGH_RED = 12"
| "color_value HIGH_MAGENTA = 13"
| "color_value YELLOW = 14"
| "color_value WHITE = 15"

section \<open>Calls with arguments on the stack\<close>

text \<open>
  Arguments are pushed from the last to the first, so they end up in order at growing addresses.
  The frame addresses are fields of the state; no activation reads its slots again after a nested
  call may have reused them.
\<close>

primrec push_dwords :: "addr \<Rightarrow> u_dword list \<Rightarrow> memory \<Rightarrow> memory" where
  "push_dwords a [] m = m"
| "push_dwords a (x # xs) m = store32 (push_dwords (a + 4) xs m) a x"

definition call_format ::
    "addr \<Rightarrow> u_dword list \<Rightarrow> 'a kernel_state_scheme \<Rightarrow> ('a kernel_state_scheme, addr) result" where
  "call_format temp args s =
     format_string (fp_unit s) temp (format_frame s)
       (s\<lparr>mem := push_dwords (format_frame s + 8) (temp # args) (mem s)\<rparr>)"

section \<open>System calls\<close>

text \<open>
  What the processor does at \<^verbatim>\<open>int\<close> is the parameter \<open>intr\<close>: it gets the vector and the registers.
  A handler that switches tasks instead of returning would leave the macro half done; no vector
  used with the macro has such a handler, and the case counts as \<open>Undefined\<close>.
\<close>

type_synonym 's interrupt = "nat \<Rightarrow> registers \<Rightarrow> 's \<Rightarrow> ('s, control) result"

text \<open>The loop that pushes the extracted arguments, from the last to the first.\<close>

primrec push_rounds :: "addr \<Rightarrow> addr \<Rightarrow> nat \<Rightarrow> memory \<Rightarrow> memory" where
  "push_rounds args slots 0 m = m"
| "push_rounds args slots (Suc i) m =
     push_rounds args slots i (store32 m (slots + 4 * of_nat i) (load32 m (args + 4 * of_nat i)))"

definition call_system ::
    "'a kernel_state_scheme interrupt \<Rightarrow> nat \<Rightarrow> u_dword list \<Rightarrow> 'a kernel_state_scheme \<Rightarrow>
      ('a kernel_state_scheme, unit) result" where
  "call_system intr interruption arguments s =
     (let n = length arguments;
          s = s\<lparr>mem := push_dwords (extract_frame s + 8) (of_nat n # arguments) (mem s)\<rparr>
      in and_then (extract_dword_args (extract_frame s) (of_nat n) s) (\<lambda>args s.
         (let s = s\<lparr>mem := push_rounds args (system_frame s + 4) n (mem s)\<rparr>
          in and_then (unalloc args s) (\<lambda>_ s.
             (let s = s\<lparr>mem := store32 (mem s) (system_frame s) (cpu_ebp s)\<rparr>
              in and_then (intr interruption ((cpu s)\<lparr>regs_ebp := system_frame s\<rparr>) s) (\<lambda>c s.
                 case c of Return \<Rightarrow> Inr ((), s) | Jump _ \<Rightarrow> Inl (Undefined s)))))))"

text \<open>
  The variant with a result pops the argument slots one after the other into the result variable,
  slot 0 (where the handler put its answer) first, so that the last slot is what remains.
\<close>

primrec pop_rounds :: "addr \<Rightarrow> nat \<Rightarrow> memory \<Rightarrow> u_dword \<Rightarrow> u_dword" where
  "pop_rounds esp 0 m v = v"
| "pop_rounds esp (Suc k) m v = pop_rounds (esp + 4) k m (load32 m esp)"

definition call_system_ret ::
    "'a kernel_state_scheme interrupt \<Rightarrow> nat \<Rightarrow> u_dword \<Rightarrow> u_dword list \<Rightarrow> 'a kernel_state_scheme \<Rightarrow>
      ('a kernel_state_scheme, u_dword) result" where
  "call_system_ret intr interruption ret_value arguments s =
     and_then (call_system intr interruption arguments s) (\<lambda>_ s.
       Inr (pop_rounds (system_frame s + 4) (length arguments) (mem s) ret_value, s))"

section \<open>Printing\<close>

definition print_formatted ::
    "'a kernel_state_scheme interrupt \<Rightarrow> console_color \<Rightarrow> console_color \<Rightarrow> addr \<Rightarrow> u_dword list \<Rightarrow>
      'a kernel_state_scheme \<Rightarrow> ('a kernel_state_scheme, unit) result" where
  "print_formatted intr font back temp args s =
     and_then (call_format temp args s) (\<lambda>formatted s.
     and_then (call_system intr 48 [2, formatted, color_value font, color_value back, 0] s) (\<lambda>_ s.
       unalloc formatted s))"

text \<open>The five macros; a template is a literal of the program text.\<close>

definition print_literal ::
    "console_color \<Rightarrow> 'a kernel_state_scheme interrupt \<Rightarrow> string \<Rightarrow> u_dword list \<Rightarrow>
      'a kernel_state_scheme \<Rightarrow> ('a kernel_state_scheme, unit) result" where
  "print_literal font intr temp args s = print_formatted intr font BLACK (literal s temp) args s"

abbreviation "bad \<equiv> print_literal HIGH_RED"
abbreviation "warn \<equiv> print_literal YELLOW"
abbreviation "good \<equiv> print_literal HIGH_GREEN"
abbreviation "info \<equiv> print_literal HIGH_BLUE"
abbreviation "plain \<equiv> print_literal LIGHT_GRAY"

abbreviation newline :: string where "newline \<equiv> [CHR 0x0A]"
abbreviation tabulator :: string where "tabulator \<equiv> [CHR 0x09]"

section \<open>Exception reports and panic\<close>

text \<open>
  \<^verbatim>\<open>throw_exception\<close> with the branch that needs the console: without a handler it prints a report,
  calls the empty \<^verbatim>\<open>terminate\<close> and returns.
\<close>

definition report_exception ::
    "'a kernel_state_scheme interrupt \<Rightarrow> exception \<Rightarrow> 'a kernel_state_scheme \<Rightarrow>
      ('a kernel_state_scheme, unit) result" where
  "report_exception intr exc s =
     and_then (bad intr ''Exception #%d!'' [ucast (exc_id exc)] s) (\<lambda>_ s.
     and_then (if exc_type exc \<noteq> nullptr then bad intr ('' Type: %s.'' @ newline) [exc_type exc] s
               else Inr ((), s)) (\<lambda>_ s.
     and_then (if exc_message exc \<noteq> nullptr then bad intr (''Message: %s'' @ newline) [exc_message exc] s
               else Inr ((), s)) (\<lambda>_ s.
     and_then (bad intr (''Code location: %s:%d'' @ newline) [exc_file exc, exc_line exc] s) (\<lambda>_ s.
       Inr ((), terminate (exc_id exc) s)))))"

definition throw_reporting ::
    "'a kernel_state_scheme interrupt \<Rightarrow> exception \<Rightarrow> 'a kernel_state_scheme \<Rightarrow>
      ('a kernel_state_scheme, unit) result" where
  "throw_reporting intr exc s =
     (case handlers s (exc_id exc) of
        None \<Rightarrow> report_exception intr exc s
      | Some h \<Rightarrow> call_exception_handler h exc s)"

text \<open>\<^verbatim>\<open>PANIC\<close> formats its message, throws exception 0 and spins.\<close>

definition panic ::
    "'a kernel_state_scheme interrupt \<Rightarrow> string \<Rightarrow> u_dword \<Rightarrow> string \<Rightarrow> u_dword list \<Rightarrow>
      'a kernel_state_scheme \<Rightarrow> ('a kernel_state_scheme, control) result" where
  "panic intr file line message args s =
     and_then (call_format (literal s message) args s) (\<lambda>formatted s.
     and_then (throw_reporting intr \<lparr>exc_id = 0, exc_type = literal s ''KERNEL PANIC'', exc_message = formatted,
       exc_file = literal s file, exc_line = line\<rparr> s) (\<lambda>_ s. Inl (Hang s)))"

section \<open>The handlers\<close>

definition keyboard_codes :: "u_byte list" where
  "keyboard_codes =
     [0x02, 0x03, 0x04, 0x05, 0x06, 0x07, 0x08, 0x09, 0x0a,
      0x0b, 0x0c, 0x0d, 0x0e, 0x0f, 0x10, 0x11, 0x12, 0x13, 0x14,
      0x15, 0x16, 0x17, 0x18, 0x19, 0x1a, 0x1b, 0x1c, 0x1e, 0x1f,
      0x20, 0x21, 0x22, 0x23, 0x24, 0x25, 0x26, 0x27, 0x28, 0x29,
      0x2b, 0x2c, 0x2d, 0x2e, 0x2f, 0x30, 0x31, 0x32, 0x33, 0x34,
      0x35, 0x39]"

definition keyboard_chars :: "u_byte list" where
  "keyboard_chars = chars (''1234567890-+'' @ [CHR 0x08, CHR 0x09] @ ''QWERTYUIOP[]'' @ newline @
     ''ASDFGHJKL;'' @ [CHR 0x27] @ [CHR 0x60] @ [CHR 0x5C] @ ''ZXCVBNM,./ '')"

text \<open>The output of the loop in \<^verbatim>\<open>print_letter\<close> is commented out, and both branches after it are empty.\<close>

definition print_letter :: "u_byte \<Rightarrow> 'a kernel_state_scheme \<Rightarrow> 'a kernel_state_scheme" where
  "print_letter scancode s = s"

definition keyboard_callback :: "'a kernel_state_scheme \<Rightarrow> 'a kernel_state_scheme" where
  "keyboard_callback s = (let (scancode, s) = port_byte_in 0x60 s in print_letter scancode s)"

primrec debug_args ::
    "'a kernel_state_scheme interrupt \<Rightarrow> addr \<Rightarrow> nat \<Rightarrow> 'a kernel_state_scheme \<Rightarrow>
      ('a kernel_state_scheme, unit) result" where
  "debug_args intr esp 0 s = Inr ((), s)"
| "debug_args intr esp (Suc i) s =
     and_then (debug_args intr esp i s) (\<lambda>_ s.
       bad intr (''Orbital arg #%d: %h'' @ newline) [of_nat i, load32 (mem s) (esp + 0x14 + of_nat i * 4)] s)"

definition debug ::
    "'a kernel_state_scheme interrupt \<Rightarrow> registers \<Rightarrow> 'a kernel_state_scheme \<Rightarrow>
      ('a kernel_state_scheme, unit) result" where
  "debug intr regs s =
     and_then (bad intr (''Registers:'' @ newline @ tabulator @ ''eax: %h'' @ newline @ tabulator @ ''ebx: %h'' @
         newline @ tabulator @ ''ecx: %h'' @ newline @ tabulator @ ''edx: %h'' @ newline)
       [regs_eax regs, regs_ebx regs, regs_ecx regs, regs_edx regs] s) (\<lambda>_ s.
     and_then (bad intr (''Stack:'' @ newline @ tabulator @ ''ebp: %h'' @ newline @ tabulator @ ''esp: %h'' @ newline)
       [regs_ebp regs, regs_esp_plus regs + 0x14] s) (\<lambda>_ s.
     and_then (bad intr (''Instruction:'' @ newline @ tabulator @ ''eip: %h'' @ newline) [regs_eip regs] s) (\<lambda>_ s.
     and_then (bad intr (''IO:'' @ newline @ tabulator @ ''esi: %h'' @ newline @ tabulator @ ''edi: %h'' @ newline)
       [regs_esi regs, regs_edi regs] s) (\<lambda>_ s.
       debug_args intr (regs_esp_plus regs) 10 s))))"

definition page_fault ::
    "'a kernel_state_scheme interrupt \<Rightarrow> registers \<Rightarrow> 'a kernel_state_scheme \<Rightarrow>
      ('a kernel_state_scheme, control) result" where
  "page_fault intr regs s =
     (let faulting_address = cr2 s;
          present = regs_err_code regs AND 0x1;
          rw = regs_err_code regs AND 0x2;
          us = regs_err_code regs AND 0x4;
          reserved = regs_err_code regs AND 0x8
      in panic intr ''./core/kernel/pages.c'' 189
           ''Page fault! (p: %d, w: %d, u: %d, r: %d) at %h (EIP: %h)''
           [present, rw, us, reserved, faulting_address, regs_eip regs] s)"

definition call_handler ::
    "'a kernel_state_scheme interrupt \<Rightarrow> interruption_handler \<Rightarrow> registers \<Rightarrow> 'a kernel_state_scheme \<Rightarrow>
      ('a kernel_state_scheme, control) result" where
  "call_handler intr h regs s =
     (case h of
        Timer_callback \<Rightarrow> Inr (timer_callback s)
      | Screen_callback \<Rightarrow> and_then (screen_callback (regs_ebp regs) s) (\<lambda>_ s. Inr (Return, s))
      | Debug_handler \<Rightarrow> and_then (debug intr regs s) (\<lambda>_ s. Inr (Return, s))
      | Keyboard_callback \<Rightarrow> Inr (Return, keyboard_callback s)
      | Silent_handler \<Rightarrow> Inr (Return, s)
      | Page_fault \<Rightarrow> page_fault intr regs s)"

section \<open>Dispatch\<close>

definition isr_handler ::
    "'a kernel_state_scheme interrupt \<Rightarrow> registers \<Rightarrow> 'a kernel_state_scheme \<Rightarrow>
      ('a kernel_state_scheme, control) result" where
  "isr_handler intr regs s =
     and_then (if regs_int_no regs = 32 then bad intr ''Received undefined user interrupt.'' [] s
               else Inr ((), s)) (\<lambda>_ s.
     case interruption_handlers s (ucast (regs_int_no regs)) of
       Some h \<Rightarrow> call_handler intr h regs s
     | None \<Rightarrow>
         if regs_int_no regs < 48 then
           panic intr ''./core/kernel/interruption_tables.c'' 153 ''Received undefined interrupt: %h'' [regs_int_no regs] s
         else panic intr ''./core/kernel/interruption_tables.c'' 154 ''Received some interrupt: %h'' [regs_int_no regs] s)"

definition irq_handler ::
    "'a kernel_state_scheme interrupt \<Rightarrow> registers \<Rightarrow> 'a kernel_state_scheme \<Rightarrow>
      ('a kernel_state_scheme, control) result" where
  "irq_handler intr regs s =
     (let s = acknowledge (regs_int_no regs) s
      in case interruption_handlers s (ucast (regs_int_no regs)) of
           Some h \<Rightarrow> call_handler intr h regs s
         | None \<Rightarrow> and_then (info intr (''Received hardware interrupt: %h'' @ newline) [regs_int_no regs - 15] s)
             (\<lambda>_ s. Inr (Return, s)))"

text \<open>
  The way of an interrupt through the gate of its vector (theorem \<open>idt_routes_every_vector\<close> says
  that the descriptor table leads to \<open>gate_stub\<close>) and its entry point, which pushes the vector
  number; \<open>err_code\<close> is what the processor pushed, or 0. The depth bounds how often
  handlers nest: every level takes more than 120 bytes of a stack of \<^verbatim>\<open>0x5000\<close> bytes, so that 170
  levels overrun it.
\<close>

primrec interrupt :: "nat \<Rightarrow> 'a kernel_state_scheme interrupt" where
  "interrupt 0 = (\<lambda>n regs s. Inl (Undefined s))"
| "interrupt (Suc d) = (\<lambda>n regs s.
     (let regs = regs\<lparr>regs_int_no := of_nat (stub_vector (gate_stub n))\<rparr>
      in case gate_stub n of
           Isr _ \<Rightarrow> isr_handler (interrupt d) regs s
         | Irq _ \<Rightarrow> irq_handler (interrupt d) regs s))"

definition stack_depth :: nat where "stack_depth = 170"

definition raise :: "'a kernel_state_scheme interrupt" where
  "raise = interrupt stack_depth"

section \<open>Registration\<close>

definition set_interrupt_handler ::
    "u_byte \<Rightarrow> interruption_handler \<Rightarrow> 'a kernel_state_scheme \<Rightarrow> ('a kernel_state_scheme, unit) result" where
  "set_interrupt_handler n handler s =
     (let s = put_handler n handler s
      in if n \<noteq> 32 then info raise (''Handler set for interruption: %d'' @ newline) [ucast n] s else Inr ((), s))"

definition silence_interrupt ::
    "u_byte \<Rightarrow> 'a kernel_state_scheme \<Rightarrow> ('a kernel_state_scheme, unit) result" where
  "silence_interrupt n s =
     (let s = put_handler n Silent_handler s
      in if n \<noteq> 32 then info raise (''Interruption silenced: %d'' @ newline) [ucast n] s else Inr ((), s))"

definition init_screen_io :: "'a kernel_state_scheme \<Rightarrow> ('a kernel_state_scheme, unit) result" where
  "init_screen_io s = set_interrupt_handler 48 Screen_callback s"

definition init_debug_handler :: "'a kernel_state_scheme \<Rightarrow> ('a kernel_state_scheme, unit) result" where
  "init_debug_handler s = set_interrupt_handler 49 Debug_handler s"

definition init_keyboard :: "'a kernel_state_scheme \<Rightarrow> ('a kernel_state_scheme, unit) result" where
  "init_keyboard s = set_interrupt_handler 33 Keyboard_callback s"

end
