(* ===== verification/Pages.thy ===== *)
theory Pages
  imports Console
begin

text \<open>
  \<^verbatim>\<open>core/kernel/pages.c\<close>: two bitmap allocators (for page tables and for user frames), page entries,
  the walk through the tables, cloning of address spaces, and the identity map of the kernel.
  The kernel runs on identity-mapped addresses, so memory is addressed physically throughout.
\<close>

section \<open>Constants and entries\<close>

definition page_size :: u_dword where "page_size = 0x1000"
definition full_byte :: u_dword where "full_byte = 0xff"
definition paging_pool_start :: addr where "paging_pool_start = 0x100000"
definition paging_pool_end :: addr where "paging_pool_end = 0xf00000"
definition user_space_start :: addr where "user_space_start = 0x1000000"
definition user_space_end :: addr where "user_space_end = 0x10000000"

lemmas page_constants = page_size_def full_byte_def paging_pool_start_def paging_pool_end_def
  user_space_start_def user_space_end_def

text \<open>The bit fields of a \<^verbatim>\<open>page_pointer\<close>: bits 0 to 8 are flags, 9 to 11 unused, 12 to 31 the frame.\<close>

type_synonym page_pointer = u_dword

definition page_frame :: "page_pointer \<Rightarrow> u_dword" where "page_frame p = drop_bit 12 p"
definition page_present :: "page_pointer \<Rightarrow> bool" where "page_present p = bit p 0"
definition page_rw :: "page_pointer \<Rightarrow> bool" where "page_rw p = bit p 1"
definition page_user :: "page_pointer \<Rightarrow> bool" where "page_user p = bit p 2"

definition set_frame :: "u_dword \<Rightarrow> page_pointer \<Rightarrow> page_pointer" where
  "set_frame f p = push_bit 12 f OR take_bit 12 p"

definition get_contents_as_page :: "page_pointer \<Rightarrow> addr" where
  "get_contents_as_page p = page_frame p * page_size"

definition entry_at :: "memory \<Rightarrow> addr \<Rightarrow> u_dword \<Rightarrow> page_pointer" where
  "entry_at m folder i = load32 m (folder + 4 * i)"

definition set_entry :: "addr \<Rightarrow> u_dword \<Rightarrow> page_pointer \<Rightarrow> 'a kernel_state_scheme \<Rightarrow> 'a kernel_state_scheme" where
  "set_entry folder i p s = s\<lparr>mem := store32 (mem s) (folder + 4 * i) p\<rparr>"

section \<open>The bitmap allocators\<close>

primrec first_clear_bit :: "nat \<Rightarrow> nat \<Rightarrow> u_byte \<Rightarrow> nat option" where
  "first_clear_bit 0 i b = None"
| "first_clear_bit (Suc k) i b = (if \<not> bit b i then Some i else first_clear_bit k (Suc i) b)"

text \<open>The loop always finds a clear bit when the byte is not full; the fall-through is \<open>full_byte\<close> here too.\<close>

definition get_free_bit :: "u_byte \<Rightarrow> u_dword" where
  "get_free_bit search =
     (if ucast search = full_byte then ucast search
      else case first_clear_bit 8 0 search of Some i \<Rightarrow> of_nat i | None \<Rightarrow> full_byte)"

text \<open>
  The loop common to \<^verbatim>\<open>allocate_frame\<close> and \<^verbatim>\<open>allocate_page_folder\<close>: the size of the pool is asked of
  the heap before every round. The counter has 32 bits, so it passes every size within
  \<open>2 ^ 32\<close> rounds.
\<close>

primrec pool_walk ::
    "nat \<Rightarrow> addr \<Rightarrow> addr \<Rightarrow> u_dword \<Rightarrow> 'a kernel_state_scheme \<Rightarrow> ('a kernel_state_scheme, addr option) result" where
  "pool_walk 0 pool start i s = Inl (Hang s)"
| "pool_walk (Suc fuel) pool start i s =
     and_then (size_bytes pool s) (\<lambda>n s.
       if i < n then
         (let free_bit = get_free_bit (mem s (pool + i)) in
          if free_bit \<noteq> full_byte then
            (let s = s\<lparr>mem := (mem s)(pool + i := mem s (pool + i) OR push_bit (unat free_bit) 1)\<rparr>
             in Inr (Some (start + (i * 8 + free_bit) * page_size), s))
          else pool_walk fuel pool start (i + 1) s)
       else Inr (None, s))"

definition allocate_frame :: "'a kernel_state_scheme \<Rightarrow> ('a kernel_state_scheme, addr) result" where
  "allocate_frame s =
     and_then (pool_walk walk_fuel (user_space_pool s) user_space_start 0 s) (\<lambda>found s.
       case found of Some address \<Rightarrow> Inr (address, s) | None \<Rightarrow> Inr (nullptr, s))"

definition allocate_page_folder :: "'a kernel_state_scheme \<Rightarrow> ('a kernel_state_scheme, addr) result" where
  "allocate_page_folder s =
     and_then (pool_walk walk_fuel (paging_pool s) paging_pool_start 0 s) (\<lambda>found s.
       case found of
         Some address \<Rightarrow> Inr (address, s\<lparr>mem := memory_clear address page_size 0 (mem s)\<rparr>)
       | None \<Rightarrow> Inr (nullptr, s))"

text \<open>Releasing: the byte distance from the start of the area is used as the bit number.\<close>

definition clear_pool_bit :: "addr \<Rightarrow> u_dword \<Rightarrow> 'a kernel_state_scheme \<Rightarrow> 'a kernel_state_scheme" where
  "clear_pool_bit pool index s =
     s\<lparr>mem := (mem s)(pool + index div 8 :=
        mem s (pool + index div 8) AND NOT (push_bit (unat (index mod 8)) 1))\<rparr>"

definition free_frame :: "addr \<Rightarrow> 'a kernel_state_scheme \<Rightarrow> 'a kernel_state_scheme" where
  "free_frame address s = clear_pool_bit (user_space_pool s) (address - user_space_start) s"

primrec free_entries :: "(addr \<Rightarrow> 'a kernel_state_scheme \<Rightarrow> 'a kernel_state_scheme) \<Rightarrow> addr \<Rightarrow> nat \<Rightarrow>
    'a kernel_state_scheme \<Rightarrow> 'a kernel_state_scheme" where
  "free_entries f table 0 s = s"
| "free_entries f table (Suc i) s =
     (let s = free_entries f table i s
      in f (get_contents_as_page (entry_at (mem s) table (of_nat i))) s)"

definition free_page_table :: "addr \<Rightarrow> bool \<Rightarrow> 'a kernel_state_scheme \<Rightarrow> 'a kernel_state_scheme" where
  "free_page_table table top_level s =
     (let free_low = (\<lambda>t s. free_entries free_frame t 1024
                        (clear_pool_bit (paging_pool s) (t - paging_pool_start) s));
          s = clear_pool_bit (paging_pool s) (table - paging_pool_start) s
      in free_entries (if top_level then free_low else free_frame) table 1024 s)"

section \<open>Entries and the table walk\<close>

definition create_page_entry :: "'a kernel_state_scheme \<Rightarrow> addr \<Rightarrow> bool \<Rightarrow> bool \<Rightarrow> page_pointer" where
  "create_page_entry s address is_kernel is_writeable =
     (let p = set_frame (address div page_size) (entry_junk s address is_kernel is_writeable);
          p = (if is_kernel then unset_bit 2 p else set_bit 2 p);
          p = (if is_writeable then set_bit 1 p else unset_bit 1 p)
      in set_bit 0 p)"

definition get_page ::
    "u_dword \<Rightarrow> bool \<Rightarrow> addr \<Rightarrow> 'a kernel_state_scheme \<Rightarrow> ('a kernel_state_scheme, addr) result" where
  "get_page address mk dir s =
     (if address > user_space_end then Inr (nullptr, s)
      else
        (let address = address div page_size;
             table_idx = address div 1024;
             entry = get_contents_as_page (entry_at (mem s) dir table_idx)
         in if entry = 0 \<and> \<not> mk then Inr (nullptr, s)
            else and_then
              (if entry = 0 then
                 and_then (allocate_page_folder s) (\<lambda>folder s.
                   Inr ((), set_entry dir table_idx (create_page_entry s folder True True) s))
               else Inr ((), s)) (\<lambda>_ s.
              Inr (get_contents_as_page (entry_at (mem s) dir table_idx) + 4 * (address mod 1024), s))))"

section \<open>Cloning an address space\<close>

text \<open>Each bit field is copied in turn; together they are all 32 bits.\<close>

definition clone_page_pointer :: "page_pointer \<Rightarrow> page_pointer" where
  "clone_page_pointer p =
     (p AND 0x1) OR (p AND 0x2) OR (p AND 0x4) OR (p AND 0x8) OR (p AND 0x10) OR (p AND 0x20) OR
     (p AND 0x40) OR (p AND 0x80) OR (p AND 0x100) OR (p AND 0xe00) OR (p AND 0xfffff000)"

definition contains_user_pages :: "page_pointer \<Rightarrow> memory \<Rightarrow> bool" where
  "contains_user_pages folder m =
     list_ex (\<lambda>i. page_user (entry_at m (get_contents_as_page folder) (of_nat i))) [0..<1024]"

text \<open>The assembly routine: 1024 double words, from low to high addresses, with paging switched off
  meanwhile and on afterwards.\<close>

primrec copy_dwords :: "addr \<Rightarrow> addr \<Rightarrow> nat \<Rightarrow> memory \<Rightarrow> memory" where
  "copy_dwords source dest 0 m = m"
| "copy_dwords source dest (Suc k) m =
     (let m = copy_dwords source dest k m
      in store32 m (dest + 4 * of_nat k) (load32 m (source + 4 * of_nat k)))"

definition copy_page_physical :: "addr \<Rightarrow> addr \<Rightarrow> 'a kernel_state_scheme \<Rightarrow> 'a kernel_state_scheme" where
  "copy_page_physical source dest s = s\<lparr>mem := copy_dwords source dest 1024 (mem s), paging_enabled := True\<rparr>"

text \<open>Round \<open>i\<close> of the loop of \<^verbatim>\<open>clone_table\<close> on the source table \<open>pages\<close> and the new table.\<close>

definition clone_table_entry ::
    "page_pointer \<Rightarrow> addr \<Rightarrow> nat \<Rightarrow> 'a kernel_state_scheme \<Rightarrow> ('a kernel_state_scheme, unit) result" where
  "clone_table_entry src table i s =
     (let pages = get_contents_as_page src; idx = of_nat i; p = entry_at (mem s) pages idx in
      if \<not> page_present p then Inr ((), s)
      else if page_user src \<or> page_user p then
        (let s = set_entry table idx (clone_page_pointer p) s
         in and_then (allocate_frame s) (\<lambda>frame s.
           (let s = set_entry table idx (set_frame (frame div page_size) (entry_at (mem s) table idx)) s;
                source = page_frame (entry_at (mem s) pages idx) * page_size;
                dest = page_frame (entry_at (mem s) table idx) * page_size
            in Inr ((), copy_page_physical source dest s))))
      else Inr ((), set_entry table idx p s))"

primrec clone_table_walk ::
    "page_pointer \<Rightarrow> addr \<Rightarrow> nat \<Rightarrow> 'a kernel_state_scheme \<Rightarrow> ('a kernel_state_scheme, unit) result" where
  "clone_table_walk src table 0 s = Inr ((), s)"
| "clone_table_walk src table (Suc i) s =
     and_then (clone_table_walk src table i s) (\<lambda>_ s. clone_table_entry src table i s)"

definition clone_table :: "page_pointer \<Rightarrow> 'a kernel_state_scheme \<Rightarrow> ('a kernel_state_scheme, page_pointer) result" where
  "clone_table src s =
     and_then (allocate_page_folder s) (\<lambda>table s.
     and_then (clone_table_walk src table 1024 s) (\<lambda>_ s.
       Inr (set_frame (table div page_size) (clone_page_pointer src), s)))"

primrec clone_directory_walk ::
    "addr \<Rightarrow> addr \<Rightarrow> nat \<Rightarrow> 'a kernel_state_scheme \<Rightarrow> ('a kernel_state_scheme, unit) result" where
  "clone_directory_walk src dir 0 s = Inr ((), s)"
| "clone_directory_walk src dir (Suc i) s =
     and_then (clone_directory_walk src dir i s) (\<lambda>_ s.
       (let idx = of_nat i; p = entry_at (mem s) src idx in
        if \<not> page_present p then Inr ((), s)
        else if page_user p \<or> contains_user_pages p (mem s) then
          and_then (clone_table p s) (\<lambda>q s. Inr ((), set_entry dir idx q s))
        else Inr ((), set_entry dir idx p s)))"

definition clone_directory :: "addr \<Rightarrow> 'a kernel_state_scheme \<Rightarrow> ('a kernel_state_scheme, addr) result" where
  "clone_directory src s =
     and_then (allocate_page_folder s) (\<lambda>dir s.
     and_then (clone_directory_walk src dir 1024 s) (\<lambda>_ s. Inr (dir, s)))"

section \<open>The kernel's identity map\<close>

definition stack_pointer :: addr where "stack_pointer = 0x7000"
definition stack_size :: u_dword where "stack_size = 0x5000"

definition in_stack :: "u_dword \<Rightarrow> bool" where
  "in_stack i \<longleftrightarrow> i \<ge> stack_pointer - stack_size \<and> i < stack_pointer"

primrec map_pages :: "nat \<Rightarrow> 'a kernel_state_scheme \<Rightarrow> ('a kernel_state_scheme, unit) result" where
  "map_pages 0 s = Inr ((), s)"
| "map_pages (Suc k) s =
     and_then (map_pages k s) (\<lambda>_ s.
       (let i = of_nat k * page_size in
        and_then (get_page i True (kernel_directory s) s) (\<lambda>page s.
          Inr ((), s\<lparr>mem := store32 (mem s) page
            (create_page_entry s i (\<not> in_stack i) (in_stack i))\<rparr>))))"

text \<open>\<^verbatim>\<open>initialise_paging\<close>: the two pools, the directory and the identity map of the first 16 megabytes.\<close>

definition create_pools :: "'a kernel_state_scheme \<Rightarrow> ('a kernel_state_scheme, unit) result" where
  "create_pools s =
     (let paging_pool_size = (paging_pool_end - paging_pool_start) div page_size div 8 in
      and_then (ralloc paging_pool_size s) (\<lambda>p s.
      (let s = s\<lparr>paging_pool := p\<rparr>;
           s = s\<lparr>mem := memory_clear p paging_pool_size 0 (mem s)\<rparr>;
           user_space_pool_size = (user_space_end - user_space_start) div page_size div 8
       in and_then (ralloc user_space_pool_size s) (\<lambda>p s.
       (let s = s\<lparr>user_space_pool := p\<rparr>
        in Inr ((), s\<lparr>mem := memory_clear p user_space_pool_size 0 (mem s)\<rparr>))))))"

definition build_kernel_map :: "'a kernel_state_scheme \<Rightarrow> ('a kernel_state_scheme, unit) result" where
  "build_kernel_map s =
     and_then (allocate_page_folder s) (\<lambda>d s.
       map_pages (unat (user_space_start div page_size)) (s\<lparr>kernel_directory := d\<rparr>))"

definition enable_paging :: "'a kernel_state_scheme \<Rightarrow> 'a kernel_state_scheme" where
  "enable_paging s =
     (let s = s\<lparr>current_directory := kernel_directory s\<rparr>
      in s\<lparr>cr3 := current_directory s, paging_enabled := True\<rparr>)"

definition initialise_paging :: "'a kernel_state_scheme \<Rightarrow> ('a kernel_state_scheme, unit) result" where
  "initialise_paging s =
     and_then (create_pools s) (\<lambda>_ s.
     and_then (build_kernel_map s) (\<lambda>_ s.
     and_then (set_interrupt_handler 14 Page_fault s) (\<lambda>_ s.
       Inr ((), enable_paging s))))"

end
