(* ===== verification/Pools.thy ===== *)
theory Pools
  imports Pages
begin

text \<open>
  The two bitmap allocators of \<^verbatim>\<open>core/kernel/pages.c\<close>, for user frames and for page tables, are the same
  pool: the interface \<open>frame_pool\<close> states what a pool promises, and both allocators are
  interpretations of it.
\<close>

section \<open>The free bit of a byte\<close>

lemma first_clear_bit_Some:
  "first_clear_bit k i b = Some j \<Longrightarrow> i \<le> j \<and> j < i + k \<and> \<not> bit b j \<and> (\<forall>l. i \<le> l \<longrightarrow> l < j \<longrightarrow> bit b l)"
proof (induction k arbitrary: i)
  case (Suc k)
  show ?case
  proof (cases "bit b i")
    case True
    then have "first_clear_bit k (Suc i) b = Some j" using Suc.prems by simp
    from Suc.IH [OF this] have j: "Suc i \<le> j" "j < Suc i + k" "\<not> bit b j"
      and below: "\<And>l. Suc i \<le> l \<Longrightarrow> l < j \<Longrightarrow> bit b l" by auto
    have "bit b l" if "i \<le> l" "l < j" for l
      using True below [of l] that by (cases "l = i") auto
    then show ?thesis using j by simp
  next
    case False
    then show ?thesis using Suc.prems by auto
  qed
qed simp

lemma first_clear_bit_None:
  "first_clear_bit k i b = None \<Longrightarrow> i \<le> l \<Longrightarrow> l < i + k \<Longrightarrow> bit b l"
proof (induction k arbitrary: i)
  case (Suc k)
  then show ?case by (cases "l = i") (auto split: if_splits)
qed simp

lemma full_byte_iff: "(b :: u_byte) = 255 \<longleftrightarrow> (\<forall>l < 8. bit b l)"
proof -
  have "(255 :: u_byte) = - 1" by simp
  then show ?thesis by (auto simp: bit_eq_iff)
qed

lemma get_free_bit_full: "get_free_bit 255 = full_byte"
  by (simp add: get_free_bit_def full_byte_def)

lemma get_free_bit_free:
  assumes "b \<noteq> 255"
  obtains j where "j < 8" and "get_free_bit b = of_nat j" and "\<not> bit b j" and "\<And>l. l < j \<Longrightarrow> bit b l"
proof -
  have "(ucast b :: u_dword) \<noteq> full_byte"
  proof
    assume "(ucast b :: u_dword) = full_byte"
    moreover have "(ucast (ucast b :: u_dword) :: u_byte) = b"
      by (rule bit_word_eqI) (simp add: bit_ucast_iff)
    ultimately show False using assms by (simp add: full_byte_def)
  qed
  moreover obtain j where j: "first_clear_bit 8 0 b = Some j"
    using first_clear_bit_None [of 8 0 b] full_byte_iff [of b] assms by (cases "first_clear_bit 8 0 b") auto
  ultimately have "get_free_bit b = of_nat j" by (simp add: get_free_bit_def)
  then show thesis using that first_clear_bit_Some [OF j] by auto
qed

section \<open>Walking a pool\<close>

text \<open>
  \<open>pool_bit m p k\<close>: page \<open>k\<close> is taken. A pool in good order is a heap block of the size the code gave it;
  it lies below the page tables, and so does everything the heap manages.
\<close>

definition pool_bit :: "memory \<Rightarrow> addr \<Rightarrow> nat \<Rightarrow> bool" where
  "pool_bit m p k \<longleftrightarrow> bit (m (p + of_nat (k div 8))) (k mod 8)"

definition pool_ok :: "addr \<Rightarrow> nat \<Rightarrow> 'a heap_state_scheme \<Rightarrow> bool" where
  "pool_ok p n s \<longleftrightarrow> unat p + n \<le> 0x100000 \<and> (\<exists>bs. heap_ok s bs \<and> (p, of_nat n) \<in> set bs \<and>
     (\<forall>x. 0x100000 \<le> unat x \<longrightarrow> held_byte s bs x))"

lemma pool_okE:
  assumes "pool_ok p n s"
  obtains bs where "heap_ok s bs" and "(p, of_nat n) \<in> set bs" and "\<And>x. 0x100000 \<le> unat x \<Longrightarrow> held_byte s bs x"
    and "unat p + n \<le> 0x100000" and "n < 4294967296"
  using assms unfolding pool_ok_def by force

lemma pool_size: "pool_ok p n s \<Longrightarrow> size_bytes p s = Inr (of_nat n, s)"
  by (erule pool_okE) (metis fst_conv heap_okD(1) in_set_conv_nth size_bytes_eq snd_conv)

lemma pool_byte:
  assumes "pool_ok p n s" and "i < n"
  shows "unat (p + of_nat i) < 0x100000" and "unat (p + of_nat i) = unat p + i"
proof -
  from assms(1) obtain bs where "unat p + n \<le> 0x100000" "n < 4294967296" by (rule pool_okE)
  then show "unat (p + of_nat i) = unat p + i" "unat (p + of_nat i) < 0x100000"
    using assms(2) by (subst unat_plus_small; simp add: unat_of_nat32)+
qed

lemma pool_write:
  assumes "pool_ok p n s" and "i < n"
  shows "pool_ok p n (s\<lparr>mem := (mem s)(p + of_nat i := v)\<rparr>)"
proof -
  from assms(1) obtain bs where bs: "heap_ok s bs" "(p, of_nat n) \<in> set bs" and n: "n < 4294967296"
    and up: "\<And>x. 0x100000 \<le> unat x \<Longrightarrow> held_byte s bs x" by (rule pool_okE) blast
  have "in_range p (unat (of_nat n :: u_dword)) (p + of_nat i)"
    using assms(2) n by (simp add: unat_of_nat32 in_range_offset)
  then have "held_byte s bs (p + of_nat i)" using bs(2) by (force simp: held_byte_def in_payload_def)
  moreover define m where "m = (mem s)(p + of_nat i := v)"
  ultimately have "m x = mem s x" if "\<not> held_byte s bs x" for x using that by auto
  note w = held_write [OF bs(1) this]
  show ?thesis
    using assms(1) bs up w(1,2) unfolding m_def [symmetric] pool_ok_def by metis
qed

lemma pool_bit_set:
  assumes "pool_ok p n s" and "j < n" and "b < 8" and "k < 8 * n"
  shows "pool_bit ((mem s)(p + of_nat j := mem s (p + of_nat j) OR push_bit b 1)) p k \<longleftrightarrow>
    k = 8 * j + b \<or> pool_bit (mem s) p k"
proof -
  have k: "k div 8 < n" using assms(4) by simp
  have eq: "p + of_nat (k div 8) = p + of_nat j \<longleftrightarrow> k div 8 = j"
    using pool_byte(2) [OF assms(1) k] pool_byte(2) [OF assms(1,2)] by (metis add_left_cancel)
  have "bit (mem s (p + of_nat j) OR push_bit b 1) (k mod 8) \<longleftrightarrow> bit (mem s (p + of_nat j)) (k mod 8) \<or> k mod 8 = b"
    by (auto simp: bit_or_iff bit_exp_iff)
  moreover have "k = 8 * j + b \<longleftrightarrow> k div 8 = j \<and> k mod 8 = b"
  proof -
    have "(8 * j + b) div 8 = j" "(8 * j + b) mod 8 = b" using assms(3) by simp_all
    then show ?thesis using mult_div_mod_eq [of 8 k] by metis
  qed
  ultimately show ?thesis
    by (cases "k div 8 = j") (simp_all only: pool_bit_def fun_upd_apply eq if_True if_False simp_thms disj_commute)
qed

lemma pool_walk_found:
  assumes "pool_ok p n s" and "j < n" and "i \<le> j" and "\<And>l. i \<le> l \<Longrightarrow> l < j \<Longrightarrow> mem s (p + of_nat l) = 255"
    and "mem s (p + of_nat j) \<noteq> 255" and "j - i < fuel"
  shows "pool_walk fuel p start (of_nat i) s =
    Inr (Some (start + (of_nat j * 8 + get_free_bit (mem s (p + of_nat j))) * page_size),
      s\<lparr>mem := (mem s)(p + of_nat j := mem s (p + of_nat j) OR
        push_bit (unat (get_free_bit (mem s (p + of_nat j)))) 1)\<rparr>)"
  using assms(3-)
proof (induction fuel arbitrary: i)
  case (Suc fuel)
  have n: "n < 4294967296" using assms(1) by (rule pool_okE)
  have lt: "(of_nat i :: u_dword) < of_nat n"
    using Suc.prems(1) assms(2) n by (simp add: word_less_nat_alt unat_of_nat32)
  show ?case
  proof (cases "i = j")
    case True
    obtain b where "b < 8" "get_free_bit (mem s (p + of_nat j)) = of_nat b"
      using get_free_bit_free [OF Suc.prems(3)] by metis
    then have "get_free_bit (mem s (p + of_nat j)) \<noteq> full_byte"
      by (auto simp: full_byte_def word_unat_eq_iff unat_of_nat32)
    then show ?thesis using lt True by (simp add: pool_size [OF assms(1)] Let_def fun_upd_def)
  next
    case False
    then have "mem s (p + of_nat i) = 255" and "Suc i \<le> j" using Suc.prems by simp_all
    moreover have "pool_walk fuel p start (of_nat (Suc i)) s =
      Inr (Some (start + (of_nat j * 8 + get_free_bit (mem s (p + of_nat j))) * page_size),
        s\<lparr>mem := (mem s)(p + of_nat j := mem s (p + of_nat j) OR
          push_bit (unat (get_free_bit (mem s (p + of_nat j)))) 1)\<rparr>)"
      using Suc.prems \<open>Suc i \<le> j\<close> by (intro Suc.IH) auto
    ultimately show ?thesis using lt by (simp add: pool_size [OF assms(1)] get_free_bit_full add.commute fun_upd_def)
  qed
qed simp

lemma pool_walk_full:
  assumes "pool_ok p n s" and "\<And>l. l < n \<Longrightarrow> mem s (p + of_nat l) = 255" and "i \<le> n" and "n - i < fuel"
  shows "pool_walk fuel p start (of_nat i) s = Inr (None, s)"
  using assms(3-)
proof (induction fuel arbitrary: i)
  case (Suc fuel)
  have n: "n < 4294967296" using assms(1) by (rule pool_okE)
  show ?case
  proof (cases "i = n")
    case True
    then show ?thesis by (simp add: pool_size [OF assms(1)])
  next
    case False
    then have "pool_walk fuel p start (of_nat (Suc i)) s = Inr (None, s)"
      using Suc.prems by (intro Suc.IH) auto
    moreover have "(of_nat i :: u_dword) < of_nat n"
      using Suc.prems False n by (simp add: word_less_nat_alt unat_of_nat32)
    ultimately show ?thesis
      using assms(2) [of i] Suc.prems(1) False by (simp add: pool_size [OF assms(1)] get_free_bit_full add.commute fun_upd_def)
  qed
qed simp

section \<open>The pool interface\<close>

text \<open>
  What a page pool promises: an allocation takes the lowest free page, and only a pool without a free
  page answers with the null pointer.
\<close>

locale frame_pool =
  fixes wf :: "'s \<Rightarrow> bool"
    and taken :: "'s \<Rightarrow> nat \<Rightarrow> bool"
    and capacity :: nat
    and frame :: "nat \<Rightarrow> addr"
    and alloc :: "'s \<Rightarrow> ('s, addr) result"
  assumes alloc_lowest: "wf s \<Longrightarrow> k < capacity \<Longrightarrow> \<not> taken s k \<Longrightarrow> (\<And>j. j < k \<Longrightarrow> taken s j) \<Longrightarrow>
      \<exists>s'. alloc s = Inr (frame k, s') \<and> wf s' \<and> (\<forall>j < capacity. taken s' j \<longleftrightarrow> j = k \<or> taken s j)"
    and alloc_full: "wf s \<Longrightarrow> (\<And>j. j < capacity \<Longrightarrow> taken s j) \<Longrightarrow> alloc s = Inr (nullptr, s)"
    and frame_inj: "j < capacity \<Longrightarrow> k < capacity \<Longrightarrow> frame j = frame k \<Longrightarrow> j = k"
    and frame_not_null: "k < capacity \<Longrightarrow> frame k \<noteq> nullptr"
begin

lemma alloc_total:
  assumes "wf s"
  shows "(\<exists>k s'. k < capacity \<and> \<not> taken s k \<and> (\<forall>j < k. taken s j) \<and> alloc s = Inr (frame k, s') \<and> wf s' \<and>
      (\<forall>j < capacity. taken s' j \<longleftrightarrow> j = k \<or> taken s j)) \<or>
    ((\<forall>j < capacity. taken s j) \<and> alloc s = Inr (nullptr, s))"
proof (cases "\<forall>j < capacity. taken s j")
  case False
  then obtain k where k: "k < capacity \<and> \<not> taken s k" "\<And>j. j < k \<Longrightarrow> \<not> (j < capacity \<and> \<not> taken s j)"
    using exists_least_iff [of "\<lambda>k. k < capacity \<and> \<not> taken s k"] by blast
  then have low: "j < k \<Longrightarrow> taken s j" for j using order.strict_trans by blast
  from alloc_lowest [OF assms _ _ low] k(1) show ?thesis using low by blast
qed (use alloc_full [OF assms] in blast)

text \<open>Two allocations in a row never give out the same page.\<close>

lemma allocs_distinct:
  assumes "wf s" and "alloc s = Inr (p, s1)" and "p \<noteq> nullptr" and "alloc s1 = Inr (q, s2)"
  shows "p \<noteq> q"
proof -
  from alloc_total [OF assms(1)] assms(2,3) obtain k where k: "k < capacity" "p = frame k" "wf s1"
    "\<And>j. j < capacity \<Longrightarrow> taken s1 j \<longleftrightarrow> j = k \<or> taken s j" by auto
  from alloc_total [OF k(3)] assms(4) consider "q = nullptr" | l where "l < capacity" "\<not> taken s1 l" "q = frame l" by auto
  then show ?thesis
  proof cases
    case 2
    then have "l \<noteq> k" using k(4) by blast
    then show ?thesis using frame_inj [OF k(1) 2(1)] k(2) 2(3) by auto
  qed (use assms(3) in simp)
qed

end

section \<open>Both allocators are pools\<close>

text \<open>The common part: the first page that is free according to the bitmap.\<close>

lemma pool_walk_lowest:
  assumes ok: "pool_ok p n s" and k: "k < 8 * n" and free: "\<not> pool_bit (mem s) p k"
    and low: "\<And>j. j < k \<Longrightarrow> pool_bit (mem s) p j"
  obtains s' where "pool_walk walk_fuel p start 0 s = Inr (Some (start + of_nat k * page_size), s')" and "pool_ok p n s'"
    and "\<And>j. j < 8 * n \<Longrightarrow> pool_bit (mem s') p j \<longleftrightarrow> j = k \<or> pool_bit (mem s) p j"
    and "\<exists>v. s' = s\<lparr>mem := (mem s)(p + of_nat (k div 8) := v)\<rparr>"
proof -
  define j where "j = k div 8"
  let ?b = "mem s (p + of_nat j)"
  have j: "j < n" using k by (simp add: j_def)
  have n: "n < 4294967296" using ok by (rule pool_okE)
  have full: "mem s (p + of_nat l) = 255" if "l < j" for l
    unfolding full_byte_iff
  proof (intro allI impI)
    fix i :: nat
    assume "i < 8"
    then have "8 * l + i < k" "(8 * l + i) div 8 = l" "(8 * l + i) mod 8 = i" using that by (simp_all add: j_def)
    then show "bit (mem s (p + of_nat l)) i" using low [of "8 * l + i"] by (simp add: pool_bit_def)
  qed
  have clear: "\<not> bit ?b (k mod 8)" using free by (simp add: pool_bit_def j_def)
  then have "?b \<noteq> 255" using full_byte_iff [of ?b] by auto
  then obtain b where b: "b < 8" "get_free_bit ?b = of_nat b" "\<not> bit ?b b" "\<And>l. l < b \<Longrightarrow> bit ?b l"
    by (rule get_free_bit_free) blast
  have "\<not> k mod 8 < b" using b(4) clear by blast
  moreover have "\<not> b < k mod 8"
  proof
    assume "b < k mod 8"
    moreover have "k = 8 * j + k mod 8" by (simp add: j_def)
    ultimately have "8 * j + b < k" "(8 * j + b) div 8 = j" "(8 * j + b) mod 8 = b" using b(1) by simp_all
    then show False using low [of "8 * j + b"] b(3) by (simp add: pool_bit_def)
  qed
  ultimately have kb: "k = 8 * j + b" using mult_div_mod_eq [of 8 k] unfolding j_def by simp
  have ub: "unat (of_nat b :: u_dword) = b" using b(1) by (intro unat_of_nat32) simp
  have eq: "(of_nat j * 8 + of_nat b :: u_dword) = of_nat k" by (simp add: kb)
  define s' where "s' = s\<lparr>mem := (mem s)(p + of_nat j := ?b OR push_bit b 1)\<rparr>"
  have "pool_walk walk_fuel p start (of_nat 0) s = Inr (Some (start + of_nat k * page_size), s')"
    unfolding s'_def using pool_walk_found [OF ok j, of 0 walk_fuel start] full \<open>?b \<noteq> 255\<close> j n
    by (simp only: b(2) ub eq) (simp add: walk_fuel_def)
  then have w: "pool_walk walk_fuel p start 0 s = Inr (Some (start + of_nat k * page_size), s')" by simp
  show thesis
  proof (rule that [OF w])
    show "pool_ok p n s'" unfolding s'_def by (rule pool_write [OF ok j])
    show "pool_bit (mem s') p i \<longleftrightarrow> i = k \<or> pool_bit (mem s) p i" if "i < 8 * n" for i
    proof -
      have "mem s' = (mem s)(p + of_nat j := ?b OR push_bit b 1)" by (simp add: s'_def)
      then show ?thesis using pool_bit_set [OF ok j b(1) that] by (simp only: kb)
    qed
    show "\<exists>v. s' = s\<lparr>mem := (mem s)(p + of_nat (k div 8) := v)\<rparr>" unfolding s'_def j_def by blast
  qed
qed

lemma pool_walk_exhausted:
  assumes ok: "pool_ok p n s" and taken: "\<And>j. j < 8 * n \<Longrightarrow> pool_bit (mem s) p j"
  shows "pool_walk walk_fuel p start 0 s = Inr (None, s)"
proof -
  have full: "mem s (p + of_nat l) = 255" if "l < n" for l
    unfolding full_byte_iff
  proof (intro allI impI)
    fix i :: nat
    assume "i < 8"
    then have "8 * l + i < 8 * n" "(8 * l + i) div 8 = l" "(8 * l + i) mod 8 = i" using that by simp_all
    then show "bit (mem s (p + of_nat l)) i" using taken [of "8 * l + i"] by (simp add: pool_bit_def)
  qed
  have "n < 4294967296" using ok by (rule pool_okE)
  then have "n < walk_fuel" by (simp add: walk_fuel_def)
  then show ?thesis using pool_walk_full [OF ok full, of 0 walk_fuel start] by simp
qed

text \<open>The pools as \<^verbatim>\<open>initialise_paging\<close> makes them: 61440 user frames and 3584 page tables.\<close>

abbreviation user_frames :: nat where "user_frames \<equiv> 61440"
abbreviation table_frames :: nat where "table_frames \<equiv> 3584"

definition user_frame :: "nat \<Rightarrow> addr" where
  "user_frame k = user_space_start + of_nat k * page_size"

definition table_frame :: "nat \<Rightarrow> addr" where
  "table_frame k = paging_pool_start + of_nat k * page_size"

lemma unat_page_offset: "k < 1048576 \<Longrightarrow> unat (of_nat k * page_size) = 4096 * k"
  by (simp add: page_size_def unat_word_ariths unat_of_nat32)

lemma unat_user_frame: "k < user_frames \<Longrightarrow> unat (user_frame k) = 0x1000000 + 4096 * k"
  unfolding user_frame_def user_space_start_def
  by (subst unat_plus_small) (simp_all add: unat_page_offset)

lemma unat_table_frame: "k < table_frames \<Longrightarrow> unat (table_frame k) = 0x100000 + 4096 * k"
  unfolding table_frame_def paging_pool_start_def
  by (subst unat_plus_small) (simp_all add: unat_page_offset)

lemma user_frame_inj: "j < user_frames \<Longrightarrow> k < user_frames \<Longrightarrow> user_frame j = user_frame k \<Longrightarrow> j = k"
  by (drule arg_cong [where f = unat]) (simp add: unat_user_frame)

lemma table_frame_inj: "j < table_frames \<Longrightarrow> k < table_frames \<Longrightarrow> table_frame j = table_frame k \<Longrightarrow> j = k"
  by (drule arg_cong [where f = unat]) (simp add: unat_table_frame)

lemma frames_not_null: "k < user_frames \<Longrightarrow> user_frame k \<noteq> nullptr" "k < table_frames \<Longrightarrow> table_frame k \<noteq> nullptr"
  using unat_user_frame [of k] unat_table_frame [of k] by auto

abbreviation user_pool_ok :: "'a kernel_state_scheme \<Rightarrow> bool" where
  "user_pool_ok s \<equiv> pool_ok (user_space_pool s) 7680 s"

abbreviation table_pool_ok :: "'a kernel_state_scheme \<Rightarrow> bool" where
  "table_pool_ok s \<equiv> pool_ok (paging_pool s) 448 s"

interpretation user_pool: frame_pool user_pool_ok "\<lambda>s. pool_bit (mem s) (user_space_pool s)" user_frames user_frame allocate_frame
proof (unfold_locales, goal_cases)
  case (1 s k)
  have "k < 8 * 7680" using 1(2) by simp
  from pool_walk_lowest [OF 1(1) this 1(3,4), of user_space_start] obtain s' where
    w: "pool_walk walk_fuel (user_space_pool s) user_space_start 0 s = Inr (Some (user_space_start + of_nat k * page_size), s')"
      "pool_ok (user_space_pool s) 7680 s'"
      "\<And>j. j < 8 * 7680 \<Longrightarrow> pool_bit (mem s') (user_space_pool s) j \<longleftrightarrow> j = k \<or> pool_bit (mem s) (user_space_pool s) j"
      "\<exists>v. s' = s\<lparr>mem := (mem s)(user_space_pool s + of_nat (k div 8) := v)\<rparr>" by blast
  moreover from w(4) have "user_space_pool s' = user_space_pool s" by auto
  ultimately show ?case by (auto simp: allocate_frame_def user_frame_def)
next
  case (2 s)
  have "pool_bit (mem s) (user_space_pool s) j" if "j < 8 * 7680" for j using 2(2) [of j] that by simp
  then have "pool_walk walk_fuel (user_space_pool s) user_space_start 0 s = Inr (None, s)"
    by (rule pool_walk_exhausted [OF 2(1)])
  then show ?case by (simp add: allocate_frame_def)
qed (fact user_frame_inj, fact frames_not_null)

text \<open>Clearing a page table touches no byte of the heap.\<close>

lemma pool_ok_above:
  assumes "pool_ok p n s" and above: "\<And>x. unat x < 0x100000 \<Longrightarrow> m x = mem s x"
  shows "pool_ok p n (s\<lparr>mem := m\<rparr>)" and "j < 8 * n \<Longrightarrow> pool_bit m p j \<longleftrightarrow> pool_bit (mem s) p j"
proof -
  from assms(1) obtain bs where bs: "heap_ok s bs" "(p, of_nat n) \<in> set bs"
    and up: "\<And>x. 0x100000 \<le> unat x \<Longrightarrow> held_byte s bs x" by (rule pool_okE) blast
  have "m x = mem s x" if "\<not> held_byte s bs x" for x using that up above by (meson not_less)
  note w = held_write [OF bs(1) this]
  then show "pool_ok p n (s\<lparr>mem := m\<rparr>)" using assms(1) bs up unfolding pool_ok_def by metis
  show "pool_bit m p j \<longleftrightarrow> pool_bit (mem s) p j" if "j < 8 * n"
    using above [OF pool_byte(1) [OF assms(1), of "j div 8"]] that by (simp add: pool_bit_def)
qed

lemma table_clear_above:
  assumes "k < table_frames" and "unat x < 0x100000"
  shows "memory_clear (table_frame k) page_size 0 m x = m x"
proof -
  have "\<not> in_range (table_frame k) 4096 x"
    using assms unat_table_frame [OF assms(1)] by (subst in_range_linear) simp_all
  then show ?thesis by (simp add: memory_clear_apply page_size_def)
qed

interpretation table_pool: frame_pool table_pool_ok "\<lambda>s. pool_bit (mem s) (paging_pool s)" table_frames table_frame allocate_page_folder
proof (unfold_locales, goal_cases)
  case (1 s k)
  have "k < 8 * 448" using 1(2) by simp
  from pool_walk_lowest [OF 1(1) this 1(3,4), of paging_pool_start] obtain s' where
    w: "pool_walk walk_fuel (paging_pool s) paging_pool_start 0 s = Inr (Some (table_frame k), s')"
      "pool_ok (paging_pool s) 448 s'"
      "\<And>j. j < 8 * 448 \<Longrightarrow> pool_bit (mem s') (paging_pool s) j \<longleftrightarrow> j = k \<or> pool_bit (mem s) (paging_pool s) j"
      "\<exists>v. s' = s\<lparr>mem := (mem s)(paging_pool s + of_nat (k div 8) := v)\<rparr>" unfolding table_frame_def by blast
  from w(4) have "paging_pool s' = paging_pool s" by auto
  moreover note pool_ok_above [OF w(2), of "memory_clear (table_frame k) page_size 0 (mem s')", OF table_clear_above [OF 1(2)]]
  ultimately show ?case using w(1,3) by (auto simp: allocate_page_folder_def)
next
  case (2 s)
  have "pool_bit (mem s) (paging_pool s) j" if "j < 8 * 448" for j using 2(2) [of j] that by simp
  then have "pool_walk walk_fuel (paging_pool s) paging_pool_start 0 s = Inr (None, s)"
    by (rule pool_walk_exhausted [OF 2(1)])
  then show ?case by (simp add: allocate_page_folder_def)
qed (fact table_frame_inj, fact frames_not_null)

section \<open>The heap inside the kernel state\<close>

text \<open>The heap sees of a state only the memory and the heap pointer.\<close>

lemma pool_view: "mem s' = mem s \<Longrightarrow> header s' = header s \<Longrightarrow> pool_ok p n s' \<longleftrightarrow> pool_ok p n s"
  unfolding pool_ok_def using heap_view(1,2) [of s' s] by simp

lemma made_paging_pool:
  assumes "made s bs p n (t :: 'a kernel_state_scheme) bs'"
  shows "made (s\<lparr>paging_pool := v\<rparr>) bs p n (t\<lparr>paging_pool := v\<rparr>) bs'"
proof -
  have "\<exists>m. t\<lparr>paging_pool := v\<rparr> = s\<lparr>paging_pool := v, mem := m\<rparr>" 
  proof -
    from madeD(5) [OF assms] obtain m where "t = s\<lparr>mem := m\<rparr>" by blast
    then show ?thesis by (intro exI [of _ m]) simp
  qed
  moreover have "heap_ok (t\<lparr>paging_pool := v\<rparr>) bs' \<longleftrightarrow> heap_ok t bs'"
    "held_byte (t\<lparr>paging_pool := v\<rparr>) bs' x \<longleftrightarrow> held_byte t bs' x"
    "held_byte (s\<lparr>paging_pool := v\<rparr>) bs x \<longleftrightarrow> held_byte s bs x"
    "heap_area (t\<lparr>paging_pool := v\<rparr>) = heap_area t" "heap_area (s\<lparr>paging_pool := v\<rparr>) = heap_area s" for x
    by (rule heap_view; simp)+
  ultimately show ?thesis using assms by (simp add: made_def)
qed

lemma cleared_block:
  assumes "made s bs p n t bs'"
  defines "t' \<equiv> t\<lparr>mem := memory_clear p n 0 (mem t)\<rparr>"
  shows "made s bs p n t' bs'" and "reserve t' bs' N \<longleftrightarrow> reserve t bs' N"
    and "j < 8 * unat n \<Longrightarrow> \<not> pool_bit (mem t') p j"
proof -
  have out: "memory_clear p n 0 (mem t) x = mem t x" if "\<not> in_range p (unat n) x" for x
    using that by (simp add: memory_clear_apply)
  show "made s bs p n t' bs'" "reserve t' bs' N \<longleftrightarrow> reserve t bs' N"
    unfolding t'_def by (rule made_write [OF assms(1) out]; assumption)+
  show "\<not> pool_bit (mem t') p j" if "j < 8 * unat n"
  proof -
    have "j div 8 < unat n" using that by simp
    then have "in_range p (unat n) (p + of_nat (j div 8))"
      using unat_lt32 [of n] by (subst in_range_offset) auto
    then show ?thesis by (simp add: t'_def pool_bit_def memory_clear_apply)
  qed
qed

lemma made_below:
  assumes "made s bs p n s' bs'" and "0 < unat n" and up: "\<And>x. 0x100000 \<le> unat x \<Longrightarrow> held_byte s bs x"
  shows "unat p + unat n \<le> 0x100000"
proof -
  let ?x = "p + of_nat (unat n - 1)"
  have "in_range p (unat n) ?x" using assms(2) unat_lt32 [of n] by (subst in_range_offset) simp_all
  then have "unat ?x < 0x100000" using madeD(7) [OF assms(1)] up not_less by blast
  moreover have "unat ?x = unat p + (unat n - 1)"
    using madeD(4) [OF assms(1)] unat_lt32 [of n] by (subst unat_plus_small) (simp_all add: unat_of_nat32)
  ultimately show ?thesis using assms(2) by simp
qed

lemma create_pools_made:
  fixes s :: "'a kernel_state_scheme"
  assumes inv: "heap_ok s bs" and N: "reserve s bs N" and le: "8152 \<le> N" and e: "unat (heap_end s) \<le> 0x100000"
  obtains p q m bs' where "create_pools s = Inr ((), s\<lparr>paging_pool := p, user_space_pool := q, mem := m\<rparr>)"
    and "grown s bs {#(p, 448), (q, 7680)#} (s\<lparr>mem := m\<rparr>) bs'" and "reserve (s\<lparr>mem := m\<rparr>) bs' (N - 8152)"
    and "pool_ok p 448 (s\<lparr>mem := m\<rparr>)" and "pool_ok q 7680 (s\<lparr>mem := m\<rparr>)"
    and "\<And>j. j < 3584 \<Longrightarrow> \<not> pool_bit m p j" and "\<And>j. j < 61440 \<Longrightarrow> \<not> pool_bit m q j"
proof -
  have szs: "(paging_pool_end - paging_pool_start) div page_size div 8 = 448"
    "(user_space_end - user_space_start) div page_size div 8 = 7680"
    by (simp_all add: page_constants)
  from made_alloc [OF inv N, of 448] le obtain p s1 bs1 where a: "ralloc 448 s = Inr (p, s1)" "made s bs p 448 s1 bs1"
    "reserve s1 bs1 (N - 460)" by auto
  let ?s1 = "s1\<lparr>mem := memory_clear p 448 0 (mem s1)\<rparr>" and ?k = "\<lambda>t :: 'a kernel_state_scheme. t\<lparr>paging_pool := p\<rparr>"
  note c1 = cleared_block [OF a(2)]
  have v1: "heap_ok (?k ?s1) bs1" "reserve (?k ?s1) bs1 (N - 460)"
    using madeD(1) [OF c1(1)] c1(2) a(3) heap_view [of "?k ?s1" ?s1] by simp_all
  have "unat (7680 :: u_dword) + 12 \<le> N - 460" using le by simp
  from made_alloc [OF v1 this] obtain q s2 bs2 where b: "ralloc 7680 (?k ?s1) = Inr (q, s2)"
    "made (?k ?s1) bs1 q 7680 s2 bs2" "reserve s2 bs2 (N - 460 - (unat (7680 :: u_dword) + 12))" .
  define s3 where "s3 = s2\<lparr>mem := memory_clear q 7680 0 (mem s2)\<rparr>"
  note c2 = cleared_block [OF b(2), folded s3_def]
  have two: "grown (?k s) bs {#(p, 448), (q, 7680)#} s3 bs2"
    by (rule grown_two [OF made_paging_pool [OF c1(1)] c2(1)])
  from grownD(3) [OF two] obtain m where m: "s3 = s\<lparr>paging_pool := p, mem := m\<rparr>" by auto
  have eq: "create_pools s = Inr ((), s\<lparr>paging_pool := p, user_space_pool := q, mem := m\<rparr>)"
  proof -
    have "s3\<lparr>user_space_pool := q\<rparr> = s\<lparr>paging_pool := p, user_space_pool := q, mem := m\<rparr>" unfolding m by simp
    moreover have "s2\<lparr>user_space_pool := q, mem := memory_clear q 7680 0 (mem s2)\<rparr> = s3\<lparr>user_space_pool := q\<rparr>"
      by (simp add: s3_def)
    moreover have "s1\<lparr>paging_pool := p, mem := memory_clear p 448 0 (mem s1)\<rparr> = ?k ?s1" by simp
    then have "ralloc 7680 (s1\<lparr>paging_pool := p, mem := memory_clear p 448 0 (mem s1)\<rparr>) = Inr (q, s2)"
      using b(1) by (rule ssubst)
    ultimately show ?thesis using a(1) by (simp add: create_pools_def szs)
  qed
  note v = heap_view [of "s\<lparr>mem := m\<rparr>" s3, unfolded m, simplified]
  have g: "grown s bs {#(p, 448), (q, 7680)#} (s\<lparr>mem := m\<rparr>) bs2"
    using two heap_view(2,5) [of "?k s" s] unfolding grown_def m by (auto simp: v)
  have up: "held_byte s bs x" if "0x100000 \<le> unat x" for x
    using that e usable_end_le [of s] by (simp add: held_byte_def)
  have up1: "held_byte (?k ?s1) bs1 x" if "0x100000 \<le> unat x" for x
    using up [OF that] madeD(8) [OF c1(1), of x] heap_view(2) [of "?k ?s1" ?s1 bs1 x] by simp
  have below: "unat p + 448 \<le> 0x100000" "unat q + 7680 \<le> 0x100000"
    using made_below [OF a(2) _ up] made_below [OF b(2) _ up1] by simp_all
  have ok: "pool_ok r k (s\<lparr>mem := m\<rparr>)" if "unat r + k \<le> 0x100000" "(r, of_nat k :: u_dword) \<in># {#(p, 448), (q, 7680)#}" for r k
    unfolding pool_ok_def using that grownD(1,2,6) [OF g] up
    by (metis set_mset_mset union_iff)
  have bits: "\<not> pool_bit m p j" if "j < 3584" for j
  proof -
    have "mem s3 (p + of_nat (j div 8)) = mem ?s1 (p + of_nat (j div 8))"
    proof -
      have "in_range p 448 (p + of_nat (j div 8))" using that by (subst in_range_offset) simp_all
      then have "held_byte (?k ?s1) bs1 (p + of_nat (j div 8))"
        using madeD(8) [OF c1(1)] heap_view(2) [of "?k ?s1" ?s1 bs1] by simp
      from madeD(6) [OF c2(1) this] show ?thesis by simp
    qed
    then show ?thesis using c1(3) [of j] that by (simp add: m pool_bit_def)
  qed
  show thesis
  proof (rule that [OF eq g])
    show "reserve (s\<lparr>mem := m\<rparr>) bs2 (N - 8152)" using b(3) c2(2) by (simp add: v [symmetric] m)
    show "\<not> pool_bit m q j" if "j < 61440" for j using c2(3) [of j] that by (simp add: m)
  qed (use ok below bits in simp_all)
qed

section \<open>Properties of the pools\<close>

text \<open>The pools on the kernel's fresh heap.\<close>

definition demo_kernel :: kernel_state where
  "demo_kernel = initialize_heap 0x50000 0x80000 demo_tasks"

lemma demo_kernel_heap: "heap_ok demo_kernel []" "heap_end demo_kernel = 0xd0000" "reserve demo_kernel [] 0x60000"
proof -
  show "heap_ok demo_kernel []" unfolding demo_kernel_def by (rule initialize_heap_ok) (simp_all add: VIDEO_MEMORY_def)
  show "heap_end demo_kernel = 0xd0000" by (simp add: demo_kernel_def initialize_heap_fields)
  show "reserve demo_kernel [] 0x60000" by (simp add: reserve_def usable_end_def demo_kernel_def initialize_heap_fields VIDEO_MEMORY_def)
qed

lemma demo_pools:
  obtains s where "create_pools demo_kernel = Inr ((), s)" and "pool_ok (user_space_pool s) 7680 s"
    and "pool_ok (paging_pool s) 448 s" and "\<And>j. j < 61440 \<Longrightarrow> \<not> pool_bit (mem s) (user_space_pool s) j"
    and "\<And>j. j < 3584 \<Longrightarrow> \<not> pool_bit (mem s) (paging_pool s) j"
proof -
  have e: "unat (heap_end demo_kernel) \<le> 0x100000" by (simp add: demo_kernel_heap)
  have le: "8152 \<le> (0x60000 :: nat)" by simp
  obtain p q m where
    c: "create_pools demo_kernel = Inr ((), demo_kernel\<lparr>paging_pool := p, user_space_pool := q, mem := m\<rparr>)"
      "pool_ok p 448 (demo_kernel\<lparr>mem := m\<rparr>)" "pool_ok q 7680 (demo_kernel\<lparr>mem := m\<rparr>)"
      "\<And>j. j < 3584 \<Longrightarrow> \<not> pool_bit m p j" "\<And>j. j < 61440 \<Longrightarrow> \<not> pool_bit m q j"
    by (rule create_pools_made [OF demo_kernel_heap(1,3) le e]) blast
  show thesis
    by (rule that [OF c(1)])
      (use c pool_view [of "demo_kernel\<lparr>paging_pool := p, user_space_pool := q, mem := m\<rparr>" "demo_kernel\<lparr>mem := m\<rparr>"] in simp_all)
qed

text \<open>
  (C17) Frame allocation: on a pool in good order \<^verbatim>\<open>allocate_frame\<close> returns. If some user frame is free it
  takes the lowest one, returns its address and marks exactly this frame as taken; if none is
  free it returns the null pointer and changes nothing.
\<close>

theorem allocate_frame_lowest:
  fixes s :: "'a kernel_state_scheme"
  assumes "pool_ok (user_space_pool s) 7680 s"
  shows "(\<exists>k s'. k < 61440 \<and> \<not> pool_bit (mem s) (user_space_pool s) k \<and> (\<forall>j < k. pool_bit (mem s) (user_space_pool s) j) \<and>
      allocate_frame s = Inr (0x1000000 + of_nat k * 0x1000, s') \<and> pool_ok (user_space_pool s') 7680 s' \<and>
      (\<forall>j < 61440. pool_bit (mem s') (user_space_pool s') j \<longleftrightarrow> j = k \<or> pool_bit (mem s) (user_space_pool s) j)) \<or>
    ((\<forall>j < 61440. pool_bit (mem s) (user_space_pool s) j) \<and> allocate_frame s = Inr (nullptr, s))"
  using user_pool.alloc_total [OF assms] by (simp add: user_frame_def page_constants)

theorem allocate_frame_lowest_witness:
  "\<exists>(s :: kernel_state) s'. create_pools demo_kernel = Inr ((), s) \<and> allocate_frame s = Inr (0x1000000, s')"
proof -
  obtain s where s: "create_pools demo_kernel = Inr ((), s)" "pool_ok (user_space_pool s) 7680 s"
    "\<And>j. j < 61440 \<Longrightarrow> \<not> pool_bit (mem s) (user_space_pool s) j" by (rule demo_pools) blast
  from allocate_frame_lowest [OF s(2)] s(3) [of 0] obtain k s' where "k < 61440"
    "\<forall>j < k. pool_bit (mem s) (user_space_pool s) j" "allocate_frame s = Inr (0x1000000 + of_nat k * 0x1000, s')" by auto
  moreover from this s(3) [of 0] have "k = 0" by (cases k) auto
  ultimately show ?thesis using s(1) by auto
qed

text \<open>
  (C18) Two allocations never give out the same page table: whatever \<^verbatim>\<open>allocate_page_folder\<close> returns first,
  it returns something else the next time.
\<close>

theorem page_folders_distinct:
  fixes s :: "'a kernel_state_scheme"
  assumes "pool_ok (paging_pool s) 448 s" and "allocate_page_folder s = Inr (p, s1)" and "p \<noteq> nullptr"
    and "allocate_page_folder s1 = Inr (q, s2)"
  shows "p \<noteq> q"
  by (rule table_pool.allocs_distinct [OF assms])

theorem page_folders_distinct_witness:
  "\<exists>(s :: kernel_state) p q s1 s2. allocate_page_folder s = Inr (p, s1) \<and> allocate_page_folder s1 = Inr (q, s2) \<and> p \<noteq> q"
proof -
  obtain s :: kernel_state where s: "pool_ok (paging_pool s) 448 s" "\<And>j. j < 3584 \<Longrightarrow> \<not> pool_bit (mem s) (paging_pool s) j"
    by (rule demo_pools) blast
  from table_pool.alloc_total [OF s(1)] s(2) [of 0] obtain k s1 where a: "k < 3584"
    "allocate_page_folder s = Inr (table_frame k, s1)" "pool_ok (paging_pool s1) 448 s1" by auto
  from table_pool.alloc_total [OF a(3)] obtain q s2 where "allocate_page_folder s1 = Inr (q, s2)" by blast
  with page_folders_distinct [OF s(1) a(2) frames_not_null(2) [OF a(1)]] a(2) show ?thesis by blast
qed

text \<open>
  (C19) Releasing a frame does not release it: \<^verbatim>\<open>free_frame\<close> takes the distance in bytes for the number of the
  frame, so for every frame but the first its own bit stays as it was (the bit of the
  frame 4096 times as far is cleared, beyond the pool for frame 15 and all later ones).
\<close>

theorem free_frame_misses:
  fixes s :: "'a kernel_state_scheme"
  assumes "pool_ok (user_space_pool s) 7680 s" and "0 < k" and "k < 61440"
  defines "s' \<equiv> free_frame (0x1000000 + of_nat k * 0x1000) s"
  shows "pool_bit (mem s') (user_space_pool s') k \<longleftrightarrow> pool_bit (mem s) (user_space_pool s) k"
proof -
  let ?p = "user_space_pool s" and ?i = "of_nat k * 0x1000 :: u_dword"
  have i: "unat ?i = 4096 * k" using assms(3) by (simp add: unat_word_ariths unat_of_nat32)
  have b: "unat (?p + of_nat (k div 8)) = unat ?p + k div 8" "unat (?p + of_nat (k div 8)) < 0x100000"
    using assms(3) pool_byte [OF assms(1), of "k div 8"] by simp_all
  have d: "unat (?i div 8) = 512 * k" unfolding unat_div i by simp
  have "unat ?p < 0x100000" using b by linarith
  then have "unat (?p + ?i div 8) = unat ?p + 512 * k"
    using assms(3) by (subst unat_plus_small) (simp_all add: d)
  then have "?p + of_nat (k div 8) \<noteq> ?p + ?i div 8"
    using b(1) assms(2) by (metis add_left_cancel div_le_dividend less_irrefl_nat mult_less_mono1 nat_mult_1 order_le_less_trans numeral_One numeral_less_iff semiring_norm(76))
  then show ?thesis
    by (simp add: s'_def free_frame_def clear_pool_bit_def user_space_start_def pool_bit_def)
qed

theorem free_frame_misses_witness:
  "\<exists>(s :: kernel_state) s'. allocate_frame s = Inr (0x1001000, s') \<and>
    pool_bit (mem (free_frame 0x1001000 s')) (user_space_pool (free_frame 0x1001000 s')) 1"
proof -
  obtain s :: kernel_state where s: "pool_ok (user_space_pool s) 7680 s"
    "\<And>j. j < 61440 \<Longrightarrow> \<not> pool_bit (mem s) (user_space_pool s) j" by (rule demo_pools) blast
  from user_pool.alloc_lowest [OF s(1), of 0] s(2) [of 0] obtain s1 :: kernel_state where a: "pool_ok (user_space_pool s1) 7680 s1"
    "\<forall>j < 61440. pool_bit (mem s1) (user_space_pool s1) j \<longleftrightarrow> j = 0 \<or> pool_bit (mem s) (user_space_pool s) j" by auto
  from user_pool.alloc_lowest [OF a(1), of 1] a(2) s(2) [of 1] obtain s2 where b: "allocate_frame s1 = Inr (user_frame 1, s2)"
    "pool_ok (user_space_pool s2) 7680 s2" "pool_bit (mem s2) (user_space_pool s2) 1" by auto
  from free_frame_misses [OF b(2), of 1] b show ?thesis
    by (intro exI [of _ s1] exI [of _ s2]) (simp add: user_frame_def page_constants)
qed

end
