(* ===== verification/KernelMap.thy ===== *)
theory KernelMap
  imports Pools
begin

text \<open>
  The identity map \<^verbatim>\<open>initialise_paging\<close> builds, read through the processor's table walk: a reference
  definition of address translation, the invariant of the mapping loop, and the theorem that every
  address below 16 megabytes translates to itself.
\<close>

section \<open>Entries\<close>

lemma create_page_entry_bits:
  assumes "n < 32"
  shows "bit (create_page_entry s a k w) n \<longleftrightarrow>
    (if 12 \<le> n then bit (a div page_size) (n - 12)
     else if n = 0 then True else if n = 1 then w else if n = 2 then \<not> k
     else bit (entry_junk s a k w) n)"
  using assms
  by (auto simp: create_page_entry_def Let_def set_frame_def bit_or_iff bit_push_bit_iff bit_take_bit_iff
      bit_set_bit_iff bit_unset_bit_iff possible_bit_def)

lemma page_frame_entry: "unat a mod 4096 = 0 \<Longrightarrow> get_contents_as_page (create_page_entry s a k w) = a"
proof -
  assume al: "unat a mod 4096 = 0"
  have "page_frame (create_page_entry s a k w) = a div page_size"
  proof (rule bit_word_eqI)
    fix n
    assume n: "n < LENGTH(32)"
    have "a div page_size = drop_bit 12 a" by (simp add: page_size_def drop_bit_eq_div)
    moreover have "\<not> bit a (12 + n)" if "20 \<le> n"
      using that impossible_bit [of "12 + n" a] by (simp add: possible_bit_def)
    ultimately show "bit (page_frame (create_page_entry s a k w)) n \<longleftrightarrow> bit (a div page_size) n"
      using n create_page_entry_bits [of "12 + n" s a k w] impossible_bit [of "12 + n" "create_page_entry s a k w"]
      by (cases "n < 20") (auto simp: page_frame_def bit_drop_bit_eq possible_bit_def)
  qed
  moreover have "a div page_size * page_size = a"
  proof (rule word_eq_unatI)
    have "unat a div 4096 * 4096 = unat a" using al by (metis dvd_div_mult_self mod_0_imp_dvd)
    then show "unat (a div page_size * page_size) = unat a"
      using unat_lt32 [of a] by (simp add: page_size_def unat_word_ariths unat_div)
  qed
  ultimately show ?thesis by (simp add: get_contents_as_page_def)
qed

section \<open>The processor's table walk\<close>

text \<open>
  The ten upper bits of an address select a directory entry, the next ten a table entry; both must
  be present. The result is the physical address and whether user code may use the page and write to
  it, which both entries have to allow.
\<close>

definition table_base :: "page_pointer \<Rightarrow> addr" where
  "table_base p = push_bit 12 (drop_bit 12 p)"

definition translate :: "memory \<Rightarrow> addr \<Rightarrow> addr \<Rightarrow> (addr \<times> bool \<times> bool) option" where
  "translate m dir va =
     (let pde = load32 m (dir + 4 * drop_bit 22 va);
          pte = load32 m (table_base pde + 4 * take_bit 10 (drop_bit 12 va))
      in if bit pde 0 \<and> bit pte 0
         then Some (table_base pte + take_bit 12 va, bit pde 2 \<and> bit pte 2, bit pde 1 \<and> bit pte 1)
         else None)"

lemma table_base_contents: "table_base p = get_contents_as_page p"
  by (simp add: table_base_def get_contents_as_page_def page_frame_def page_size_def push_bit_eq_mult)

section \<open>Allocating a page table\<close>

lemma allocate_page_folder_eq:
  fixes s :: "'a kernel_state_scheme"
  assumes ok: "pool_ok (paging_pool s) 448 s" and k: "k < table_frames"
    and bits: "\<And>j. j < table_frames \<Longrightarrow> pool_bit (mem s) (paging_pool s) j \<longleftrightarrow> j < k"
  obtains m where "allocate_page_folder s = Inr (table_frame k, s\<lparr>mem := m\<rparr>)" and "pool_ok (paging_pool s) 448 (s\<lparr>mem := m\<rparr>)"
    and "\<And>j. j < table_frames \<Longrightarrow> pool_bit m (paging_pool s) j \<longleftrightarrow> j \<le> k"
    and "\<And>x. in_range (table_frame k) 4096 x \<Longrightarrow> m x = 0"
    and "\<And>x. \<not> in_range (table_frame k) 4096 x \<Longrightarrow> \<not> in_range (paging_pool s) 448 x \<Longrightarrow> m x = mem s x"
proof -
  have "k < 8 * 448" "\<not> pool_bit (mem s) (paging_pool s) k" using k bits [OF k] by simp_all
  moreover have "pool_bit (mem s) (paging_pool s) j" if "j < k" for j using that bits [of j] k by simp
  ultimately obtain s1 where
    w: "pool_walk walk_fuel (paging_pool s) paging_pool_start 0 s = Inr (Some (table_frame k), s1)" "pool_ok (paging_pool s) 448 s1"
      "\<And>j. j < 8 * 448 \<Longrightarrow> pool_bit (mem s1) (paging_pool s) j \<longleftrightarrow> j = k \<or> pool_bit (mem s) (paging_pool s) j"
      and "\<exists>v. s1 = s\<lparr>mem := (mem s)(paging_pool s + of_nat (k div 8) := v)\<rparr>"
    unfolding table_frame_def by (rule pool_walk_lowest [OF ok, where start = paging_pool_start]) blast+
  then obtain v where v: "s1 = s\<lparr>mem := (mem s)(paging_pool s + of_nat (k div 8) := v)\<rparr>" by blast
  define m where "m = memory_clear (table_frame k) page_size 0 (mem s1)"
  have keep: "m x = mem s1 x" if "unat x < 0x100000" for x
    unfolding m_def using k that by (rule table_clear_above)
  note ok' = pool_ok_above [OF w(2) keep]
  have m: "s1\<lparr>mem := m\<rparr> = s\<lparr>mem := m\<rparr>" unfolding v by simp
  have at: "m x = (if in_range (table_frame k) 4096 x then 0 else mem s1 x)" for x
    by (simp add: m_def memory_clear_apply page_size_def)
  have "in_range (paging_pool s) 448 (paging_pool s + of_nat (k div 8))" using k by (subst in_range_offset) simp_all
  then have out: "mem s1 x = mem s x" if "\<not> in_range (paging_pool s) 448 x" for x
    using that unfolding v by (cases "x = paging_pool s + of_nat (k div 8)") auto
  show thesis
  proof (rule that)
    show "allocate_page_folder s = Inr (table_frame k, s\<lparr>mem := m\<rparr>)"
      using w(1) by (simp add: allocate_page_folder_def m m_def [symmetric])
    show "pool_ok (paging_pool s) 448 (s\<lparr>mem := m\<rparr>)" using ok'(1) unfolding m .
    show "pool_bit m (paging_pool s) j \<longleftrightarrow> j \<le> k" if "j < table_frames" for j
      using ok'(2) [of j] w(3) [of j] bits [OF that] that by auto
  qed (use at out in auto)
qed

section \<open>The mapping loop\<close>

definition dir_address :: "nat \<Rightarrow> addr" where "dir_address i = table_frame 0 + 4 * of_nat i"
definition pte_address :: "nat \<Rightarrow> addr" where "pte_address j = table_frame 1 + 4 * of_nat j"

lemma unat_dir_address: "i < 1024 \<Longrightarrow> unat (dir_address i) = 0x100000 + 4 * i"
  unfolding dir_address_def
  by (subst unat_plus_small) (simp_all add: unat_table_frame unat_word_ariths unat_of_nat32)

lemma unat_pte_address: "j < 4096 \<Longrightarrow> unat (pte_address j) = 0x101000 + 4 * j"
  unfolding pte_address_def
  by (subst unat_plus_small) (simp_all add: unat_table_frame unat_word_ariths unat_of_nat32)

definition map_pde :: "'a kernel_state_scheme \<Rightarrow> nat \<Rightarrow> page_pointer" where
  "map_pde s i = create_page_entry s (table_frame (Suc i)) True True"

definition map_pte :: "'a kernel_state_scheme \<Rightarrow> nat \<Rightarrow> page_pointer" where
  "map_pte s j = (let a = of_nat j * page_size in create_page_entry s a (\<not> in_stack a) (in_stack a))"

definition map_inv :: "'a kernel_state_scheme \<Rightarrow> nat \<Rightarrow> nat \<Rightarrow> 'a kernel_state_scheme \<Rightarrow> bool" where
  "map_inv s0 nt k s \<longleftrightarrow> (\<exists>m. s = s0\<lparr>mem := m\<rparr>) \<and> pool_ok (paging_pool s0) 448 s \<and>
     (\<forall>j < table_frames. pool_bit (mem s) (paging_pool s0) j \<longleftrightarrow> j \<le> nt) \<and>
     (\<forall>i < 1024. load32 (mem s) (dir_address i) = (if i < nt then map_pde s0 i else 0)) \<and>
     (\<forall>j < k. load32 (mem s) (pte_address j) = map_pte s0 j) \<and> k \<le> 1024 * nt \<and> nt \<le> 4 \<and>
     (\<forall>x. \<not> in_range 0x100000 0x5000 x \<longrightarrow> \<not> in_range (paging_pool s0) 448 x \<longrightarrow> mem s x = mem s0 x)"

lemma map_invD:
  assumes "map_inv s0 nt k s"
  shows "\<exists>m. s = s0\<lparr>mem := m\<rparr>" and "pool_ok (paging_pool s0) 448 s"
    and "j < table_frames \<Longrightarrow> pool_bit (mem s) (paging_pool s0) j \<longleftrightarrow> j \<le> nt"
    and "i < 1024 \<Longrightarrow> load32 (mem s) (dir_address i) = (if i < nt then map_pde s0 i else 0)"
    and "j < k \<Longrightarrow> load32 (mem s) (pte_address j) = map_pte s0 j" and "k \<le> 1024 * nt" and "nt \<le> 4"
    and "\<not> in_range 0x100000 0x5000 x \<Longrightarrow> \<not> in_range (paging_pool s0) 448 x \<Longrightarrow> mem s x = mem s0 x"
  using assms unfolding map_inv_def by blast+

lemma load32_store32_apart:
  assumes "unat a + 4 \<le> 4294967296" and "unat b + 4 \<le> 4294967296" and "unat a + 4 \<le> unat b \<or> unat b + 4 \<le> unat a"
  shows "load32 (store32 m a v) b = load32 m b"
  using assms by (intro load32_store32_other disjoint_ranges_linear)

lemma map_inv_pte:
  assumes inv: "map_inv s0 nt k s" and k: "k < 1024 * nt"
  shows "map_inv s0 nt (Suc k) (s\<lparr>mem := store32 (mem s) (pte_address k) (map_pte s0 k)\<rparr>)"
proof -
  let ?m = "store32 (mem s) (pte_address k) (map_pte s0 k)"
  note i = map_invD [OF inv]
  have k4: "k < 4096" using k i(7) by simp
  note a = unat_pte_address [OF k4]
  have out: "?m x = mem s x" if "unat x < 0x101000 \<or> 0x105000 \<le> unat x" for x
    using that a k4 by (intro store32_outside) (subst in_range_linear, auto)
  note ok = pool_ok_above [OF i(2), of ?m, OF out]
  have "load32 ?m (dir_address n) = load32 (mem s) (dir_address n)" if "n < 1024" for n
    using a that k4 by (intro load32_store32_apart) (auto simp: unat_dir_address)
  moreover have "load32 ?m (pte_address j) = map_pte s0 j" if "j < Suc k" for j
  proof (cases "j = k")
    case False
    then have "load32 ?m (pte_address j) = load32 (mem s) (pte_address j)"
      using a that k4 unat_pte_address [of j] by (intro load32_store32_apart) auto
    then show ?thesis using i(5) [of j] that False by simp
  qed simp
  moreover have "?m x = mem s0 x" if "\<not> in_range 0x100000 0x5000 x" "\<not> in_range (paging_pool s0) 448 x" for x
    using out [of x] that i(8) [OF that] by (auto simp: in_range_linear)
  moreover have "\<exists>m. s\<lparr>mem := ?m\<rparr> = s0\<lparr>mem := m\<rparr>" using i(1) by auto
  ultimately show ?thesis
    unfolding map_inv_def using ok i(3,4,6,7) k by (simp add: Suc_le_eq)
qed

lemma table_page_apart:
  assumes "n < 5" and "in_range (table_frame n) 4096 x"
  shows "0x100000 + 4096 * n \<le> unat x" and "unat x < 0x101000 + 4096 * n"
  using assms unat_table_frame [of n] by (simp_all add: in_range_linear)

lemma load32_untouched:
  assumes "\<And>x. unat a \<le> unat x \<Longrightarrow> unat x < unat a + 4 \<Longrightarrow> m' x = m x" and "unat a + 4 \<le> 4294967296"
  shows "load32 m' a = load32 m a"
  using assms by (intro load32_cong) (simp add: in_range_linear)

lemma map_inv_table:
  fixes s :: "'a kernel_state_scheme"
  assumes inv: "map_inv s0 nt k s" and k: "k = 1024 * nt" and nt: "nt < 4" and dir: "kernel_directory s0 = table_frame 0"
  obtains s' where "and_then (allocate_page_folder s) (\<lambda>folder s.
      Inr ((), set_entry (table_frame 0) (of_nat nt) (create_page_entry s folder True True) s)) = Inr ((), s')"
    and "map_inv s0 (Suc nt) k s'"
proof -
  note i = map_invD [OF inv]
  from i(1) obtain m0 where s: "s = s0\<lparr>mem := m0\<rparr>" by blast
  have pp: "paging_pool s = paging_pool s0" by (simp add: s)
  have ok: "pool_ok (paging_pool s) 448 s" and bits: "\<And>j. j < table_frames \<Longrightarrow> pool_bit (mem s) (paging_pool s) j \<longleftrightarrow> j < Suc nt"
    using i(2,3) by (simp_all add: pp less_Suc_eq_le)
  have lt: "Suc nt < table_frames" using nt by simp
  obtain m where m: "allocate_page_folder s = Inr (table_frame (Suc nt), s\<lparr>mem := m\<rparr>)"
      "pool_ok (paging_pool s) 448 (s\<lparr>mem := m\<rparr>)"
      "\<And>j. j < table_frames \<Longrightarrow> pool_bit m (paging_pool s) j \<longleftrightarrow> j \<le> Suc nt"
      "\<And>x. in_range (table_frame (Suc nt)) 4096 x \<Longrightarrow> m x = 0"
      "\<And>x. \<not> in_range (table_frame (Suc nt)) 4096 x \<Longrightarrow> \<not> in_range (paging_pool s) 448 x \<Longrightarrow> m x = mem s x"
    by (rule allocate_page_folder_eq [OF ok lt bits]) blast+
  have pool: "unat x < 0x100000" if "in_range (paging_pool s) 448 x" for x
    using in_range_imp_offset [OF that] pool_byte(1) [OF ok] by auto
  have keep: "m x = mem s x" if "0x100000 \<le> unat x" "unat x < 0x101000 + 4096 * nt" for x
    using m(5) [of x] pool [of x] table_page_apart [of "Suc nt" x] that nt by fastforce
  let ?p = "map_pde s0 nt" and ?a = "dir_address nt"
  let ?m = "store32 m ?a ?p"
  have a: "unat ?a = 0x100000 + 4 * nt" using nt by (simp add: unat_dir_address)
  have out: "?m x = m x" if "unat x < 0x100000 \<or> 0x101000 \<le> unat x" for x
    using that a nt by (intro store32_outside) (subst in_range_linear, auto)
  have junk: "create_page_entry (s\<lparr>mem := m\<rparr>) (table_frame (Suc nt)) True True = ?p"
    by (simp add: map_pde_def s create_page_entry_def)
  have "set_entry (table_frame 0) (of_nat nt) ?p (s\<lparr>mem := m\<rparr>) = s\<lparr>mem := ?m\<rparr>"
    by (simp add: set_entry_def dir_address_def)
  then have eq: "and_then (allocate_page_folder s) (\<lambda>folder s.
      Inr ((), set_entry (table_frame 0) (of_nat nt) (create_page_entry s folder True True) s)) = Inr ((), s\<lparr>mem := ?m\<rparr>)"
    by (simp add: m(1) junk)
  have "load32 ?m (dir_address n) = (if n < Suc nt then map_pde s0 n else 0)" if n: "n < 1024" for n
  proof (cases "n = nt")
    case False
    then have "load32 ?m (dir_address n) = load32 m (dir_address n)"
      using a n nt by (intro load32_store32_apart) (auto simp: unat_dir_address)
    also have "\<dots> = load32 (mem s) (dir_address n)"
      using n by (intro load32_untouched keep) (simp_all add: unat_dir_address)
    finally show ?thesis using i(4) [OF n] False by auto
  qed simp
  moreover have "load32 ?m (pte_address j) = map_pte s0 j" if j: "j < k" for j
  proof -
    have u: "unat (pte_address j) = 0x101000 + 4 * j" using j k nt by (intro unat_pte_address) simp
    have "load32 ?m (pte_address j) = load32 m (pte_address j)" using u j k nt by (intro load32_untouched out) auto
    also have "\<dots> = load32 (mem s) (pte_address j)" using u j k nt by (intro load32_untouched keep) auto
    finally show ?thesis using i(5) [OF j] by simp
  qed
  moreover have "?m x = mem s0 x" if x: "\<not> in_range 0x100000 0x5000 x" "\<not> in_range (paging_pool s0) 448 x" for x
  proof -
    have r: "unat x < 0x100000 \<or> 0x105000 \<le> unat x" using x(1) by (auto simp: in_range_linear)
    then have "\<not> in_range (table_frame (Suc nt)) 4096 x" using table_page_apart [of "Suc nt" x] nt by auto
    then show ?thesis using out [of x] m(5) [of x] r i(8) [OF x] x(2) pp by auto
  qed
  moreover have "pool_ok (paging_pool s0) 448 (s\<lparr>mem := ?m\<rparr>)"
    and "\<And>j. j < table_frames \<Longrightarrow> pool_bit ?m (paging_pool s0) j \<longleftrightarrow> j \<le> Suc nt"
    using pool_ok_above [OF m(2), of ?m] out m(3) pp by simp_all
  moreover have "\<exists>m. s\<lparr>mem := ?m\<rparr> = s0\<lparr>mem := m\<rparr>" by (auto simp: s)
  ultimately have "map_inv s0 (Suc nt) k (s\<lparr>mem := ?m\<rparr>)"
    unfolding map_inv_def using i(6) nt by simp
  with eq show thesis by (rule that)
qed

lemma page_number: "k < 4096 \<Longrightarrow> unat (of_nat k * page_size) = 4096 * k"
  by (rule unat_page_offset) simp

lemma get_page_index:
  assumes "k < 4096"
  shows "of_nat k * page_size div page_size div 1024 = (of_nat (k div 1024) :: u_dword)"
    and "of_nat k * page_size div page_size mod 1024 = (of_nat (k mod 1024) :: u_dword)"
    and "\<not> of_nat k * page_size > user_space_end"
proof -
  have u: "unat (of_nat k * page_size div page_size :: u_dword) = k"
    unfolding unat_div page_number [OF assms] by (simp add: page_size_def)
  then have w: "of_nat k * page_size div page_size = (of_nat k :: u_dword)"
    using assms by (intro word_eq_unatI) (simp only: unat_of_nat32 [of k])
  show "of_nat k * page_size div page_size div 1024 = (of_nat (k div 1024) :: u_dword)"
    unfolding w using assms by (intro word_eq_unatI) (simp add: unat_div unat_of_nat32)
  show "of_nat k * page_size div page_size mod 1024 = (of_nat (k mod 1024) :: u_dword)"
    unfolding w using assms by (intro word_eq_unatI) (simp add: unat_mod unat_of_nat32)
  show "\<not> of_nat k * page_size > user_space_end"
    using assms by (simp add: word_less_nat_alt page_number user_space_end_def)
qed

lemma contents_pde: "i < 4 \<Longrightarrow> get_contents_as_page (map_pde s i) = table_frame (Suc i)"
  unfolding map_pde_def by (rule page_frame_entry) (simp add: unat_table_frame)

lemma pte_address_split: "k < 4096 \<Longrightarrow> table_frame (Suc (k div 1024)) + 4 * of_nat (k mod 1024) = pte_address k"
proof -
  assume k: "k < 4096"
  then have d: "k div 1024 < 4" by (simp add: less_mult_imp_div_less)
  have "4 * unat (of_nat (k mod 1024) :: u_dword) < 4096" by (simp add: unat_of_nat32)
  then have u: "unat (4 * of_nat (k mod 1024) :: u_dword) = 4 * (k mod 1024)"
    by (simp add: unat_word_ariths unat_of_nat32)
  have "k mod 1024 < 1024" by simp
  then have "unat (table_frame (Suc (k div 1024)) + 4 * of_nat (k mod 1024)) = 0x100000 + 4096 * Suc (k div 1024) + 4 * (k mod 1024)"
    using d unat_table_frame [of "Suc (k div 1024)"] by (subst unat_plus_small) (simp_all add: u)
  moreover have "0x100000 + 4096 * Suc d + 4 * r = 0x101000 + 4 * k" if "1024 * d + r = k" for d r
    using that by simp
  from this [OF mult_div_mod_eq] have "0x100000 + 4096 * Suc (k div 1024) + 4 * (k mod 1024) = 0x101000 + 4 * k" .
  ultimately show ?thesis
    using unat_pte_address [OF k] by (intro word_eq_unatI) (simp only:)
qed

lemma map_step:
  fixes s :: "'a kernel_state_scheme"
  assumes inv: "map_inv s0 nt k s" and nt: "nt = (k + 1023) div 1024" and k: "k < 4096"
    and dir: "kernel_directory s0 = table_frame 0"
  obtains s' where "and_then (get_page (of_nat k * page_size) True (kernel_directory s) s) (\<lambda>page s.
      Inr ((), s\<lparr>mem := store32 (mem s) page (create_page_entry s (of_nat k * page_size)
        (\<not> in_stack (of_nat k * page_size)) (in_stack (of_nat k * page_size)))\<rparr>)) = Inr ((), s')"
    and "map_inv s0 ((Suc k + 1023) div 1024) (Suc k) s'"
proof -
  define d where "d = k div 1024"
  have d: "d < 4" using k by (simp add: d_def less_mult_imp_div_less)
  have kd: "kernel_directory s = table_frame 0" using map_invD(1) [OF inv] dir by auto
  have suc: "(Suc k + 1023) div 1024 = Suc d" by (simp add: d_def)
  have entry: "entry_at (mem t) (table_frame 0) (of_nat d) = load32 (mem t) (dir_address d)" for t :: "'a kernel_state_scheme"
    by (simp add: entry_at_def dir_address_def)
  obtain t where t: "(if get_contents_as_page (entry_at (mem s) (table_frame 0) (of_nat d)) = 0 then
      and_then (allocate_page_folder s) (\<lambda>folder s. Inr ((), set_entry (table_frame 0) (of_nat d) (create_page_entry s folder True True) s))
      else Inr ((), s)) = Inr ((), t)" and inv': "map_inv s0 (Suc d) k t"
  proof (cases "k = 1024 * d")
    case True
    then have "nt = d" using nt by simp
    from map_inv_table [OF inv [unfolded this] True d dir] obtain t where
      "and_then (allocate_page_folder s) (\<lambda>folder s. Inr ((), set_entry (table_frame 0) (of_nat d) (create_page_entry s folder True True) s)) = Inr ((), t)"
      "map_inv s0 (Suc d) k t" .
    moreover have "load32 (mem s) (dir_address d) = 0" using map_invD(4) [OF inv, of d] d \<open>nt = d\<close> by simp
    ultimately show ?thesis by (intro that [of t]) (simp_all add: entry get_contents_as_page_def page_frame_def)
  next
    case False
    have "1024 * d + k mod 1024 = k" by (simp add: d_def)
    then have "nt = Suc d" using False nt by (auto simp: d_def)
    have "load32 (mem s) (dir_address d) = map_pde s0 d" using map_invD(4) [OF inv, of d] d \<open>nt = Suc d\<close> by simp
    moreover have "table_frame (Suc d) \<noteq> 0" using d by (intro frames_not_null) simp
    ultimately show ?thesis using inv \<open>nt = Suc d\<close> d by (intro that [of s]) (simp_all add: entry contents_pde)
  qed
  have "load32 (mem t) (dir_address d) = map_pde s0 d" using map_invD(4) [OF inv', of d] d by simp
  then have page: "get_page (of_nat k * page_size) True (kernel_directory s) s = Inr (pte_address k, t)"
    unfolding get_page_def using get_page_index [OF k] t d pte_address_split [OF k]
    by (simp add: Let_def kd d_def [symmetric] entry contents_pde split: if_splits)
  have "k < 1024 * Suc d" unfolding d_def using dividend_less_times_div [of 1024 k] by simp
  from map_inv_pte [OF inv' this] have fin: "map_inv s0 (Suc d) (Suc k) (t\<lparr>mem := store32 (mem t) (pte_address k) (map_pte s0 k)\<rparr>)" .
  moreover have "create_page_entry t a b c = create_page_entry s0 a b c" for a b c
    using map_invD(1) [OF inv'] by (auto simp: create_page_entry_def)
  ultimately show thesis by (intro that [OF _ fin [folded suc]]) (simp add: page map_pte_def Let_def)
qed

lemma map_pages_inv:
  fixes s0 :: "'a kernel_state_scheme"
  assumes "map_inv s0 0 0 s0" and "k \<le> 4096" and "kernel_directory s0 = table_frame 0"
  obtains s where "map_pages k s0 = Inr ((), s)" and "map_inv s0 ((k + 1023) div 1024) k s"
proof -
  have "\<exists>s. map_pages k s0 = Inr ((), s) \<and> map_inv s0 ((k + 1023) div 1024) k s"
    using assms(2)
  proof (induction k)
    case 0
    then show ?case using assms(1) by simp
  next
    case (Suc k)
    then obtain s where s: "map_pages k s0 = Inr ((), s)" "map_inv s0 ((k + 1023) div 1024) k s" by auto
    have "k < 4096" using Suc.prems by simp
    from map_step [OF s(2) refl this assms(3)] obtain s' where
      "and_then (get_page (of_nat k * page_size) True (kernel_directory s) s) (\<lambda>page s.
        Inr ((), s\<lparr>mem := store32 (mem s) page (create_page_entry s (of_nat k * page_size)
          (\<not> in_stack (of_nat k * page_size)) (in_stack (of_nat k * page_size)))\<rparr>)) = Inr ((), s')"
      "map_inv s0 ((Suc k + 1023) div 1024) (Suc k) s'" .
    then show ?case using s(1) by (simp add: Let_def)
  qed
  then show thesis using that by blast
qed

section \<open>The finished map\<close>

lemma map_inv_start:
  fixes s :: "'a kernel_state_scheme"
  assumes "pool_ok (paging_pool s) 448 s" and "\<And>j. j < table_frames \<Longrightarrow> \<not> pool_bit (mem s) (paging_pool s) j"
  obtains m where "allocate_page_folder s = Inr (table_frame 0, s\<lparr>mem := m\<rparr>)"
    and "map_inv (s\<lparr>mem := m, kernel_directory := table_frame 0\<rparr>) 0 0 (s\<lparr>mem := m, kernel_directory := table_frame 0\<rparr>)"
    and "\<And>x. \<not> in_range 0x100000 0x5000 x \<Longrightarrow> \<not> in_range (paging_pool s) 448 x \<Longrightarrow> m x = mem s x"
proof -
  have "pool_bit (mem s) (paging_pool s) j \<longleftrightarrow> j < 0" if "j < table_frames" for j using assms(2) [OF that] by simp
  note bits = this
  have k0: "0 < table_frames" by simp
  obtain m where m: "allocate_page_folder s = Inr (table_frame 0, s\<lparr>mem := m\<rparr>)" "pool_ok (paging_pool s) 448 (s\<lparr>mem := m\<rparr>)"
      "\<And>j. j < table_frames \<Longrightarrow> pool_bit m (paging_pool s) j \<longleftrightarrow> j \<le> 0"
      "\<And>x. in_range (table_frame 0) 4096 x \<Longrightarrow> m x = 0"
      "\<And>x. \<not> in_range (table_frame 0) 4096 x \<Longrightarrow> \<not> in_range (paging_pool s) 448 x \<Longrightarrow> m x = mem s x"
    by (rule allocate_page_folder_eq [OF assms(1) k0 bits]) blast+
  have f: "table_frame 0 = 0x100000" by (simp add: table_frame_def paging_pool_start_def)
  have z: "load32 m (dir_address i) = 0" if "i < 1024" for i
  proof -
    have "in_range (table_frame 0) 4096 x" if "in_range (dir_address i) 4 x" for x
      using that \<open>i < 1024\<close> unat_dir_address [of i] unfolding f by (simp add: in_range_linear)
    then have "load32 m (dir_address i) = load32 (\<lambda>_. 0) (dir_address i)" using m(4) by (intro load32_cong) blast
    then show ?thesis by (simp add: load32_def)
  qed
  have view: "pool_ok (paging_pool s) 448 (s\<lparr>mem := m, kernel_directory := table_frame 0\<rparr>)"
    using m(2) pool_view [of "s\<lparr>mem := m, kernel_directory := table_frame 0\<rparr>" "s\<lparr>mem := m\<rparr>"] by simp
  show thesis
  proof (rule that [OF m(1)])
    show "m x = mem s x" if "\<not> in_range 0x100000 0x5000 x" "\<not> in_range (paging_pool s) 448 x" for x
      using that m(5) [of x] unfolding f by (auto simp: in_range_linear)
    show "map_inv (s\<lparr>mem := m, kernel_directory := table_frame 0\<rparr>) 0 0 (s\<lparr>mem := m, kernel_directory := table_frame 0\<rparr>)"
      unfolding map_inv_def using view m(3) z by (auto intro!: exI [of _ m])
  qed
qed

text \<open>The finished kernel map, as memory contents; \<open>g\<close> supplies the bits the code leaves undefined.\<close>

definition kernel_mapped :: "'a kernel_state_scheme \<Rightarrow> memory \<Rightarrow> bool" where
  "kernel_mapped g m \<longleftrightarrow> (\<forall>i < 1024. load32 m (dir_address i) = (if i < 4 then map_pde g i else 0)) \<and>
     (\<forall>j < 4096. load32 m (pte_address j) = map_pte g j)"

lemma kernel_mapped_frame:
  assumes "kernel_mapped g m" and "\<And>x. 0x100000 \<le> unat x \<Longrightarrow> unat x < 0x105000 \<Longrightarrow> m' x = m x"
  shows "kernel_mapped g m'"
proof -
  have "load32 m' (dir_address i) = load32 m (dir_address i)" if "i < 1024" for i
    using that assms(2) by (intro load32_untouched) (simp_all add: unat_dir_address)
  moreover have "load32 m' (pte_address j) = load32 m (pte_address j)" if "j < 4096" for j
    using that assms(2) by (intro load32_untouched) (simp_all add: unat_pte_address)
  ultimately show ?thesis using assms(1) by (simp add: kernel_mapped_def)
qed

lemma kernel_entry: "kernel_mapped g m \<Longrightarrow> i < 1024 \<Longrightarrow> entry_at m (table_frame 0) (of_nat i) = (if i < 4 then map_pde g i else 0)"
  by (simp add: kernel_mapped_def entry_at_def dir_address_def)

lemma kernel_table_entry:
  assumes "kernel_mapped g m" and "i < 4" and "j < 1024"
  shows "entry_at m (get_contents_as_page (map_pde g i)) (of_nat j) = map_pte g (1024 * i + j)"
proof -
  have k: "1024 * i + j < 4096" "(1024 * i + j) div 1024 = i" "(1024 * i + j) mod 1024 = j" using assms(2,3) by simp_all
  have "table_frame (Suc i) + 4 * of_nat j = pte_address (1024 * i + j)"
    using pte_address_split [OF k(1)] unfolding k by simp
  then show ?thesis using assms k(1) by (simp add: kernel_mapped_def entry_at_def contents_pde)
qed

lemma map_pde_flags: "page_present (map_pde g i)" "\<not> page_user (map_pde g i)" "page_rw (map_pde g i)"
  by (simp_all add: map_pde_def page_present_def page_user_def page_rw_def create_page_entry_bits)

lemma stack_page: "k < 4096 \<Longrightarrow> in_stack (of_nat k * page_size) \<longleftrightarrow> 2 \<le> k \<and> k < 7"
  using page_number [of k] by (auto simp: in_stack_def stack_pointer_def stack_size_def word_le_nat_alt word_less_nat_alt)

lemma map_pte_flags:
  assumes "k < 4096"
  shows "page_present (map_pte g k)" and "page_user (map_pte g k) \<longleftrightarrow> 2 \<le> k \<and> k < 7" and "page_rw (map_pte g k) \<longleftrightarrow> 2 \<le> k \<and> k < 7"
    and "get_contents_as_page (map_pte g k) = of_nat k * page_size"
proof -
  show "page_present (map_pte g k)" "page_user (map_pte g k) \<longleftrightarrow> 2 \<le> k \<and> k < 7" "page_rw (map_pte g k) \<longleftrightarrow> 2 \<le> k \<and> k < 7"
    using stack_page [OF assms]
    by (simp_all add: map_pte_def Let_def page_present_def page_user_def page_rw_def create_page_entry_bits)
  show "get_contents_as_page (map_pte g k) = of_nat k * page_size"
    unfolding map_pte_def Let_def by (rule page_frame_entry) (simp add: page_number [OF assms])
qed

lemma map_inv_mapped: "map_inv s0 4 4096 s \<Longrightarrow> kernel_mapped s0 (mem s)"
  using map_invD(4,5) [of s0 4 4096 s] by (simp add: kernel_mapped_def)

text \<open>The walk for an address of page \<open>k\<close>, through present entries, to frame \<open>f\<close>.\<close>

lemma translate_entries:
  assumes k: "k = unat va div 4096" "k < 4096" and pde: "entry_at m dir (of_nat (k div 1024)) = pde" "page_present pde"
    and pte: "entry_at m (get_contents_as_page pde) (of_nat (k mod 1024)) = pte" "page_present pte"
    and f: "unat (get_contents_as_page pte) = 4096 * f"
  shows "translate m dir va = Some (of_nat (4096 * f + unat va mod 4096), page_user pde \<and> page_user pte, page_rw pde \<and> page_rw pte)"
proof -
  have hi: "drop_bit 22 va = of_nat (k div 1024)"
    by (intro word_eq_unatI) (use k in \<open>simp add: unat_of_nat32 unat_div drop_bit_eq_div k div_mult2_eq [symmetric]\<close>)
  have mid: "take_bit 10 (drop_bit 12 va) = of_nat (k mod 1024)"
    by (intro word_eq_unatI) (simp add: unat_of_nat32 unat_div unat_mod drop_bit_eq_div take_bit_eq_mod k)
  have "take_bit 12 va = of_nat (unat va mod 4096)"
    by (intro word_eq_unatI) (simp add: take_bit_eq_mod unat_mod unat_of_nat32)
  moreover have "get_contents_as_page pte = of_nat (4096 * f)" using f by (metis word_of_nat_unat)
  ultimately show ?thesis
    using pde pte by (simp add: translate_def Let_def hi mid entry_at_def table_base_contents page_present_def page_user_def page_rw_def)
qed

lemma kernel_page:
  assumes "unat va < 0x1000000"
  shows "unat va div 4096 < 4096" and "2 \<le> unat va div 4096 \<and> unat va div 4096 < 7 \<longleftrightarrow> 0x2000 \<le> unat va \<and> unat va < 0x7000"
    and "of_nat (4096 * (unat va div 4096) + unat va mod 4096) = va"
  using assms by (auto simp: less_mult_imp_div_less)

lemma translate_mapped:
  assumes map: "kernel_mapped g m" and va: "unat va < 0x1000000"
  shows "translate m (table_frame 0) va = Some (va, False, 0x2000 \<le> unat va \<and> unat va < 0x7000)"
proof -
  define k where "k = unat va div 4096"
  note p = kernel_page [OF va, folded k_def]
  have d: "k div 1024 < 4" using p(1) by (simp add: less_mult_imp_div_less)
  have pde: "entry_at m (table_frame 0) (of_nat (k div 1024)) = map_pde g (k div 1024)" using kernel_entry [OF map] d by simp
  have pte: "entry_at m (get_contents_as_page (map_pde g (k div 1024))) (of_nat (k mod 1024)) = map_pte g k"
    using kernel_table_entry [OF map d, of "k mod 1024"] by simp
  have "unat (get_contents_as_page (map_pte g k)) = 4096 * k" unfolding map_pte_flags(4) [OF p(1)] by (rule page_number [OF p(1)])
  from translate_entries [OF k_def p(1) pde map_pde_flags(1) pte map_pte_flags(1) [OF p(1)] this]
  show ?thesis unfolding p(3) by (simp add: map_pde_flags map_pte_flags(3) [OF p(1)] p(2))
qed

text \<open>An address whose directory entry is empty.\<close>

lemma translate_absent:
  assumes "\<And>i. 4 \<le> i \<Longrightarrow> i < 1024 \<Longrightarrow> entry_at m dir (of_nat i) = 0" and va: "0x1000000 \<le> unat va"
  shows "translate m dir va = None"
proof -
  define i where "i = unat va div 4194304"
  have i: "i < 1024" "4 \<le> i" using va unat_lt32 [of va] by (auto simp: i_def less_mult_imp_div_less)
  have "drop_bit 22 va = of_nat i"
    by (intro word_eq_unatI) (use i in \<open>simp add: unat_of_nat32 unat_div drop_bit_eq_div i_def\<close>)
  then have "load32 m (dir + 4 * drop_bit 22 va) = 0" using assms(1) [OF i(2,1)] by (simp add: entry_at_def)
  then show ?thesis by (simp add: translate_def Let_def)
qed

lemma translate_kernel:
  assumes "kernel_mapped g m"
  shows "translate m (table_frame 0) va =
    (if unat va < 0x1000000 then Some (va, False, 0x2000 \<le> unat va \<and> unat va < 0x7000) else None)"
  using translate_mapped [OF assms, of va] translate_absent [of m "table_frame 0" va] kernel_entry [OF assms] by auto

lemma build_kernel_map_inv:
  fixes s :: "'a kernel_state_scheme"
  assumes "pool_ok (paging_pool s) 448 s" and "\<And>j. j < table_frames \<Longrightarrow> \<not> pool_bit (mem s) (paging_pool s) j"
  obtains s0 s' where "build_kernel_map s = Inr ((), s')" and "map_inv s0 4 4096 s'"
    and "\<exists>m. s' = s\<lparr>mem := m, kernel_directory := table_frame 0\<rparr>"
    and "\<And>x. \<not> in_range 0x100000 0x5000 x \<Longrightarrow> \<not> in_range (paging_pool s) 448 x \<Longrightarrow> mem s' x = mem s x"
proof -
  obtain m where m: "allocate_page_folder s = Inr (table_frame 0, s\<lparr>mem := m\<rparr>)"
      "map_inv (s\<lparr>mem := m, kernel_directory := table_frame 0\<rparr>) 0 0 (s\<lparr>mem := m, kernel_directory := table_frame 0\<rparr>)"
      "\<And>x. \<not> in_range 0x100000 0x5000 x \<Longrightarrow> \<not> in_range (paging_pool s) 448 x \<Longrightarrow> m x = mem s x"
    by (rule map_inv_start [OF assms]) blast+
  let ?s0 = "s\<lparr>mem := m, kernel_directory := table_frame 0\<rparr>"
  obtain s' where s': "map_pages 4096 ?s0 = Inr ((), s')" "map_inv ?s0 4 4096 s'"
    by (rule map_pages_inv [OF m(2), of 4096]) simp_all
  have "unat (user_space_start div page_size) = 4096" by (simp add: page_constants)
  then have eq: "build_kernel_map s = Inr ((), s')" using m(1) s'(1) by (simp add: build_kernel_map_def)
  show thesis
  proof (rule that [OF eq s'(2)])
    from map_invD(1) [OF s'(2)] obtain m' where "s' = ?s0\<lparr>mem := m'\<rparr>" by blast
    then show "\<exists>m. s' = s\<lparr>mem := m, kernel_directory := table_frame 0\<rparr>" by (intro exI [of _ m']) simp
    show "mem s' x = mem s x" if "\<not> in_range 0x100000 0x5000 x" "\<not> in_range (paging_pool s) 448 x" for x
      using map_invD(8) [OF s'(2), of x] m(3) that by simp
  qed
qed

section \<open>Properties of the kernel map\<close>

text \<open>
  (C9) The kernel map is the identity: on fresh pools the loop of \<^verbatim>\<open>initialise_paging\<close> ends, with the
  directory in the first page of the pool, and in the processor's table walk every address below 16
  megabytes translates to itself (with write permission exactly for the stack, 0x2000 to 0x6fff, and
  without access for user code), while every other address has no translation.
\<close>

theorem kernel_map_identity:
  fixes s :: "'a kernel_state_scheme"
  assumes "pool_ok (paging_pool s) 448 s" and "\<And>j. j < 3584 \<Longrightarrow> \<not> pool_bit (mem s) (paging_pool s) j"
  shows "\<exists>s'. build_kernel_map s = Inr ((), s') \<and> kernel_directory s' = 0x100000 \<and>
    (\<forall>va. translate (mem s') (kernel_directory s') va =
      (if unat va < 0x1000000 then Some (va, False, 0x2000 \<le> unat va \<and> unat va < 0x7000) else None))"
proof -
  obtain s0 s' where s': "build_kernel_map s = Inr ((), s')" "map_inv s0 4 4096 s'"
    "\<exists>m. s' = s\<lparr>mem := m, kernel_directory := table_frame 0\<rparr>" by (rule build_kernel_map_inv [OF assms]) blast+
  have f: "table_frame 0 = 0x100000" by (simp add: table_frame_def paging_pool_start_def)
  have "kernel_directory s' = table_frame 0" using s'(3) by auto
  moreover note translate_kernel [OF map_inv_mapped [OF s'(2)]]
  ultimately show ?thesis using s'(1) f by metis
qed

theorem kernel_map_identity_witness:
  "\<exists>s s' :: kernel_state. create_pools demo_kernel = Inr ((), s) \<and> build_kernel_map s = Inr ((), s') \<and>
    translate (mem s') (kernel_directory s') 0xb8000 = Some (0xb8000, False, False) \<and>
    translate (mem s') (kernel_directory s') 0x10000000 = None"
proof -
  obtain s where s: "create_pools demo_kernel = Inr ((), s)" "pool_ok (paging_pool s) 448 s"
    "\<And>j. j < 3584 \<Longrightarrow> \<not> pool_bit (mem s) (paging_pool s) j" by (rule demo_pools) blast
  from kernel_map_identity [OF s(2,3)] show ?thesis using s(1) by auto
qed

end
