(* ===== verification/Kernel.thy ===== *)
theory Kernel
  imports KernelMap
begin

text \<open>
  The rest of \<^verbatim>\<open>core/kernel/task.c\<close> (the first task and \<^verbatim>\<open>fork\<close>, which need paging and the heap),
  the registration in \<^verbatim>\<open>core/kernel/modules.c\<close> and the entry point of the kernel, \<^verbatim>\<open>core/kernel/kernel.c\<close>.
\<close>

section \<open>Creating tasks\<close>

text \<open>The assignments both \<^verbatim>\<open>initialise_tasking\<close> and \<^verbatim>\<open>fork\<close> make to a new task structure.\<close>

definition fill_task :: "addr \<Rightarrow> addr \<Rightarrow> 'a kernel_state_scheme \<Rightarrow> 'a kernel_state_scheme" where
  "fill_task t directory s =
     (let pid = next_pid s;
          s = s\<lparr>next_pid := pid + 1\<rparr>;
          m = set_task_id t pid (mem s);
          m = set_task_ebp t 0 m;
          m = set_task_esp t 0 m;
          m = set_task_eip t 0 m;
          m = set_task_directory t directory m;
          m = set_task_next t 0 m
      in s\<lparr>mem := m\<rparr>)"

definition initialise_tasking :: "'a kernel_state_scheme \<Rightarrow> ('a kernel_state_scheme, unit) result" where
  "initialise_tasking s =
     and_then (ralloc task_size (s\<lparr>int_flag := False\<rparr>)) (\<lambda>t s.
       (let s = s\<lparr>current_task := t, ready_queue := t\<rparr>;
            s = fill_task t (current_directory s) s
        in Inr ((), s\<lparr>int_flag := True\<rparr>)))"

text \<open>The walk to the end of the ready queue.\<close>

primrec queue_end :: "nat \<Rightarrow> addr \<Rightarrow> memory \<Rightarrow> addr option" where
  "queue_end 0 t m = None"
| "queue_end (Suc fuel) t m = (if task_next m t \<noteq> nullptr then queue_end fuel (task_next m t) m else Some t)"

text \<open>
  \<^verbatim>\<open>fork\<close> from the call of \<^verbatim>\<open>get_instruction_pointer\<close> on. The parent runs it with the address behind
  that call; the child enters it by the jump of \<^verbatim>\<open>switch_task\<close>, with the mark instead.
\<close>

definition fork_return ::
    "addr \<Rightarrow> addr \<Rightarrow> u_dword \<Rightarrow> 'a kernel_state_scheme \<Rightarrow> u_dword \<times> 'a kernel_state_scheme" where
  "fork_return parent_task new_task eip s =
     (if current_task s = parent_task then
        (let m = set_task_esp new_task (cpu_esp s) (mem s);
             m = set_task_ebp new_task (cpu_ebp s) m;
             m = set_task_eip new_task eip m;
             s = s\<lparr>mem := m, int_flag := True\<rparr>
         in (task_id (mem s) new_task, s))
      else (0, s))"

definition fork :: "'a kernel_state_scheme \<Rightarrow> ('a kernel_state_scheme, u_dword) result" where
  "fork s =
     (let s = s\<lparr>int_flag := False\<rparr>; parent_task = current_task s in
      and_then (clone_directory (current_directory s) s) (\<lambda>directory s.
      and_then (ralloc task_size s) (\<lambda>new_task s.
        (let s = fill_task new_task directory s in
         case queue_end walk_fuel (ready_queue s) (mem s) of
           None \<Rightarrow> Inl (Hang s)
         | Some tmp_task \<Rightarrow>
             (let s = s\<lparr>mem := set_task_next tmp_task new_task (mem s)\<rparr>
              in Inr (fork_return parent_task new_task (fork_eip s) s))))))"

section \<open>Modules\<close>

definition init_module_loading_driver :: "'a kernel_state_scheme \<Rightarrow> ('a kernel_state_scheme, unit) result" where
  "init_module_loading_driver s = silence_interrupt 46 s"

section \<open>The entry point\<close>

definition kernel_heap_start :: addr where "kernel_heap_start = 0x50000"
definition kernel_heap_size :: u_dword where "kernel_heap_size = 0x80000"
definition kernel_timer_step :: u_dword where "kernel_timer_step = 100"

text \<open>
  \<^verbatim>\<open>_start\<close>, in the order of the source; the compiler's date and time are literals whose text is fixed by
  the build.
\<close>

definition kernel_setup :: "string \<Rightarrow> string \<Rightarrow> 'a kernel_state_scheme \<Rightarrow> ('a kernel_state_scheme, unit) result" where
  "kernel_setup build_date build_time s =
     (let s = initialize_heap kernel_heap_start kernel_heap_size s;
          s = initialize_kernel_heap_handler s;
          s = init_interruptions s
      in and_then (init_timer kernel_timer_step s) (\<lambda>_ s.
         and_then (init_screen_io s) (\<lambda>_ s.
         and_then (init_debug_handler s) (\<lambda>_ s.
         and_then (good raise (''Kernel started, build: %s - %s'' @ newline)
           [literal s build_date, literal s build_time] s) (\<lambda>_ s.
         and_then (init_keyboard s) (\<lambda>_ s.
           init_module_loading_driver s))))))"

definition kernel_start :: "string \<Rightarrow> string \<Rightarrow> 'a kernel_state_scheme \<Rightarrow> ('a kernel_state_scheme, unit) result" where
  "kernel_start build_date build_time s =
     and_then (kernel_setup build_date build_time s) (\<lambda>_ s.
     and_then (initialise_paging s) (\<lambda>_ s.
     and_then (initialise_tasking s) (\<lambda>_ s.
     and_then (fork s) (\<lambda>ret s.
       info raise (''fork() returned %d, and getpid() returned %d'' @ newline) [ret, getpid s] s))))"

end
