(* ===== verification/SysCalls.thy ===== *)
theory SysCalls
  imports Console
begin

text \<open>
  What a system call delivers: the arguments pushed for \<^verbatim>\<open>extract_dword_args\<close>, copied to a heap array
  and pushed again for the handler, arrive in the slots above the frame the handler is given,
  and the array is released. The handler itself is arbitrary here.
\<close>

section \<open>Arguments on the stack\<close>

lemma push_dwords_outside:
  "\<not> in_range a (4 * length xs) x \<Longrightarrow> 4 * length xs \<le> 4294967296 \<Longrightarrow> push_dwords a xs m x = m x"
proof (induction xs arbitrary: a)
  case (Cons y xs)
  have "in_range a (4 + 4 * length xs) x \<longleftrightarrow> in_range a 4 x \<or> in_range (a + 4) (4 * length xs) x"
    using in_range_append [of 4 "4 * length xs" a x] Cons.prems(2) by simp
  then show ?case using Cons by (simp add: store32_outside)
qed simp

lemma in_range_slot:
  assumes "in_range (a + 4 * of_nat k) 4 x" and "k < n" and "4 * n \<le> 4294967296"
  shows "in_range a (4 * n) x"
proof -
  have "unat (x - a) = 4 * k + unat (x - (a + of_nat (4 * k)))"
    using assms by (intro in_range_append_offset [where b = 4]) simp_all
  moreover have "unat (x - (a + of_nat (4 * k))) < 4" using assms(1) by (simp add: in_range_def)
  ultimately show ?thesis using assms(2) by (simp add: in_range_def)
qed

lemma store_slot_outside:
  assumes "\<not> in_range a (4 * n) x" and "i < n" and "4 * n \<le> 4294967296"
  shows "store32 m (a + 4 * of_nat i) v x = m x"
  using assms in_range_slot by (blast intro: store32_outside)

lemma slots_apart:
  assumes "j \<noteq> k" and "j < n" and "k < n" and "4 * n \<le> 4294967296"
  shows "disjoint_ranges (a + 4 * of_nat j) 4 (a + 4 * of_nat k) (4 :: nat)"
  unfolding disjoint_ranges_def
proof (intro allI notI)
  fix x
  assume x: "in_range (a + 4 * of_nat j) 4 x \<and> in_range (a + 4 * of_nat k) 4 x"
  have at: "unat (x - a) div 4 = i" if "in_range (a + 4 * of_nat i) 4 x" "i < n" for i
  proof -
    have "unat (x - a) = 4 * i + unat (x - (a + of_nat (4 * i)))"
      using that assms(4) by (intro in_range_append_offset [where b = 4]) simp_all
    moreover have "unat (x - (a + of_nat (4 * i))) < 4" using that(1) by (simp add: in_range_def)
    ultimately show ?thesis by simp
  qed
  show False using at [of j] at [of k] x assms by simp
qed

lemma load_push_dwords:
  "k < length xs \<Longrightarrow> 4 * length xs \<le> 4294967296 \<Longrightarrow> load32 (push_dwords a xs m) (a + 4 * of_nat k) = xs ! k"
proof (induction xs arbitrary: a k)
  case (Cons y xs)
  show ?case
  proof (cases k)
    case (Suc j)
    have "disjoint_ranges (a + 4 * of_nat 0) 4 (a + 4 * of_nat k) 4"
      by (rule slots_apart [where n = "length (y # xs)"]) (use Cons.prems Suc in simp_all)
    then have "load32 (push_dwords a (y # xs) m) (a + 4 * of_nat k) = load32 (push_dwords (a + 4) xs m) (a + 4 * of_nat k)"
      by (simp add: load32_store32_other)
    then show ?thesis using Cons.IH [of j "a + 4"] Cons.prems Suc by (simp add: algebra_simps)
  qed simp
qed simp

section \<open>Copying double words\<close>

text \<open>Both copying loops move double words between ranges that do not meet.\<close>

definition dwords_copied :: "addr \<Rightarrow> addr \<Rightarrow> nat \<Rightarrow> memory \<Rightarrow> memory \<Rightarrow> bool" where
  "dwords_copied src dst n m m' \<longleftrightarrow> (\<forall>k < n. load32 m' (dst + 4 * of_nat k) = load32 m (src + 4 * of_nat k)) \<and>
     (\<forall>x. \<not> in_range dst (4 * n) x \<longrightarrow> m' x = m x)"

lemma load_other_range:
  assumes "disjoint_ranges src (4 * n) dst (4 * n)" and "\<And>x. \<not> in_range dst (4 * n) x \<Longrightarrow> m' x = m x"
    and "k < n" and "4 * n \<le> 4294967296"
  shows "load32 m' (src + 4 * of_nat k) = load32 m (src + 4 * of_nat k)"
  using assms in_range_slot [OF _ assms(3,4)] by (intro load32_cong) (meson disjoint_rangesD)

lemma extract_rounds_copied:
  assumes "disjoint_ranges (arg_address ebp 4) (4 * n) args (4 * n)" and "4 * n \<le> 4294967296"
  shows "dwords_copied (arg_address ebp 4) args n m (extract_rounds ebp args n m)"
proof -
  have src: "arg_address ebp (4 * (of_nat i + 1)) = arg_address ebp 4 + 4 * of_nat i" for i
    by (simp add: arg_address_def algebra_simps)
  have "i \<le> n \<Longrightarrow> (\<forall>k < i. load32 (extract_rounds ebp args i m) (args + 4 * of_nat k) =
      load32 m (arg_address ebp 4 + 4 * of_nat k)) \<and>
    (\<forall>x. \<not> in_range args (4 * n) x \<longrightarrow> extract_rounds ebp args i m x = m x)" for i
  proof (induction i)
    case (Suc i)
    let ?m = "extract_rounds ebp args i m"
    have ih: "\<forall>k < i. load32 ?m (args + 4 * of_nat k) = load32 m (arg_address ebp 4 + 4 * of_nat k)"
      "\<And>x. \<not> in_range args (4 * n) x \<Longrightarrow> ?m x = m x" using Suc by auto
    have eq: "extract_rounds ebp args (Suc i) m = store32 ?m (args + 4 * of_nat i) (load32 ?m (arg_address ebp 4 + 4 * of_nat i))"
      by (simp only: extract_rounds.simps src Let_def)
    have rd: "load32 ?m (arg_address ebp 4 + 4 * of_nat i) = load32 m (arg_address ebp 4 + 4 * of_nat i)"
      by (rule load_other_range [OF assms(1) ih(2) _ assms(2)]) (use Suc.prems in simp_all)
    have "load32 (extract_rounds ebp args (Suc i) m) (args + 4 * of_nat k) = load32 m (arg_address ebp 4 + 4 * of_nat k)"
      if "k < Suc i" for k
    proof (cases "k = i")
      case False
      then have "disjoint_ranges (args + 4 * of_nat i) 4 (args + 4 * of_nat k) 4"
        using Suc.prems that assms(2) by (intro slots_apart [where n = n]) simp_all
      then show ?thesis using ih(1) that False unfolding eq by (simp add: load32_store32_other)
    qed (simp add: eq rd del: extract_rounds.simps)
    moreover have "extract_rounds ebp args (Suc i) m x = m x" if "\<not> in_range args (4 * n) x" for x
      unfolding eq using store_slot_outside [OF that _ assms(2)] ih(2) [OF that] Suc.prems by simp
    ultimately show ?case by blast
  qed simp
  from this [of n] show ?thesis by (simp add: dwords_copied_def)
qed

lemma push_rounds_copied:
  assumes "disjoint_ranges args (4 * n) slots (4 * n)" and "4 * n \<le> 4294967296"
  shows "dwords_copied args slots n m (push_rounds args slots n m)"
proof -
  have "i \<le> n \<Longrightarrow> (\<forall>k < n. load32 (push_rounds args slots i m) (slots + 4 * of_nat k) =
      (if k < i then load32 m (args + 4 * of_nat k) else load32 m (slots + 4 * of_nat k))) \<and>
    (\<forall>x. \<not> in_range slots (4 * n) x \<longrightarrow> push_rounds args slots i m x = m x)" for i m
  proof (induction i arbitrary: m)
    case (Suc i)
    let ?m = "store32 m (slots + 4 * of_nat i) (load32 m (args + 4 * of_nat i))"
    have out: "?m x = m x" if "\<not> in_range slots (4 * n) x" for x
      using store_slot_outside [OF that _ assms(2)] Suc.prems by simp
    have rd: "load32 ?m (args + 4 * of_nat k) = load32 m (args + 4 * of_nat k)" if "k < n" for k
      by (rule load_other_range [OF assms(1) out that assms(2)])
    have at: "load32 ?m (slots + 4 * of_nat k) = (if k = i then load32 m (args + 4 * of_nat i) else load32 m (slots + 4 * of_nat k))"
      if "k < n" for k
    proof (cases "k = i")
      case False
      then have "disjoint_ranges (slots + 4 * of_nat i) 4 (slots + 4 * of_nat k) 4"
        using Suc.prems that assms(2) by (intro slots_apart [where n = n]) simp_all
      then show ?thesis using False by (simp add: load32_store32_other)
    qed simp
    have ih: "load32 (push_rounds args slots i ?m) (slots + 4 * of_nat k) =
        (if k < i then load32 ?m (args + 4 * of_nat k) else load32 ?m (slots + 4 * of_nat k))" if "k < n" for k
      using Suc that by simp
    have ihx: "push_rounds args slots i ?m x = ?m x" if "\<not> in_range slots (4 * n) x" for x
      using Suc that by simp
    show ?case using ih rd at ihx out by (auto simp: less_Suc_eq)
  qed simp
  from this [of n] show ?thesis by (simp add: dwords_copied_def)
qed

section \<open>The extracted array\<close>

lemma extract_dword_args_made:
  assumes "heap_ok s bs" and "reserve s bs N" and n: "4 * n + 12 \<le> N"
    and held: "\<And>x. in_range (arg_address ebp 4) (4 * n) x \<Longrightarrow> held_byte s bs x"
  obtains p s' bs' where "extract_dword_args ebp (of_nat n) s = Inr (p, s')"
    and "made s bs p (of_nat (4 * n)) s' bs'" and "reserve s' bs' (N - (4 * n + 12))"
    and "\<And>k. k < n \<Longrightarrow> load32 (mem s') (p + 4 * of_nat k) = load32 (mem s) (arg_address ebp (4 + 4 * of_nat k))"
    and "disjoint_ranges (arg_address ebp 4) (4 * n) p (4 * n)"
proof -
  have "N < 4294967296" using assms(2) usable_end_le [of s] unat_lt32 [of "heap_end s"] by (simp add: reserve_def)
  then have small: "4 * n < 4294967296" "4 * n \<le> 4294967296" using n by simp_all
  have sz: "unat (of_nat (4 * n) :: u_dword) = 4 * n" using small(1) by (rule unat_of_nat32)
  have "unat (of_nat (4 * n) :: u_dword) + 12 \<le> N" using n sz by simp
  from made_alloc [OF assms(1,2) this] obtain p s1 bs1 where a: "ralloc (of_nat (4 * n)) s = Inr (p, s1)"
    "made s bs p (of_nat (4 * n)) s1 bs1" "reserve s1 bs1 (N - (4 * n + 12))" unfolding sz .
  have dis: "disjoint_ranges (arg_address ebp 4) (4 * n) p (4 * n)"
    using held madeD(7) [OF a(2)] unfolding sz disjoint_ranges_def by blast
  let ?m = "extract_rounds ebp p n (mem s1)"
  have c: "dwords_copied (arg_address ebp 4) p n (mem s1) ?m" by (rule extract_rounds_copied [OF dis small(2)])
  have w: "made s bs p (of_nat (4 * n)) (s1\<lparr>mem := ?m\<rparr>) bs1" "reserve (s1\<lparr>mem := ?m\<rparr>) bs1 (N - (4 * n + 12))"
    using made_write [OF a(2), of ?m] c a(3) unfolding dwords_copied_def sz by simp_all
  have e: "extract_dword_args ebp (of_nat n) s = Inr (p, s1\<lparr>mem := ?m\<rparr>)"
  proof -
    have "(of_nat n * 4 :: u_dword) = of_nat (4 * n)" by simp
    moreover have "unat (of_nat n :: u_dword) = n" using small by (intro unat_of_nat32) simp
    ultimately show ?thesis using a(1) by (simp only: extract_dword_args_def and_then_Inr)
  qed
  have "load32 ?m (p + 4 * of_nat k) = load32 (mem s) (arg_address ebp (4 + 4 * of_nat k))" if "k < n" for k
  proof -
    have "load32 (mem s1) (arg_address ebp 4 + 4 * of_nat k) = load32 (mem s) (arg_address ebp 4 + 4 * of_nat k)"
      using in_range_slot [OF _ that small(2)] held madeD(6) [OF a(2)] by (intro load32_cong) blast
    moreover have "arg_address ebp 4 + 4 * of_nat k = arg_address ebp (4 + 4 * of_nat k)"
      by (simp add: arg_address_def add.assoc)
    ultimately show ?thesis using c that unfolding dwords_copied_def by metis
  qed
  then show thesis using that [OF e w _ dis] by simp
qed

section \<open>Delivery\<close>

text \<open>The stack bytes a call with \<open>n\<close> arguments writes.\<close>

definition call_bytes :: "'a kernel_state_scheme \<Rightarrow> nat \<Rightarrow> addr \<Rightarrow> bool" where
  "call_bytes s n x \<longleftrightarrow> in_range (extract_frame s + 8) (4 * (n + 1)) x \<or> in_range (system_frame s) (4 * (n + 1)) x"

text \<open>What the handler finds: the heap as the caller left it, and the arguments in the slots.\<close>

definition delivered ::
    "'a kernel_state_scheme \<Rightarrow> blocks \<Rightarrow> u_dword list \<Rightarrow> 'a kernel_state_scheme \<Rightarrow> bool" where
  "delivered s bs args s' \<longleftrightarrow> heap_ok s' bs \<and> heap_area s' = heap_area s \<and> s' = s\<lparr>mem := mem s'\<rparr> \<and>
     (\<forall>x. held_byte s' bs x \<longleftrightarrow> held_byte s bs x) \<and>
     (\<forall>x. held_byte s bs x \<longrightarrow> \<not> call_bytes s (length args) x \<longrightarrow> mem s' x = mem s x) \<and>
     (\<forall>k < length args. system_get_arg (system_frame s) (of_nat k) s' = args ! k) \<and>
     load32 (mem s') (system_frame s) = cpu_ebp s"

text \<open>
  Releasing a block after the state has changed in bytes that are not the allocator's own: the heap is as
  it was before the block was made.
\<close>

lemma release_back:
  fixes s s2 :: "'a heap_state_scheme"
  assumes ok: "heap_ok s bs" and made: "made s bs p n s1 bs1" and s2: "heap_ok s2 bs1"
    and area: "heap_area s2 = heap_area s1" and held: "\<And>x. held_byte s2 bs1 x \<longleftrightarrow> held_byte s1 bs1 x"
  obtains s3 where "unalloc p s2 = Inr ((), s3)" and "heap_ok s3 bs" and "heap_area s3 = heap_area s"
    and "s3 = s2\<lparr>mem := mem s3\<rparr>" and "\<And>x. held_byte s3 bs x \<longleftrightarrow> held_byte s bs x"
    and "\<And>x. held_byte s bs x \<Longrightarrow> mem s3 x = mem s2 x"
proof -
  note m1 = madeD [OF made]
  from low_heap.release_law [OF s2 m1(9)] obtain s3 bs3 m3 where r: "unalloc p s2 = Inr ((), s3)"
    "heap_ok s3 bs3" "mset bs1 = add_mset (p, n) (mset bs3)" "s3 = s2\<lparr>mem := m3\<rparr>"
    "\<And>x. held_byte s2 bs1 x \<Longrightarrow> mem s3 x = mem s2 x"
    "\<And>x. held_byte s3 bs3 x \<longleftrightarrow> held_byte s2 bs1 x \<and> \<not> in_range p (unat n) x" by blast
  have bs3: "bs3 = bs" using low_heap.blocks_unique [OF ok r(2)] r(3) m1(2) by simp
  show thesis
  proof (rule that [OF r(1) r(2) [unfolded bs3]])
    show "heap_area s3 = heap_area s" using low_heap.release_area [OF s2 m1(9) r(1)] area m1(10) by simp
    show "s3 = s2\<lparr>mem := mem s3\<rparr>" using r(4) by simp
    show "held_byte s3 bs x \<longleftrightarrow> held_byte s bs x" for x using r(6) held m1(7,8) unfolding bs3 by blast
    show "mem s3 x = mem s2 x" if "held_byte s bs x" for x using that r(5) held m1(8) by simp
  qed
qed

lemma call_system_delivers:
  fixes s :: "'a kernel_state_scheme"
  assumes ok: "heap_ok s bs" and N: "reserve s bs N" and n: "4 * length args + 12 \<le> N"
    and held: "\<And>x. call_bytes s (length args) x \<Longrightarrow> held_byte s bs x"
  obtains s' where "delivered s bs args s'"
    and "\<And>intr v. call_system intr v args s = and_then (intr v ((cpu s)\<lparr>regs_ebp := system_frame s\<rparr>) s')
      (\<lambda>c s. case c of Return \<Rightarrow> Inr ((), s) | Jump _ \<Rightarrow> Inl (Undefined s))"
proof -
  let ?n = "length args" and ?e = "extract_frame s" and ?sf = "system_frame s"
  have "N < 4294967296" using N usable_end_le [of s] unat_lt32 [of "heap_end s"] by (simp add: reserve_def)
  then have small: "4 * (?n + 1) \<le> 4294967296" "4 * ?n \<le> 4294967296" using n by simp_all
  have sub: "in_range a (4 * (?n + 1)) x" if "in_range (a + 4) (4 * ?n) x" for a x
    using that in_range_append [of 4 "4 * ?n" a x] small by simp
  define m0 where "m0 = push_dwords (?e + 8) (of_nat ?n # args) (mem s)"
  have m0: "m0 x = mem s x" if "\<not> in_range (?e + 8) (4 * (?n + 1)) x" for x
    unfolding m0_def using that small(1) by (intro push_dwords_outside) simp_all
  then have out0: "m0 x = mem s x" if "\<not> held_byte s bs x" for x using that held by (auto simp: call_bytes_def)
  let ?s0 = "s\<lparr>mem := m0\<rparr>"
  note w0 = held_write [OF ok, of m0, OF out0]
  have N0: "reserve ?s0 bs N" using w0(5) N by blast
  have area0: "heap_area ?s0 = heap_area s" using w0(3,4) by (simp add: heap_area_def)
  have arg: "held_byte ?s0 bs x" if "in_range (arg_address ?e 4) (4 * ?n) x" for x
  proof -
    have "arg_address ?e 4 = ?e + 8 + 4" by (simp add: arg_address_def)
    then have "in_range (?e + 8) (4 * (?n + 1)) x" using sub that by metis
    then show ?thesis using held w0(2) by (auto simp: call_bytes_def)
  qed
  obtain p s1 bs1 where
    ex: "extract_dword_args ?e (of_nat ?n) ?s0 = Inr (p, s1)" and made: "made ?s0 bs p (of_nat (4 * ?n)) s1 bs1"
    and at: "\<And>k. k < ?n \<Longrightarrow> load32 (mem s1) (p + 4 * of_nat k) = load32 m0 (arg_address ?e (4 + 4 * of_nat k))"
    by (rule extract_dword_args_made [OF w0(1) N0 n arg]) auto
  have sz: "unat (of_nat (4 * ?n) :: u_dword) = 4 * ?n" using small by (intro unat_of_nat32) simp
  have "disjoint_ranges p (4 * ?n) (?sf + 4) (4 * ?n)"
    using madeD(7) [OF made] held sub w0(2) unfolding sz disjoint_ranges_def call_bytes_def by blast
  then have cp: "dwords_copied p (?sf + 4) ?n (mem s1) (push_rounds p (?sf + 4) ?n (mem s1))" (is "dwords_copied _ _ _ _ ?m2")
    using small(2) by (rule push_rounds_copied)
  have out2: "?m2 x = mem s1 x" if "\<not> in_range (?sf + 4) (4 * ?n) x" for x using cp that by (simp add: dwords_copied_def)
  have "?m2 x = mem s1 x" if "\<not> held_byte s1 bs1 x" for x
    using that madeD(8) [OF made] held sub w0(2) out2 unfolding call_bytes_def by blast
  note w2 = held_write [OF madeD(1) [OF made], of ?m2, OF this]
  obtain s3 where r: "unalloc p (s1\<lparr>mem := ?m2\<rparr>) = Inr ((), s3)"
    "heap_ok s3 bs" "heap_area s3 = heap_area ?s0" "s3 = s1\<lparr>mem := ?m2\<rparr>\<lparr>mem := mem s3\<rparr>"
    "\<And>x. held_byte s3 bs x \<longleftrightarrow> held_byte ?s0 bs x" "\<And>x. held_byte ?s0 bs x \<Longrightarrow> mem s3 x = ?m2 x"
    by (rule release_back [OF w0(1) made w2(1) _ w2(2)]) (use w2(3,4) in \<open>simp_all add: heap_area_def\<close>)
  have s3: "s3 = s\<lparr>mem := mem s3\<rparr>" using r(4) madeD(5) [OF made] by auto
  define m4 where "m4 = store32 (mem s3) ?sf (cpu_ebp s)"
  have sf0: "in_range ?sf (4 * (?n + 1)) x" if "in_range ?sf 4 x" for x using that by (simp add: in_range_def)
  have out4: "m4 x = mem s3 x" if "\<not> in_range ?sf 4 x" for x unfolding m4_def using that by (rule store32_outside)
  have "m4 x = mem s3 x" if "\<not> held_byte s3 bs x" for x
    using that r(5) w0(2) held sf0 out4 unfolding call_bytes_def by blast
  note w4 = held_write [OF r(2), of m4, OF this]
  have s4: "s3\<lparr>mem := m4\<rparr> = s\<lparr>mem := m4\<rparr>" by (subst s3) simp
  have fields: "system_frame s1 = ?sf" "cpu_ebp s3 = cpu_ebp s" "system_frame s3 = ?sf" "cpu s3 = cpu s"
  proof -
    show "system_frame s1 = ?sf" using madeD(5) [OF made] by auto
    show "cpu_ebp s3 = cpu_ebp s" "system_frame s3 = ?sf" "cpu s3 = cpu s" by (subst s3; simp)+
  qed
  have "delivered s bs args (s\<lparr>mem := m4\<rparr>)"
    unfolding delivered_def
  proof (intro conjI allI impI)
    show "heap_ok (s\<lparr>mem := m4\<rparr>) bs" using w4(1) unfolding s4 .
    show "heap_area (s\<lparr>mem := m4\<rparr>) = heap_area s"
      using w4(3,4) r(3) area0 unfolding s4 by (simp add: heap_area_def)
    show "held_byte (s\<lparr>mem := m4\<rparr>) bs x \<longleftrightarrow> held_byte s bs x" for x using w4(2) r(5) w0(2) unfolding s4 by simp
    show "load32 (mem (s\<lparr>mem := m4\<rparr>)) ?sf = cpu_ebp s" by (simp add: m4_def)
    show "mem (s\<lparr>mem := m4\<rparr>) x = mem s x" if "held_byte s bs x" "\<not> call_bytes s ?n x" for x
    proof -
      have "mem s3 x = ?m2 x" "mem s1 x = m0 x" using that(1) w0(2) r(6) madeD(6) [OF made] by simp_all
      moreover have "\<not> in_range ?sf 4 x" "\<not> in_range (?sf + 4) (4 * ?n) x" "\<not> in_range (?e + 8) (4 * (?n + 1)) x"
        using that(2) sub sf0 unfolding call_bytes_def by blast+
      ultimately show ?thesis using out4 out2 m0 by simp
    qed
    show "system_get_arg ?sf (of_nat k) (s\<lparr>mem := m4\<rparr>) = args ! k" if "k < ?n" for k
    proof -
      have e: "?sf + 4 + of_nat k * 4 = ?sf + 4 * of_nat (Suc k)" "?sf + 4 + of_nat k * 4 = ?sf + 4 + 4 * of_nat k"
        "arg_address ?e (4 + 4 * of_nat k) = ?e + 8 + 4 * of_nat (Suc k)"
        by (simp_all add: arg_address_def algebra_simps)
      have "disjoint_ranges (?sf + 4 * of_nat 0) 4 (?sf + 4 * of_nat (Suc k)) 4"
        using that small(1) by (intro slots_apart [where n = "?n + 1"]) simp_all
      then have "load32 m4 (?sf + 4 + of_nat k * 4) = load32 (mem s3) (?sf + 4 + of_nat k * 4)"
        unfolding e(1) m4_def by (intro load32_store32_other) simp
      also have "\<dots> = load32 ?m2 (?sf + 4 + of_nat k * 4)" unfolding e(2)
      proof (rule load32_cong)
        fix x
        assume "in_range (?sf + 4 + 4 * of_nat k) 4 x"
        then have "call_bytes s ?n x" using in_range_slot [OF _ that small(2)] sub unfolding call_bytes_def by blast
        then show "mem s3 x = ?m2 x" using held r(6) w0(2) by simp
      qed
      also have "\<dots> = load32 m0 (?e + 8 + 4 * of_nat (Suc k))"
        using cp at [OF that] that unfolding e(2,3) dwords_copied_def by simp
      also have "\<dots> = args ! k" unfolding m0_def using that small(1) by (subst load_push_dwords) simp_all
      finally show ?thesis by (simp add: system_get_arg_def)
    qed
  qed simp
  then show thesis
  proof (rule that)
    show "call_system intr v args s = and_then (intr v ((cpu s)\<lparr>regs_ebp := ?sf\<rparr>) (s\<lparr>mem := m4\<rparr>))
      (\<lambda>c s. case c of Return \<Rightarrow> Inr ((), s) | Jump _ \<Rightarrow> Inl (Undefined s))" for intr v
      using ex r(1) fields s4 by (simp add: call_system_def Let_def m0_def [symmetric] m4_def [symmetric] del: push_dwords.simps)
  qed
qed

text \<open>The variant with a result reads the slot of the last argument.\<close>

lemma pop_rounds_last: "pop_rounds esp (Suc k) m v = load32 m (esp + 4 * of_nat k)"
proof (induction k arbitrary: esp v)
  case (Suc k)
  have "pop_rounds esp (Suc (Suc k)) m v = pop_rounds (esp + 4) (Suc k) m (load32 m esp)" by simp
  then show ?case unfolding Suc.IH by (simp add: algebra_simps)
qed simp

lemma call_system_ret_eq:
  assumes "call_system intr v args s = and_then r (\<lambda>c s. case c of Return \<Rightarrow> Inr ((), s) | Jump _ \<Rightarrow> Inl (Undefined s))"
    and "args \<noteq> []"
  shows "call_system_ret intr v ret args s = and_then r (\<lambda>c t. case c of
    Return \<Rightarrow> Inr (load32 (mem t) (system_frame t + 4 * of_nat (length args)), t) | Jump _ \<Rightarrow> Inl (Undefined t))"
proof -
  obtain k where k: "length args = Suc k" using assms(2) by (cases args) auto
  have "pop_rounds (system_frame t + 4) (length args) (mem t) ret = load32 (mem t) (system_frame t + 4 * of_nat (length args))"
    for t :: "'a kernel_state_scheme"
    unfolding k pop_rounds_last by (simp add: algebra_simps)
  then show ?thesis unfolding call_system_ret_def assms(1) and_then_assoc
    by (auto simp: and_then_def split: sum.splits control.splits)
qed

end
