(* ===== verification/Floats.thy ===== *)
theory Floats
  imports Format
begin

text \<open>
  Floating-point numbers as text (\<^verbatim>\<open>float_to_string\<close> of \<^verbatim>\<open>lib/base/format.c\<close>), over the floating-point unit as a parameter.
\<close>

section \<open>Joining and releasing\<close>

lemma new_string_suffix:
  assumes "new_string s bs M xs res" and "held_string s bs lit ys"
    and small: "length xs + length ys + 1 < 2 ^ 31" and N: "N + (length xs + length ys + 13) \<le> M"
    and lit: "\<And>s'. literal s' = literal s \<Longrightarrow> lit = f s'"
  shows "new_string s bs N (xs @ ys) (and_then res (\<lambda>a s'. and_then (concatenate a (f s') s') (\<lambda>r s.
    and_then (unalloc a s) (\<lambda>_ s. Inr (r, s)))))"
proof -
  obtain a s1 bs1 where a: "res = Inr (a, s1)" "made s bs a (of_nat (length xs + 1)) s1 bs1" "reserve s1 bs1 M" "held_string s1 bs1 a xs"
    by (rule new_string_cases [OF assms(1)]) (use small in auto)
  have f: "f s1 = lit" using lit [OF made_literal [OF a(2)]] by simp
  let ?n = "of_nat (length xs + length ys + 1) :: u_dword"
  have n: "unat ?n = length xs + length ys + 1" using small by (intro unat_of_nat32) simp
  have "length xs + length ys + 13 \<le> M" using N by simp
  from concatenate_made [OF madeD(1) [OF a(2)] a(4) held_string_made [OF assms(2) a(2)] small a(3) this]
  obtain r s2 bs2 where c: "concatenate a lit s1 = Inr (r, s2)" "made s1 bs1 r ?n s2 bs2"
    "reserve s2 bs2 (M - (length xs + length ys + 13))" "cstring (mem s2) r (xs @ ys)" .
  have "length (xs @ ys) < unat ?n" unfolding n by simp
  note held = made_holds [OF c(2,4) this]
  from made_free [OF a(2) c(2)] obtain s3 bs3 where u: "unalloc a s2 = Inr ((), s3)" "made s bs r ?n s3 bs3"
    "\<And>N. reserve s2 bs2 N \<Longrightarrow> reserve s3 bs3 N" "\<And>x. held_byte s2 bs2 x \<Longrightarrow> mem s3 x = mem s2 x" by blast
  have "cstring (mem s3) r (xs @ ys)"
    using held u(4) cstring_cong [of "xs @ ys" "mem s3" r "mem s2"] by (simp add: held_string_def)
  then show ?thesis
    using N u c(1,3) by (intro new_stringI [where M = "M - (length xs + length ys + 13)"]) (auto simp: a(1) f)
qed

text \<open>As \<open>free_concat\<close>, but the second string is released first.\<close>

definition concat_free :: "addr \<Rightarrow> addr \<Rightarrow> 'a heap_state_scheme \<Rightarrow> ('a heap_state_scheme, addr) result" where
  "concat_free full part s = and_then (concatenate full part s) (\<lambda>result s.
     and_then (unalloc part s) (\<lambda>_ s. and_then (unalloc full s) (\<lambda>_ s. Inr (result, s))))"

lemma new_string_join:
  assumes "new_string s bs M xs res" and more: "\<And>s' bs'. literal s' = literal s \<Longrightarrow> heap_ok s' bs' \<Longrightarrow> reserve s' bs' M \<Longrightarrow> new_string s' bs' M' ys (g s')"
    and small: "length xs + length ys + 1 < 2 ^ 31" and N: "N + (length xs + length ys + 13) \<le> M'"
  shows "new_string s bs N (xs @ ys) (and_then res (\<lambda>a s. and_then (g s) (\<lambda>b s. concat_free a b s)))"
proof -
  obtain a s1 bs1 where a: "res = Inr (a, s1)" "made s bs a (of_nat (length xs + 1)) s1 bs1" "reserve s1 bs1 M" "held_string s1 bs1 a xs"
    by (rule new_string_cases [OF assms(1)]) (use small in auto)
  obtain b s2 bs2 where b: "g s1 = Inr (b, s2)" "made s1 bs1 b (of_nat (length ys + 1)) s2 bs2" "reserve s2 bs2 M'" "held_string s2 bs2 b ys"
    by (rule new_string_cases [OF assms(2) [OF made_literal [OF a(2)] madeD(1) [OF a(2)] a(3)]]) (use small in auto)
  let ?n = "of_nat (length xs + length ys + 1) :: u_dword"
  have n: "unat ?n = length xs + length ys + 1" using small by (intro unat_of_nat32) simp
  have room: "length xs + length ys + 13 \<le> M'" using N by simp
  from concatenate_made [OF madeD(1) [OF b(2)] held_string_made [OF a(4) b(2)] b(4) small b(3) room]
  obtain r s3 bs3 where c: "concatenate a b s2 = Inr (r, s3)" "made s2 bs2 r ?n s3 bs3"
    "reserve s3 bs3 (M' - (length xs + length ys + 13))" "cstring (mem s3) r (xs @ ys)" .
  have "length (xs @ ys) < unat ?n" unfolding n by simp
  note held = made_holds [OF c(2,4) this]
  from made_free [OF b(2) c(2)] obtain s4 bs4 where u: "unalloc b s3 = Inr ((), s4)" "made s1 bs1 r ?n s4 bs4"
    "\<And>N. reserve s3 bs3 N \<Longrightarrow> reserve s4 bs4 N" "\<And>x. held_byte s3 bs3 x \<Longrightarrow> mem s4 x = mem s3 x" by blast
  have str4: "cstring (mem s4) r (xs @ ys)"
    using held u(4) cstring_cong [of "xs @ ys" "mem s4" r "mem s3"] by (simp add: held_string_def)
  have "length (xs @ ys) < unat ?n" unfolding n by simp
  note held4 = made_holds [OF u(2) str4 this]
  from made_free [OF a(2) u(2)] obtain s5 bs5 where w: "unalloc a s4 = Inr ((), s5)" "made s bs r ?n s5 bs5"
    "\<And>N. reserve s4 bs4 N \<Longrightarrow> reserve s5 bs5 N" "\<And>x. held_byte s4 bs4 x \<Longrightarrow> mem s5 x = mem s4 x" by blast
  have "cstring (mem s5) r (xs @ ys)"
    using held4 w(4) cstring_cong [of "xs @ ys" "mem s5" r "mem s4"] by (simp add: held_string_def)
  then show ?thesis
    using N c(1,3) u(1,3) w by (intro new_stringI [where M = "M' - (length xs + length ys + 13)"]) (auto simp: a(1) b(1) concat_free_def)
qed

section \<open>The text of a number\<close>

text \<open>The integral part, a point, and the fraction as an integer: without the zeros that should lead it.\<close>

definition scaled_fraction :: "fpu \<Rightarrow> u_qword \<Rightarrow> nat \<Rightarrow> u_dword" where
  "scaled_fraction fp b k =
     fpu_to_dword fp (((\<lambda>x. fpu_mul fp x (fpu_of_dword fp 10)) ^^ k) (fpu_sub fp b (fpu_of_dword fp (fpu_to_dword fp b))))"

definition float_chars :: "fpu \<Rightarrow> u_qword \<Rightarrow> nat \<Rightarrow> u_byte list" where
  "float_chars fp b k = (if fpu_less fp b (fpu_of_dword fp 0) then chars ''-'' else []) @
     numeral_chars DECIMAL (unat (fpu_to_dword fp b)) @ chars ''.'' @ numeral_chars DECIMAL (unat (scaled_fraction fp b k))"

text \<open>What the code can print: a zero part leaves its only digit unwritten (lemma \<open>int_to_string_zero\<close>).\<close>

definition float_ok :: "fpu \<Rightarrow> u_qword \<Rightarrow> nat \<Rightarrow> bool" where
  "float_ok fp b k \<longleftrightarrow> fpu_to_dword fp b \<noteq> 0 \<and> scaled_fraction fp b k \<noteq> 0"

lemma scale_rounds_funpow: "scale_rounds fp n x = ((\<lambda>x. fpu_mul fp x (fpu_of_dword fp 10)) ^^ n) x"
  by (induction n arbitrary: x) (simp_all add: funpow_Suc_right comp_def del: funpow.simps(2))

lemma float_to_string_eq:
  assumes "after_comma \<noteq> 0"
  shows "float_to_string fp b after_comma s =
    and_then (and_then (and_then (int_to_string (fpu_to_dword fp b) DECIMAL s) (\<lambda>a s.
          and_then (concatenate a (literal s ''.'') s) (\<lambda>r s. and_then (unalloc a s) (\<lambda>_ s. Inr (r, s)))))
        (\<lambda>full s. and_then (int_to_string (scaled_fraction fp b (unat after_comma)) DECIMAL s) (\<lambda>part s. concat_free full part s)))
      (\<lambda>result s. if fpu_less fp b (fpu_of_dword fp 0) then
          and_then (concatenate (literal s ''-'') result s) (\<lambda>signum s. and_then (unalloc result s) (\<lambda>_ s. Inr (signum, s)))
        else Inr (result, s))"
  using assms by (simp add: float_to_string_def scaled_fraction_def scale_rounds_funpow concat_free_def and_then_assoc Let_def)

lemma float_to_string_made:
  assumes "heap_ok s bs" and "literals_held s bs" and N: "reserve s bs (N + 141)" and "k \<noteq> 0" and "float_ok fp b (unat k)"
  shows "new_string s bs N (float_chars fp b (unat k)) (float_to_string fp b k s)"
proof -
  let ?i = "fpu_to_dword fp b" and ?f = "scaled_fraction fp b (unat k)"
  let ?xs = "numeral_chars DECIMAL (unat ?i)" and ?ys = "numeral_chars DECIMAL (unat ?f)"
  have pos: "0 < ?i" "0 < ?f" using assms(5) by (simp_all add: float_ok_def word_neq_0_conv)
  have dot: "held_string s bs (literal s ''.'') (chars ''.'')" "held_string s bs (literal s ''-'') (chars ''-'')"
    by (rule literals_heldD [OF assms(2)]; simp add: format_literals_def)+
  have "reserve s bs ((N + 118) + 23)" using N by (simp add: add.assoc)
  note int = int_to_string_decimal [OF assms(1) pos(1) this]
  have "new_string s bs (N + 94) (?xs @ chars ''.'') (and_then (int_to_string ?i DECIMAL s) (\<lambda>a s.
      and_then (concatenate a (literal s ''.'') s) (\<lambda>r s. and_then (unalloc a s) (\<lambda>_ s. Inr (r, s)))))"
    by (rule new_string_suffix [OF int(1) dot(1)]) (use int(2) in \<open>simp_all add: chars_def\<close>)
  note full = this
  have part: "new_string s' bs' (N + 71) ?ys (int_to_string ?f DECIMAL s')" "length ?ys \<le> 10"
    if "heap_ok s' bs'" "reserve s' bs' (N + 94)" for s' :: "'a heap_state_scheme" and bs'
  proof -
    have "reserve s' bs' ((N + 71) + 23)" using that(2) by (simp add: add.assoc)
    from int_to_string_decimal [OF that(1) pos(2) this]
    show "new_string s' bs' (N + 71) ?ys (int_to_string ?f DECIMAL s')" "length ?ys \<le> 10" .
  qed
  have "length ?ys \<le> 10" by (rule part(2) [OF assms(1) reserve_mono [OF N]]) simp
  note l = int(2) this
  have "new_string s bs (N + 37) ((?xs @ chars ''.'') @ ?ys) (and_then (and_then (int_to_string ?i DECIMAL s) (\<lambda>a s.
        and_then (concatenate a (literal s ''.'') s) (\<lambda>r s. and_then (unalloc a s) (\<lambda>_ s. Inr (r, s)))))
      (\<lambda>full s. and_then (int_to_string ?f DECIMAL s) (\<lambda>part s. concat_free full part s)))" (is "new_string s bs (N + 37) ?zs ?res")
    by (rule new_string_join [OF full part(1)]) (use l in \<open>simp_all add: chars_def\<close>)
  note joined = this
  show ?thesis
  proof (cases "fpu_less fp b (fpu_of_dword fp 0)")
    case True
    have "new_string s bs N (chars ''-'' @ ?zs) (and_then ?res (\<lambda>a s'. and_then (concatenate (literal s' ''-'') a s') (\<lambda>r s.
        and_then (unalloc a s) (\<lambda>_ s. Inr (r, s)))))"
      by (rule new_string_prefix [OF joined dot(2)]) (use l in \<open>simp_all add: chars_def\<close>)
    then show ?thesis unfolding float_to_string_eq [OF assms(4)] using True by (simp add: float_chars_def)
  next
    case False
    then show ?thesis
      unfolding float_to_string_eq [OF assms(4)] using new_string_mono [OF joined, of N] by (simp add: float_chars_def and_then_return)
  qed
qed

section \<open>Properties\<close>

text \<open>
  A unit for the witnesses: unsigned fixed-point numbers with 32 bits behind the point.
\<close>

definition fixed_point :: fpu where
  "fixed_point = \<lparr>fpu_to_dword = (\<lambda>x. ucast (drop_bit 32 x)), fpu_of_dword = (\<lambda>n. push_bit 32 (ucast n)),
     fpu_sub = (\<lambda>x y. x - y), fpu_mul = (\<lambda>x y. of_nat ((unat x * unat y) div 2 ^ 32)), fpu_less = (\<lambda>x y. x < y)\<rparr>"

lemma fixed_point_text:
  "float_ok fixed_point 0x110000000 4" "float_chars fixed_point 0x110000000 4 = chars ''1.625''"
proof -
  have f: "scaled_fraction fixed_point 0x110000000 4 = 625"
  proof -
    have "(g ^^ 4) x = g (g (g (g x)))" for g :: "u_qword \<Rightarrow> u_qword" and x by (simp add: eval_nat_numeral)
    moreover have "fpu_of_dword fixed_point 10 = 0xa00000000"
      "fpu_sub fixed_point 0x110000000 (fpu_of_dword fixed_point (fpu_to_dword fixed_point 0x110000000)) = 0x10000000"
      by (simp_all add: fixed_point_def)
    moreover have "fpu_mul fixed_point 0x10000000 0xa00000000 = 0xa0000000" "fpu_mul fixed_point 0xa0000000 0xa00000000 = 0x640000000"
      "fpu_mul fixed_point 0x640000000 0xa00000000 = 0x3e80000000" "fpu_mul fixed_point 0x3e80000000 0xa00000000 = 0x27100000000"
      "fpu_to_dword fixed_point 0x27100000000 = 625"
      by (simp_all add: fixed_point_def)
    ultimately show ?thesis by (simp only: scaled_fraction_def)
  qed
  have i: "fpu_to_dword fixed_point 0x110000000 = 1" "\<not> fpu_less fixed_point 0x110000000 (fpu_of_dword fixed_point 0)"
    by (simp_all add: fixed_point_def)
  have d: "digits 10 1 = [1]" "digits 10 625 = [6, 2, 5]"
    by (subst digits.simps, subst digits.simps, simp) (subst digits.simps, subst digits.simps, subst digits.simps, subst digits.simps, simp)
  show "float_ok fixed_point 0x110000000 4" by (simp add: float_ok_def f i)
  show "float_chars fixed_point 0x110000000 4 = chars ''1.625''"
    by (simp add: float_chars_def f i numeral_chars_def base_def d [unfolded One_nat_def] chars_def of_char_def)
qed



end
