(* ===== verification/Formatter.thy ===== *)
theory Formatter
  imports Floats
begin

text \<open>
  \<^verbatim>\<open>format\<close> of \<^verbatim>\<open>lib/base/format.c\<close> against the specification of its template language.
\<close>

section \<open>Directives\<close>

text \<open>
  What a directive letter makes of an argument slot with value \<open>v\<close>; \<open>txt p\<close> is the string at \<open>p\<close>.
  The floating-point letter takes two slots and is treated below.
\<close>

definition render :: "(addr \<Rightarrow> u_byte list) \<Rightarrow> u_byte \<Rightarrow> u_dword \<Rightarrow> u_byte list option" where
  "render txt letter v =
     (if letter = of_char (CHR ''l'') then Some (chars (if (ucast v :: u_byte) \<noteq> 0 then ''true'' else ''false''))
      else if letter = of_char (CHR ''p'') then Some (pointer_chars v)
      else if letter = of_char (CHR ''d'') then Some (number_chars DECIMAL v)
      else if letter = of_char (CHR ''h'') then Some (number_chars HEXADECIMAL v)
      else if letter = of_char (CHR ''b'') then Some (number_chars BINARY v)
      else if letter = of_char (CHR ''c'') then Some (if (ucast v :: u_byte) = 0 then [] else [ucast v])
      else if letter = of_char (CHR ''s'') then Some (txt v)
      else None)"

text \<open>
  The demands on one argument: a string has to be in memory, and the smallest number has no negation.
\<close>

definition numeric :: "u_byte \<Rightarrow> bool" where
  "numeric letter \<longleftrightarrow> letter = of_char (CHR ''d'') \<or> letter = of_char (CHR ''h'') \<or> letter = of_char (CHR ''b'')"

definition arg_ok :: "(addr \<Rightarrow> u_byte list) \<Rightarrow> 'a heap_state_scheme \<Rightarrow> blocks \<Rightarrow> u_byte \<Rightarrow> u_dword \<Rightarrow> bool" where
  "arg_ok txt s bs letter v \<longleftrightarrow>
     (letter = of_char (CHR ''s'') \<longrightarrow> held_string s bs v (txt v) \<and> length (txt v) + 1 < 2 ^ 31) \<and>
     (numeric letter \<longrightarrow> v \<noteq> 0x80000000)"

lemma low_byte_of_load: "(ucast (load32 m a) :: u_byte) = m a"
  by (rule bit_word_eqI) (auto simp: load32_def bit_ucast_iff bit_or_iff bit_push_bit_iff)

text \<open>A conversion leaves a string in a new block, which may be longer than the string, and advances by \<open>sz\<close>.\<close>

definition converts :: "'a heap_state_scheme \<Rightarrow> blocks \<Rightarrow> nat \<Rightarrow> u_byte list \<Rightarrow> u_dword \<Rightarrow>
    ('a heap_state_scheme, (addr \<times> u_dword) option) result \<Rightarrow> bool" where
  "converts s bs N xs sz res \<longleftrightarrow> (\<exists>r s' bs' n. res = Inr (Some (r, sz), s') \<and> made s bs r n s' bs' \<and>
     reserve s' bs' N \<and> held_string s' bs' r xs)"

lemma give_new:
  assumes "new_string s bs N xs res" and "length xs + 1 < 2 ^ 31"
  shows "converts s bs N xs k (and_then res (\<lambda>str s. Inr (Some (str, k), s)))"
  by (rule new_string_cases [OF assms]) (auto simp: converts_def)

lemma letter_distinct:
  "(of_char (CHR ''l'') :: u_byte) = 108" "(of_char (CHR ''p'') :: u_byte) = 112" "(of_char (CHR ''d'') :: u_byte) = 100"
  "(of_char (CHR ''h'') :: u_byte) = 104" "(of_char (CHR ''b'') :: u_byte) = 98" "(of_char (CHR ''f'') :: u_byte) = 102"
  "(of_char (CHR ''c'') :: u_byte) = 99" "(of_char (CHR ''s'') :: u_byte) = 115" "(of_char (CHR ''%'') :: u_byte) = 37"
  by (simp_all add: of_char_def)

lemma max_dword_simps: "max_dword 1 4 = 4" "max_dword 4 4 = 4" "max_dword 8 4 = 8"
  by (simp_all add: max_dword_def)

lemma convert_known:
  assumes "heap_ok s bs" and "literals_held s bs" and "arg_ok txt s bs letter v" and v: "v = load32 (mem s) arg"
    and "render txt letter v = Some xs" and N: "reserve s bs (N + 141 + length xs)" and small: "length xs + 1 < 2 ^ 31"
    and f: "letter \<noteq> 102"
  shows "converts s bs N xs 4 (convert fp letter arg s)"
proof -
  have N': "reserve s bs (N + 141)" "reserve s bs (N + 20)" using reserve_mono [OF N] by simp_all
  note byte = low_byte_of_load [of "mem s" arg, folded v]
  have min: "v \<noteq> 0x80000000" if "letter = 100 \<or> letter = 104 \<or> letter = 98"
    using assms(3) that by (auto simp: arg_ok_def numeric_def letter_distinct)
  consider "letter = 108" | "letter = 112" | "letter = 100" | "letter = 104" | "letter = 98" | "letter = 99" | "letter = 115"
    using assms(5) by (auto simp: render_def letter_distinct split: if_splits)
  then show ?thesis
  proof cases
    case 1
    have "new_string s bs N xs (boolean_to_string (mem s arg \<noteq> 0) s)"
      using assms(5) 1 const_literal_made [OF assms(1,2) _ N'(2), of "''true''"]
        const_literal_made [OF assms(1,2) _ N'(2), of "''false''"]
      by (auto simp: render_def letter_distinct boolean_to_string_def byte format_literals_def split: if_splits)
    from give_new [OF this small, of 4] 1 show ?thesis by (simp add: convert_def letter_distinct max_dword_simps)
  next
    case 2
    from give_new [OF pointer_to_string_made [OF assms(1,2) N'(1), of v], of 4] assms(5) 2 small show ?thesis
      by (auto simp: convert_def letter_distinct max_dword_simps render_def v)
  next
    case 3
    have "v \<noteq> 0x80000000" by (rule min) (simp add: 3)
    from give_new [OF number_to_string_made [OF assms(1,2) N'(1) this, of DECIMAL], of 4] assms(5) 3 small show ?thesis
      by (auto simp: convert_def letter_distinct max_dword_simps render_def v)
  next
    case 4
    have "v \<noteq> 0x80000000" by (rule min) (simp add: 4)
    from give_new [OF number_to_string_made [OF assms(1,2) N'(1) this, of HEXADECIMAL], of 4] assms(5) 4 small show ?thesis
      by (auto simp: convert_def letter_distinct max_dword_simps render_def v)
  next
    case 5
    have "v \<noteq> 0x80000000" by (rule min) (simp add: 5)
    from give_new [OF number_to_string_made [OF assms(1,2) N'(1) this, of BINARY], of 4] assms(5) 5 small show ?thesis
      by (auto simp: convert_def letter_distinct max_dword_simps render_def v)
  next
    case 6
    have "14 \<le> N + 20" and xs: "xs = (if mem s arg = 0 then [] else [mem s arg])"
      using assms(5) 6 byte by (auto simp: letter_distinct render_def)
    from char_to_string_made [OF assms(1) N'(2) this(1), of "mem s arg"] obtain r s' bs' where
      c: "char_to_string (mem s arg) s = Inr (r, s')" "made s bs r 2 s' bs'" "reserve s' bs' (N + 20 - 14)"
      "cstring (mem s') r xs" unfolding xs .
    have "length xs < unat (2 :: u_dword)" by (simp add: xs)
    from made_holds [OF c(2,4) this] reserve_mono [OF c(3), of N] c(1,2) show ?thesis
      using 6 by (auto simp: convert_def letter_distinct max_dword_simps converts_def)
  next
    case 7
    have xs: "xs = txt v" and held: "held_string s bs v xs" "length xs + 1 < 2 ^ 31"
      using assms(3,5) 7 by (auto simp: arg_ok_def letter_distinct render_def)
    have le: "length xs + 13 \<le> N + 141 + length xs" by simp
    from const_to_string_made [OF assms(1) held N le] obtain r s' bs' where
      "const_to_string v s = Inr (r, s')" "made s bs r (of_nat (length xs + 1)) s' bs'"
      "reserve s' bs' (N + 141 + length xs - (length xs + 13))" "cstring (mem s') r xs" .
    then have "new_string s bs N xs (const_to_string v s)"
      by (intro new_stringI [where M = "N + 141 + length xs - (length xs + 13)"]) auto
    from give_new [OF this small, of 4] 7 show ?thesis by (simp add: convert_def letter_distinct max_dword_simps v)
  qed
qed

lemma convert_float:
  assumes "heap_ok s bs" and "literals_held s bs" and "float_ok fp (load64 (mem s) arg) 4"
    and "xs = float_chars fp (load64 (mem s) arg) 4" and N: "reserve s bs (N + 141 + length xs)" and "length xs + 1 < 2 ^ 31"
  shows "converts s bs N xs 8 (convert fp 102 arg s)"
proof -
  have "new_string s bs N xs (float_to_string fp (load64 (mem s) arg) 4 s)"
    using float_to_string_made [OF assms(1,2), of N 4 fp "load64 (mem s) arg"] reserve_mono [OF N] assms(3,4) by simp
  from give_new [OF this assms(6), of 8] show ?thesis by (simp add: convert_def letter_distinct max_dword_simps)
qed

lemma convert_unknown:
  assumes "render txt letter v = None" and "letter \<noteq> 102"
  shows "convert fp letter arg s = Inr (None, s)"
  using assms by (auto simp: convert_def render_def letter_distinct Let_def split: if_splits)

section \<open>The formatter against its specification\<close>

text \<open>
  The specification: characters are copied, a known directive is replaced by its rendering of the
  next argument (for \<^verbatim>\<open>%f\<close>, letter 102, of the next two slots, with four places), an unknown directive and a per cent sign
  at the end are copied.
\<close>

definition slots64 :: "(nat \<Rightarrow> u_dword) \<Rightarrow> nat \<Rightarrow> u_qword" where
  "slots64 arg k = ucast (arg k) OR push_bit 32 (ucast (arg (k + 1)))"

fun spec_format :: "fpu \<Rightarrow> (addr \<Rightarrow> u_byte list) \<Rightarrow> (nat \<Rightarrow> u_dword) \<Rightarrow> u_byte list \<Rightarrow> nat \<Rightarrow> u_byte list" where
  "spec_format fp txt arg [] k = []"
| "spec_format fp txt arg [x] k = [x]"
| "spec_format fp txt arg (x # y # xs) k =
     (if x = 37 then
        (if y = 102 then float_chars fp (slots64 arg k) 4 @ spec_format fp txt arg xs (k + 2)
         else case render txt y (arg k) of
           Some zs \<Rightarrow> zs @ spec_format fp txt arg xs (Suc k)
         | None \<Rightarrow> 37 # spec_format fp txt arg (y # xs) k)
      else x # spec_format fp txt arg (y # xs) k)"

text \<open>The value of argument slot \<open>k\<close>, and the demands on the slots a template uses.\<close>

definition slot_address :: "addr \<Rightarrow> nat \<Rightarrow> addr" where
  "slot_address ebp k = arg_address ebp (4 + 4 * of_nat k)"

definition stack_arg :: "'a heap_state_scheme \<Rightarrow> addr \<Rightarrow> nat \<Rightarrow> u_dword" where
  "stack_arg s ebp k = load32 (mem s) (slot_address ebp k)"

definition slot_held :: "'a heap_state_scheme \<Rightarrow> blocks \<Rightarrow> addr \<Rightarrow> nat \<Rightarrow> bool" where
  "slot_held s bs ebp k \<longleftrightarrow> (\<forall>x. in_range (slot_address ebp k) 4 x \<longrightarrow> held_byte s bs x)"

fun args_ok :: "fpu \<Rightarrow> (addr \<Rightarrow> u_byte list) \<Rightarrow> 'a heap_state_scheme \<Rightarrow> blocks \<Rightarrow> addr \<Rightarrow> u_byte list \<Rightarrow> nat \<Rightarrow> bool" where
  "args_ok fp txt s bs ebp [] k \<longleftrightarrow> True"
| "args_ok fp txt s bs ebp [x] k \<longleftrightarrow> True"
| "args_ok fp txt s bs ebp (x # y # xs) k \<longleftrightarrow>
     (if x = 37 then
        (if y = 102 then float_ok fp (slots64 (stack_arg s ebp) k) 4 \<and>
           slot_held s bs ebp k \<and> slot_held s bs ebp (k + 1) \<and> args_ok fp txt s bs ebp xs (k + 2)
         else arg_ok txt s bs y (stack_arg s ebp k) \<and>
           (case render txt y (stack_arg s ebp k) of
              Some zs \<Rightarrow> slot_held s bs ebp k \<and> args_ok fp txt s bs ebp xs (Suc k)
            | None \<Rightarrow> args_ok fp txt s bs ebp (y # xs) k))
      else args_ok fp txt s bs ebp (y # xs) k)"

lemma spec_format_plain: "x \<noteq> 37 \<Longrightarrow> spec_format fp txt arg (x # xs) k = x # spec_format fp txt arg xs k"
  by (cases xs) simp_all

lemma args_ok_plain: "x \<noteq> 37 \<Longrightarrow> args_ok fp txt s bs ebp (x # xs) k \<longleftrightarrow> args_ok fp txt s bs ebp xs k"
  by (cases xs) simp_all

lemma stack_arg_grown:
  assumes "slot_held s bs ebp k" and "grown s bs A s' bs'"
  shows "stack_arg s' ebp k = stack_arg s ebp k"
  unfolding stack_arg_def
  using assms(1) grownD(4) [OF assms(2)] unfolding slot_held_def by (intro load32_cong) blast

lemma arg_ok_grown: "arg_ok txt s bs letter v \<Longrightarrow> grown s bs A s' bs' \<Longrightarrow> arg_ok txt s' bs' letter v"
  using held_string_grown by (auto simp: arg_ok_def)

lemma literals_held_grown:
  assumes "literals_held s bs" and "grown s bs A s' bs'"
  shows "literals_held s' bs'"
proof -
  have "literal s' = literal s" using grownD(3) [OF assms(2)] by auto
  then show ?thesis using assms held_string_grown unfolding literals_held_def by metis
qed

lemma sint_of_nat: "n < 2 ^ 31 \<Longrightarrow> sint (of_nat n :: u_dword) = int n"
proof -
  assume n: "n < 2 ^ 31"
  then have u: "uint (of_nat n :: u_dword) = int n" by (simp add: uint_nat unat_of_nat32)
  then show ?thesis using uint_of_sint [of "of_nat n"] n by (auto split: if_splits)
      (use sint_range_size [of "of_nat n :: u_dword"] in \<open>simp add: word_size\<close>)
qed

text \<open>One turn of the loop on a per cent sign: the pending characters are appended to the result.\<close>

lemma append_pending:
  assumes made: "made s0 bs0 res (of_nat (length R + 1)) s bs" and held: "held_string s bs res R"
    and temp: "held_string s0 bs0 template xs" and "pr \<le> j" and "j \<le> length xs"
    and small: "length xs + 1 < 2 ^ 31" "length R + (j - pr) + 1 < 2 ^ 31"
    and N: "reserve s bs (N + (j - pr + 13) + (length R + (j - pr) + 13))"
  shows "new_string s0 bs0 N (R @ take (j - pr) (drop pr xs))
    (and_then (substring_mid template (sint (of_nat pr :: u_dword)) (int j) s) (\<lambda>part s. free_concat res part s))"
proof -
  let ?mid = "take (j - pr) (drop pr xs)"
  have lm: "length ?mid = j - pr" using assms(4,5) by simp
  have pr: "sint (of_nat pr :: u_dword) = int pr" using assms(4,5) small(1) by (intro sint_of_nat) simp
  have le: "j - pr + 13 \<le> N + (j - pr + 13) + (length R + (j - pr) + 13)" by simp
  from substring_slice [OF madeD(1) [OF made] held_string_made [OF temp made] assms(4,5) small(1) N le]
  obtain part s1 bs1 where p: "substring_mid template (int pr) (int j) s = Inr (part, s1)"
    "made s bs part (of_nat (j - pr + 1)) s1 bs1"
    "reserve s1 bs1 (N + (j - pr + 13) + (length R + (j - pr) + 13) - (j - pr + 13))" "cstring (mem s1) part ?mid" .
  have n: "unat (of_nat (j - pr + 1) :: u_dword) = j - pr + 1" using assms(4,5) small(1) by (intro unat_of_nat32) simp
  have "length ?mid < unat (of_nat (j - pr + 1) :: u_dword)" unfolding n lm by simp
  note heldp = made_holds [OF p(2,4) this]
  have "grown s0 bs0 {#(res, of_nat (length R + 1)), (part, of_nat (j - pr + 1))#} s1 bs1"
    by (rule grown_two [OF made p(2)])
  moreover have "reserve s1 bs1 (N + (length R + length ?mid + 13))"
    using reserve_mono [OF p(3)] lm by simp
  ultimately have "new_string s0 bs0 N (R @ ?mid) (free_concat res part s1)"
    using small(2) lm by (intro free_concat_made [OF _ held_string_made [OF held p(2)] heldp]) auto
  then show ?thesis using p(1) pr by simp
qed

lemma take_slice_Suc:
  "pr \<le> j \<Longrightarrow> j < length xs \<Longrightarrow> take (Suc j - pr) (drop pr xs) = take (j - pr) (drop pr xs) @ [xs ! j]"
  by (simp add: Suc_diff_le take_Suc_conv_app_nth)

text \<open>A converted argument is appended to the result.\<close>

lemma append_rendering:
  assumes made: "made s0 bs0 res (of_nat (length R + 1)) s bs" and held: "held_string s bs res R"
    and conv: "converts s bs (N + (length R + length zs + 13)) zs sz (convert fp y arg s)" and small: "length R + length zs + 1 < 2 ^ 31"
  obtains str s1 where "convert fp y arg s = Inr (Some (str, sz), s1)" and "new_string s0 bs0 N (R @ zs) (free_concat res str s1)"
proof -
  obtain str s1 bs1 n where c: "convert fp y arg s = Inr (Some (str, sz), s1)" and new: "made s bs str n s1 bs1"
    "reserve s1 bs1 (N + (length R + length zs + 13))" "held_string s1 bs1 str zs"
    using conv unfolding converts_def by blast
  have "new_string s0 bs0 N (R @ zs) (free_concat res str s1)"
    by (rule free_concat_made [OF grown_two [OF made new(1)] held_string_made [OF held new(1)] new(3) small new(2)])
  then show thesis using that c by blast
qed

text \<open>
  What a directive at the head of the template stands for: its text and the number of slots it consumes.
\<close>

definition directive_text :: "fpu \<Rightarrow> (addr \<Rightarrow> u_byte list) \<Rightarrow> (nat \<Rightarrow> u_dword) \<Rightarrow> u_byte \<Rightarrow> nat \<Rightarrow> (u_byte list \<times> nat) option" where
  "directive_text fp txt arg y k =
     (if y = 102 then Some (float_chars fp (slots64 arg k) 4, 2)
      else case render txt y (arg k) of Some zs \<Rightarrow> Some (zs, 1) | None \<Rightarrow> None)"

lemma spec_format_directive:
  "spec_format fp txt arg (37 # y # xs) k = (case directive_text fp txt arg y k of
     Some (zs, n) \<Rightarrow> zs @ spec_format fp txt arg xs (k + n) | None \<Rightarrow> 37 # spec_format fp txt arg (y # xs) k)"
  by (simp add: directive_text_def split: option.split)

lemma slots64_load64: "slots64 (stack_arg s ebp) k = load64 (mem s) (slot_address ebp k)"
  by (simp add: slots64_def load64_def stack_arg_def slot_address_def arg_address_def algebra_simps)

text \<open>A known directive converts its argument, on the heap as it has grown since the start of the call.\<close>

lemma directive_converts:
  assumes made: "made s0 bs0 res (of_nat (length R + 1)) s bs" and lits: "literals_held s0 bs0"
    and ok: "args_ok fp txt s0 bs0 ebp (37 # y # xs) k"
    and zs: "directive_text fp txt (stack_arg s0 ebp) y k = Some (zs, n)"
    and N: "reserve s bs (N + 141 + length zs)" and small: "length zs + 1 < 2 ^ 31"
  shows "converts s bs N zs (4 * of_nat n) (convert fp y (slot_address ebp k) s)" and "args_ok fp txt s0 bs0 ebp xs (k + n)"
proof -
  note grown = grown_made [OF made] and ok' = madeD(1) [OF made] literals_held_grown [OF lits grown_made [OF made]]
  have "converts s bs N zs (4 * of_nat n) (convert fp y (slot_address ebp k) s) \<and> args_ok fp txt s0 bs0 ebp xs (k + n)"
  proof (cases "y = 102")
    case True
    then have f: "float_ok fp (slots64 (stack_arg s0 ebp) k) 4" "slot_held s0 bs0 ebp k" "slot_held s0 bs0 ebp (k + 1)"
      "args_ok fp txt s0 bs0 ebp xs (k + 2)" and z: "zs = float_chars fp (slots64 (stack_arg s0 ebp) k) 4" "n = 2"
      using ok zs by (simp_all add: directive_text_def)
    have "slots64 (stack_arg s0 ebp) k = load64 (mem s) (slot_address ebp k)"
      using stack_arg_grown [OF f(2) grown] stack_arg_grown [OF f(3) grown] by (simp add: slots64_load64 [symmetric] slots64_def)
    with convert_float [OF ok' _ _ N small] f z True show ?thesis by simp
  next
    case False
    then obtain r: "render txt y (stack_arg s0 ebp k) = Some zs" "n = 1" and h: "arg_ok txt s0 bs0 y (stack_arg s0 ebp k)"
      "slot_held s0 bs0 ebp k" "args_ok fp txt s0 bs0 ebp xs (Suc k)"
      using ok zs by (auto simp: directive_text_def split: option.splits)
    have v: "stack_arg s0 ebp k = load32 (mem s) (slot_address ebp k)"
      using stack_arg_grown [OF h(2) grown] by (simp add: stack_arg_def)
    from convert_known [OF ok' arg_ok_grown [OF h(1) grown] v r(1) N small False, of fp] h(3) r(2) show ?thesis by simp
  qed
  then show "converts s bs N zs (4 * of_nat n) (convert fp y (slot_address ebp k) s)" and "args_ok fp txt s0 bs0 ebp xs (k + n)"
    by blast+
qed

text \<open>
  The loop invariant: the result holds \<open>R\<close>, the template characters from \<open>pr\<close> to \<open>j\<close> are pending,
  \<open>k\<close> arguments are used up; \<open>out\<close> is what the whole call has to produce. The budget pays for
  one conversion per remaining character.
\<close>

definition walk_inv :: "fpu \<Rightarrow> (addr \<Rightarrow> u_byte list) \<Rightarrow> 'a heap_state_scheme \<Rightarrow> blocks \<Rightarrow> addr \<Rightarrow> u_byte list \<Rightarrow> nat \<Rightarrow> nat \<Rightarrow>
    u_byte list \<Rightarrow> nat \<Rightarrow> nat \<Rightarrow> nat \<Rightarrow> addr \<Rightarrow> u_byte list \<Rightarrow> 'a heap_state_scheme \<Rightarrow> blocks \<Rightarrow> bool" where
  "walk_inv fp txt s0 bs0 ebp xs L M out j pr k res R s bs \<longleftrightarrow>
     j \<le> length xs \<and> pr \<le> j \<and> made s0 bs0 res (of_nat (length R + 1)) s bs \<and> held_string s bs res R \<and>
     args_ok fp txt s0 bs0 ebp (drop j xs) k \<and>
     out = R @ take (j - pr) (drop pr xs) @ spec_format fp txt (stack_arg s0 ebp) (drop j xs) k \<and> length out \<le> L \<and>
     reserve s bs (M + (length xs - j) * (5 * L + 200))"

definition walk_done :: "'a heap_state_scheme \<Rightarrow> blocks \<Rightarrow> u_byte list \<Rightarrow> nat \<Rightarrow> u_byte list \<Rightarrow>
    ('a heap_state_scheme, u_dword \<times> addr) result \<Rightarrow> bool" where
  "walk_done s0 bs0 xs M out r \<longleftrightarrow> (\<exists>pr res R s bs. r = Inr ((of_nat pr, res), s) \<and> pr \<le> length xs \<and>
     made s0 bs0 res (of_nat (length R + 1)) s bs \<and> held_string s bs res R \<and> reserve s bs M \<and> R @ drop pr xs = out)"

lemma walk_inv_end:
  "walk_inv fp txt s0 bs0 ebp xs L M out (length xs) pr k res R s bs \<Longrightarrow>
    walk_done s0 bs0 xs M out (Inr ((of_nat pr, res), s))"
  unfolding walk_inv_def walk_done_def by auto

lemma walk_budget: "j < length xs \<Longrightarrow> (length xs - j) * K = K + (length xs - Suc j) * (K :: nat)"
  by (metis Suc_diff_Suc mult_Suc)

lemma walk_inv_plain:
  assumes "walk_inv fp txt s0 bs0 ebp xs L M out j pr k res R s bs" and j: "j < length xs" and "xs ! j \<noteq> 37"
  shows "walk_inv fp txt s0 bs0 ebp xs L M out (Suc j) pr k res R s bs"
proof -
  note inv = assms(1) [unfolded walk_inv_def]
  have dj: "drop j xs = xs ! j # drop (Suc j) xs" using j by (rule Cons_nth_drop_Suc [symmetric])
  have "reserve s bs (M + (length xs - Suc j) * (5 * L + 200))"
    using inv walk_budget [OF j, of "5 * L + 200"] by (auto intro: reserve_mono)
  then show ?thesis
    unfolding walk_inv_def using inv j assms(3) dj
    by (auto simp: args_ok_plain spec_format_plain take_slice_Suc)
qed

text \<open>On a per cent sign the pending characters move to the result, whatever comes next.\<close>

lemma walk_inv_percent:
  assumes inv: "walk_inv fp txt s0 bs0 ebp xs L M out j pr k res R s bs" and j: "j < length xs"
    and temp: "held_string s0 bs0 template xs" and small: "length xs + 3 < 2 ^ 31" "L + 1 < 2 ^ 31"
  defines "R' \<equiv> R @ take (j - pr) (drop pr xs)"
  obtains res' s' bs' where
    "and_then (substring_mid template (sint (of_nat pr :: u_dword)) (int j) s) (\<lambda>part s. free_concat res part s) = Inr (res', s')"
    and "made s0 bs0 res' (of_nat (length R' + 1)) s' bs'" and "held_string s' bs' res' R'"
    and "reserve s' bs' (M + (length xs - Suc j) * (5 * L + 200) + (2 * L + 154))"
    and "out = R' @ spec_format fp txt (stack_arg s0 ebp) (drop j xs) k" and "length out \<le> L"
proof -
  note i = inv [unfolded walk_inv_def]
  have m: "made s0 bs0 res (of_nat (length R + 1)) s bs" "held_string s bs res R" and pos: "pr \<le> j" "j \<le> length xs"
    using i by blast+
  then have lR: "length R' = length R + (j - pr)" by (simp add: R'_def)
  have "length out \<le> L" "length R' \<le> length out" using i by (auto simp: R'_def)
  then have le: "length R' \<le> L" by simp
  have "reserve s bs (M + (length xs - Suc j) * (5 * L + 200) + (2 * L + 154) + (j - pr + 13) + (length R + (j - pr) + 13))"
    using le i walk_budget [OF j, of "5 * L + 200"] unfolding lR by (auto intro: reserve_mono)
  moreover have "length xs + 1 < 2 ^ 31" "length R + (j - pr) + 1 < 2 ^ 31" using small le unfolding lR by simp_all
  ultimately have "new_string s0 bs0 (M + (length xs - Suc j) * (5 * L + 200) + (2 * L + 154)) R'
    (and_then (substring_mid template (sint (of_nat pr :: u_dword)) (int j) s) (\<lambda>part s. free_concat res part s))"
    unfolding R'_def by (intro append_pending [OF m temp pos])
  moreover have "length R' + 1 < 2 ^ 31" using le small(2) by simp
  moreover have "out = R' @ spec_format fp txt (stack_arg s0 ebp) (drop j xs) k" using i by (simp add: R'_def)
  ultimately show thesis using that \<open>length out \<le> L\<close> by (metis new_string_cases)
qed

lemma walk_inv_copy:
  assumes made: "made s0 bs0 res (of_nat (length R + 1)) s bs" and held: "held_string s bs res R"
    and N: "reserve s bs (M + (length xs - Suc j) * (5 * L + 200) + N)" and j: "j < length xs" and p: "xs ! j = 37"
    and out: "out = R @ spec_format fp txt (stack_arg s0 ebp) (drop j xs) k" "length out \<le> L"
    and ok: "args_ok fp txt s0 bs0 ebp (drop (Suc j) xs) k"
    and spec: "spec_format fp txt (stack_arg s0 ebp) (drop j xs) k = 37 # spec_format fp txt (stack_arg s0 ebp) (drop (Suc j) xs) k"
  shows "walk_inv fp txt s0 bs0 ebp xs L M out (Suc j) j k res R s bs"
proof -
  have "take (Suc j - j) (drop j xs) = [37]"
    using j p by (simp add: Cons_nth_drop_Suc [symmetric])
  then show ?thesis
    unfolding walk_inv_def using assms reserve_mono [OF N] by auto
qed

lemma walk_inv_directive:
  assumes made: "made s0 bs0 res (of_nat (length R + 1)) s bs" and held: "held_string s bs res R"
    and lits: "literals_held s0 bs0" and N: "reserve s bs (M + (length xs - Suc j) * (5 * L + 200) + (2 * L + 154))"
    and j: "Suc j < length xs" and dj: "drop j xs = 37 # y # drop (j + 2) xs"
    and out: "out = R @ spec_format fp txt (stack_arg s0 ebp) (drop j xs) k" "length out \<le> L" and small: "L + 1 < 2 ^ 31"
    and ok: "args_ok fp txt s0 bs0 ebp (drop j xs) k" and zs: "directive_text fp txt (stack_arg s0 ebp) y k = Some (zs, n)"
  obtains str s1 res' s' bs' where "convert fp y (slot_address ebp k) s = Inr (Some (str, 4 * of_nat n), s1)"
    and "free_concat res str s1 = Inr (res', s')"
    and "walk_inv fp txt s0 bs0 ebp xs L M out (j + 2) (j + 2) (k + n) res' (R @ zs) s' bs'"
proof -
  let ?K = "5 * L + 200"
  have out': "out = (R @ zs) @ spec_format fp txt (stack_arg s0 ebp) (drop (j + 2) xs) (k + n)"
    using out(1) zs unfolding dj spec_format_directive by simp
  have le: "length R + length zs \<le> L" using out' out(2) by simp
  have room: "reserve s bs ((M + (length xs - Suc j) * ?K + (length R + length zs + 13)) + 141 + length zs)"
    using le by (intro reserve_mono [OF N]) simp
  have sm: "length R + length zs + 1 < 2 ^ 31" "length zs + 1 < 2 ^ 31" using le small by simp_all
  note conv = directive_converts(1) [OF made lits ok [unfolded dj] zs room sm(2)]
    and ok' = directive_converts(2) [OF made lits ok [unfolded dj] zs room sm(2)]
  obtain str s1 where c: "convert fp y (slot_address ebp k) s = Inr (Some (str, 4 * of_nat n), s1)"
    "new_string s0 bs0 (M + (length xs - Suc j) * ?K) (R @ zs) (free_concat res str s1)"
    by (rule append_rendering [OF made held conv sm(1)]) blast
  have "length (R @ zs) + 1 < 2 ^ 31" using sm(1) by simp
  from new_string_cases [OF c(2) this] obtain res' s' bs' where fc: "free_concat res str s1 = Inr (res', s')"
    "made s0 bs0 res' (of_nat (length (R @ zs) + 1)) s' bs'" "reserve s' bs' (M + (length xs - Suc j) * ?K)"
    "held_string s' bs' res' (R @ zs)" .
  have "(length xs - (j + 2)) * ?K \<le> (length xs - Suc j) * ?K" by (intro mult_le_mono1) simp
  then have "reserve s' bs' (M + (length xs - (j + 2)) * ?K)" by (intro reserve_mono [OF fc(3)]) simp
  then have "walk_inv fp txt s0 bs0 ebp xs L M out (j + 2) (j + 2) (k + n) res' (R @ zs) s' bs'"
    unfolding walk_inv_def using j fc ok' out' out(2) by auto
  then show thesis using that c(1) fc(1) by blast
qed

lemma format_walk_percent:
  assumes "len template s = Inr (n, s)" and "j < n" and "mem s (template + of_nat j) = 37"
    and "and_then (substring_mid template (sint printed) (int j) s) (\<lambda>part s. free_concat res part s) = Inr (res', s')"
  shows "format_walk (Suc fuel) fp template ebp j printed (4 + 4 * of_nat k) res s =
    and_then (convert fp (mem s' (template + of_nat (j + 1))) (slot_address ebp k) s') (\<lambda>conv s. case conv of
         Some (str, sz) \<Rightarrow> and_then (free_concat res' str s) (\<lambda>result s.
           format_walk fuel fp template ebp (j + 2) (of_nat j + 2) (4 + 4 * of_nat k + sz) result s)
       | None \<Rightarrow> format_walk fuel fp template ebp (j + 1) (of_nat j) (4 + 4 * of_nat k) res' s)"
  using assms by (simp add: letter_distinct slot_address_def and_then_assoc [symmetric])

lemma format_walk_eq:
  assumes temp: "held_string s0 bs0 template xs" and lits: "literals_held s0 bs0"
    and small: "length xs + 3 < 2 ^ 31" "L + 1 < 2 ^ 31"
    and "walk_inv fp txt s0 bs0 ebp xs L M out j pr k res R s bs" and "length xs - j < fuel"
  shows "walk_done s0 bs0 xs M out (format_walk fuel fp template ebp j (of_nat pr) (4 + 4 * of_nat k) res s)"
  using assms(5-)
proof (induction fuel arbitrary: j pr k res R s bs)
  case (Suc fuel)
  note inv = Suc.prems(1) and i = Suc.prems(1) [unfolded walk_inv_def]
  have held: "held_string s bs template xs" using held_string_made [OF temp] i by blast
  then have len: "len template s = Inr (length xs, s)" using small by (auto simp: held_string_def intro!: len_eq)
  consider (at_end) "j = length xs" | (plain) "j < length xs" "xs ! j \<noteq> 37" | (percent) "j < length xs" "xs ! j = 37"
    using i by fastforce
  then show ?case
  proof cases
    case at_end
    then show ?thesis using walk_inv_end inv len by simp
  next
    case plain
    have "mem s (template + of_nat j) = xs ! j"
      using held plain(1) by (simp add: held_string_def cstring_iff)
    then show ?thesis using Suc.IH [OF walk_inv_plain [OF inv plain]] Suc.prems(2) plain len by (simp add: letter_distinct)
  next
    case percent
    from walk_inv_percent [OF inv percent(1) temp small] obtain res1 s1 bs1 where
      sub: "and_then (substring_mid template (sint (of_nat pr :: u_dword)) (int j) s) (\<lambda>part s. free_concat res part s) = Inr (res1, s1)"
      and m1: "made s0 bs0 res1 (of_nat (length (R @ take (j - pr) (drop pr xs)) + 1)) s1 bs1"
        "held_string s1 bs1 res1 (R @ take (j - pr) (drop pr xs))"
      and sp: "reserve s1 bs1 (M + (length xs - Suc j) * (5 * L + 200) + (2 * L + 154))"
      and out: "out = (R @ take (j - pr) (drop pr xs)) @ spec_format fp txt (stack_arg s0 ebp) (drop j xs) k" "length out \<le> L" .
    have at: "mem s (template + of_nat j) = 37"
      using held percent by (simp add: held_string_def cstring_iff)
    note body = format_walk_percent [OF len percent(1) at sub]
    let ?y = "mem s1 (template + of_nat (j + 1))"
    have y: "?y = (xs @ [0]) ! (j + 1)"
      using cstring_nth(1) [of "mem s1" template xs "j + 1"] held_string_made [OF temp m1(1)] percent(1)
      by (simp add: held_string_def)
    have fuel: "length xs - Suc j < fuel" "length xs - (j + 2) < fuel" using Suc.prems(2) percent(1) by simp_all
    note copy = Suc.IH [OF walk_inv_copy [OF m1 sp percent out] fuel(1)]
    have dj: "drop j xs = 37 # drop (Suc j) xs" using percent by (simp add: Cons_nth_drop_Suc [symmetric])
    have ok: "args_ok fp txt s0 bs0 ebp (drop j xs) k" using i by blast
    show ?thesis
    proof (cases "Suc j < length xs")
      case False
      then have "drop (Suc j) xs = []" "?y = 0" using percent(1) y by (simp_all add: nth_append)
      moreover from this(2) have "convert fp ?y (slot_address ebp k) s1 = Inr (None, s1)"
        by (simp add: convert_def letter_distinct)
      ultimately show ?thesis using copy body dj by simp
    next
      case True
      then have dj2: "drop (Suc j) xs = ?y # drop (j + 2) xs"
        using y by (simp add: Cons_nth_drop_Suc [symmetric] nth_append)
      note dj' = dj [unfolded dj2]
      show ?thesis
      proof (cases "directive_text fp txt (stack_arg s0 ebp) ?y k")
        case None
        then have no: "render txt ?y (stack_arg s0 ebp k) = None" "?y \<noteq> 102"
          by (auto simp: directive_text_def split: option.splits if_splits)
        have conv: "convert fp ?y (slot_address ebp k) s1 = Inr (None, s1)" by (rule convert_unknown [OF no])
        have "args_ok fp txt s0 bs0 ebp (drop (Suc j) xs) k"
          "spec_format fp txt (stack_arg s0 ebp) (drop j xs) k = 37 # spec_format fp txt (stack_arg s0 ebp) (drop (Suc j) xs) k"
          using ok no unfolding dj' dj2 by simp_all
        from copy [OF this] show ?thesis unfolding body conv by simp
      next
        case (Some zn)
        obtain zs n where zn: "zn = (zs, n)" by (cases zn)
        from walk_inv_directive [OF m1 lits sp True dj' out small(2) ok Some [unfolded zn]]
        obtain str s2 res3 s3 bs3 where d: "convert fp ?y (slot_address ebp k) s1 = Inr (Some (str, 4 * of_nat n), s2)"
          "free_concat res1 str s2 = Inr (res3, s3)"
          "walk_inv fp txt s0 bs0 ebp xs L M out (j + 2) (j + 2) (k + n) res3 ((R @ take (j - pr) (drop pr xs)) @ zs) s3 bs3" .
        have "4 + 4 * of_nat k + 4 * of_nat n = (4 + 4 * of_nat (k + n) :: u_dword)" "of_nat j + 2 = (of_nat (j + 2) :: u_dword)"
          by (simp_all add: algebra_simps)
        note step = this
        from Suc.IH [OF d(3) fuel(2)] show ?thesis
          unfolding body d(1) and_then_Inr option.case prod.case d(2) step .
      qed
    qed
  qed
qed simp

lemma sint_zero32: "sint (0 :: u_dword) = 0"
  by simp

text \<open>The budget of a whole call on a template of \<open>n\<close> characters with \<open>L\<close> characters of output.\<close>

definition format_budget :: "nat \<Rightarrow> nat \<Rightarrow> nat" where
  "format_budget n L = n * (5 * L + 200) + 2 * L + 39"

lemma format_string_made:
  assumes "heap_ok s bs" and temp: "held_string s bs template xs" and lits: "literals_held s bs"
    and small: "length xs + 3 < 2 ^ 31" and ok: "args_ok fp txt s bs ebp xs 0"
  defines "out \<equiv> spec_format fp txt (stack_arg s ebp) xs 0"
  assumes L: "length out + 1 < 2 ^ 31" and N: "reserve s bs (N + format_budget (length xs) (length out))"
  shows "new_string s bs N out (format_string fp template ebp s)"
proof -
  let ?L = "length out" let ?K = "5 * length out + 200"
  have one: "unat (1 :: u_dword) + 12 \<le> N + format_budget (length xs) ?L" by (simp add: format_budget_def)
  from made_alloc [OF assms(1) N one] obtain p s1 bs1 where a: "ralloc 1 s = Inr (p, s1)" "made s bs p 1 s1 bs1"
    "reserve s1 bs1 (N + format_budget (length xs) ?L - (unat (1 :: u_dword) + 12))" .
  let ?s = "s1\<lparr>mem := memory_clear p 1 0 (mem s1)\<rparr>"
  have clr: "memory_clear p 1 0 (mem s1) x = mem s1 x" if "\<not> in_range p (unat (1 :: u_dword)) x" for x
    using that by (simp add: memory_clear_apply)
  have made: "made s bs p (of_nat (length ([] :: u_byte list) + 1)) ?s bs1"
    using made_write(1) [OF a(2) clr] by simp
  have "mem ?s p = 0" by (simp add: memory_clear_apply in_range_def)
  then have held: "held_string ?s bs1 p []" by (intro made_holds [OF made]) simp_all
  have "reserve ?s bs1 (N + format_budget (length xs) ?L - 13)"
    using a(3) made_write(2) [OF a(2) clr] by simp
  then have "reserve ?s bs1 (N + 2 * ?L + 26 + length xs * ?K)"
    by (rule reserve_mono) (simp add: format_budget_def)
  then have "walk_inv fp txt s bs ebp xs ?L (N + 2 * ?L + 26) out 0 0 0 p [] ?s bs1"
    unfolding walk_inv_def using made held ok by (simp add: out_def)
  from format_walk_eq [OF temp lits small L this, of int_fuel] small
  obtain pr res R s2 bs2 where w: "format_walk int_fuel fp template ebp 0 0 4 p ?s = Inr ((of_nat pr, res), s2)"
    "pr \<le> length xs" "made s bs res (of_nat (length R + 1)) s2 bs2" "held_string s2 bs2 res R"
    "reserve s2 bs2 (N + 2 * ?L + 26)" "R @ drop pr xs = out"
    by (auto simp: walk_done_def int_fuel_def)
  have lo: "length R + (length xs - pr) = ?L" using w(2,6) by (metis length_append length_drop)
  have "new_string s bs N (R @ take (length xs - pr) (drop pr xs))
    (and_then (substring_mid template (sint (of_nat pr :: u_dword)) (int (length xs)) s2) (\<lambda>part s. free_concat res part s))"
    using small L lo by (intro append_pending [OF w(3,4) temp w(2) order_refl] reserve_mono [OF w(5)]) simp_all
  moreover have "len template s2 = Inr (length xs, s2)"
    using held_string_made [OF temp w(3)] small by (auto simp: held_string_def intro!: len_eq)
  moreover have "init_vararg 4 = 4" by (simp add: init_vararg_def)
  ultimately show ?thesis
    using a(1) w(1,6) by (simp add: format_string_def zalloc_def substring_beg_def)
qed

section \<open>Properties of the formatter\<close>

lemma demo_arg: "stack_arg demo_format 0x22000 0 = 0xffffffd6" "slots64 (stack_arg demo_format 0x22000) 1 = 0x110000000"
  by (simp_all add: slots64_def stack_arg_def slot_address_def arg_address_def load32_def demo_format_def demo_texts_def put_text_def
      demo_heap_blank in_range_def chars_def)

lemma demo_slot: "k < 3 \<Longrightarrow> slot_held demo_format [] 0x22000 k"
  unfolding slot_held_def
proof (intro allI impI)
  fix x
  assume k: "k < 3" and "in_range (slot_address 0x22000 k) 4 x"
  then have "in_range (slot_address 0x22000 0) 4 x \<or> in_range (slot_address 0x22000 1) 4 x \<or> in_range (slot_address 0x22000 2) 4 x"
    by (auto simp: numeral_3_eq_3 less_Suc_eq numeral_2_eq_2)
  then have "0x20000 \<le> unat x" by (auto simp: slot_address_def arg_address_def in_range_linear)
  then show "held_byte demo_format [] x" by (rule demo_format_state(3))
qed

text \<open>
  (C6) \<^verbatim>\<open>format\<close> implements its specification: on a heap with enough room, a template in memory
  and argument slots the heap does not own, the call returns one new heap string that is the
  template with every directive replaced by the rendering of its argument; all intermediate
  strings are released, and nothing else a client holds changes. All eight directives are covered;
  the only demands on arguments are that the string of \<^verbatim>\<open>%s\<close> is in memory, that a number is not the smallest one, whose
  negation C leaves undefined, and that the integral part and the scaled fraction of the number of \<^verbatim>\<open>%f\<close> are not zero.
\<close>

theorem format_correct:
  assumes "heap_ok s bs" and "held_string s bs template xs" and "literals_held s bs"
    and "length xs + 3 < 2 ^ 31" and "args_ok fp txt s bs ebp xs 0"
    and "length (spec_format fp txt (stack_arg s ebp) xs 0) + 1 < 2 ^ 31"
    and "reserve s bs (N + format_budget (length xs) (length (spec_format fp txt (stack_arg s ebp) xs 0)))"
  shows "new_string s bs N (spec_format fp txt (stack_arg s ebp) xs 0) (format_string fp template ebp s)"
  using assms by (rule format_string_made)

theorem format_correct_witness:
  "new_string demo_format [] 0 (chars ''-42 1.625'') (format_string fixed_point 0x21000 0x22000 demo_format)"
proof -
  let ?t = "chars ''%d %f''" and ?arg = "stack_arg demo_format 0x22000"
  have held: "held_string demo_format [] 0x21000 ?t"
    by (rule demo_held [OF demo_format_texts(8)]; simp add: chars_def)
  have d42: "digits 10 42 = [4, 2]" by (subst digits.simps, subst digits.simps, subst digits.simps) simp
  have sint: "sint (0xffffffd6 :: u_dword) = - 42" by simp
  have r: "render (\<lambda>_. []) 100 0xffffffd6 = Some (chars ''-42'')"
    unfolding render_def letter_distinct
    by (simp add: number_chars_def magnitude_chars_def sint numeral_chars_def base_def d42 chars_def of_char_def)
  have c: "?t = [37, 100, 32, 37, 102]" by (simp add: chars_def of_char_def)
  have spec: "spec_format fixed_point (\<lambda>_. []) ?arg ?t 0 = chars ''-42 1.625''"
    using r fixed_point_text(2) demo_arg unfolding c by (simp add: letter_distinct chars_def of_char_def)
  have "args_ok fixed_point (\<lambda>_. []) demo_format [] 0x22000 ?t 0"
    using r fixed_point_text(1) demo_arg demo_slot [of 0] demo_slot [of 1] demo_slot [of "Suc (Suc 0)"]
    unfolding c by (simp add: arg_ok_def numeric_def letter_distinct)
  moreover have "reserve demo_format [] (0 + format_budget (length ?t) (length (chars ''-42 1.625'')))"
    by (rule reserve_mono [OF demo_format_state(2)]) (simp add: format_budget_def chars_def)
  ultimately have "new_string demo_format [] 0 (spec_format fixed_point (\<lambda>_. []) ?arg ?t 0)
      (format_string fixed_point 0x21000 0x22000 demo_format)"
    by (intro format_correct [OF demo_format_state(1) held demo_literals]) (simp_all add: spec, simp_all add: chars_def)
  then show ?thesis unfolding spec .
qed

end
