(* ===== verification/ConsoleProps.thy ===== *)
theory ConsoleProps
  imports SysCalls Formatter
begin

text \<open>
  Printing from end to end: the template is formatted, the string goes through the system call to the
  screen driver, appears in video memory as the abstract screen prescribes, and the heap is left as it was.
\<close>

section \<open>What printing needs\<close>

text \<open>The bytes outside the heap a print with \<open>k\<close> arguments may write: its stack frames and the screen.\<close>

definition console_bytes :: "'a kernel_state_scheme \<Rightarrow> nat \<Rightarrow> addr \<Rightarrow> bool" where
  "console_bytes s k x \<longleftrightarrow> in_range (format_frame s + 8) (4 * (k + 1)) x \<or> call_bytes s 5 x \<or> screen_bytes s x"

definition text_at :: "'a kernel_state_scheme \<Rightarrow> blocks \<Rightarrow> nat \<Rightarrow> addr \<Rightarrow> u_byte list \<Rightarrow> bool" where
  "text_at s bs k p xs \<longleftrightarrow> held_string s bs p xs \<and> (\<forall>i \<le> length xs. \<not> console_bytes s k (p + of_nat i))"

definition console_ok :: "'a kernel_state_scheme \<Rightarrow> blocks \<Rightarrow> nat \<Rightarrow> bool" where
  "console_ok s bs k \<longleftrightarrow> heap_ok s bs \<and> (\<forall>x. console_bytes s k x \<longrightarrow> held_byte s bs x) \<and>
     (\<forall>x. in_range (format_frame s + 8) (4 * (k + 1)) x \<or> call_bytes s 5 x \<longrightarrow> \<not> in_range VIDEO_MEMORY 4000 x) \<and>
     slot_ok s \<and> vga_crtc (device s) \<and> k < 2 ^ 29 \<and>
     (\<forall>l \<in> set format_literals. text_at s bs k (literal s l) (chars l))"

definition displays :: "'a kernel_state_scheme \<Rightarrow> cell list \<times> nat \<Rightarrow> bool" where
  "displays s v \<longleftrightarrow> cells_of (mem s) = fst v \<and> cursor_is s (of_nat (snd v)) \<and> snd v < 2000"

text \<open>
  The demands of a template on its arguments: one for every directive, two for \<^verbatim>\<open>%f\<close>, whose number the code can
  print, the string of \<^verbatim>\<open>%s\<close> in place, and no number whose negation C leaves undefined.
\<close>

definition directive :: "u_byte \<Rightarrow> bool" where
  "directive y \<longleftrightarrow> y \<in> set (chars ''lpdhbcs'')"

fun message_ok :: "(addr \<Rightarrow> u_byte list) \<Rightarrow> 'a kernel_state_scheme \<Rightarrow> blocks \<Rightarrow> u_dword list \<Rightarrow> u_byte list \<Rightarrow> nat \<Rightarrow> bool" where
  "message_ok txt s bs args [] j \<longleftrightarrow> True"
| "message_ok txt s bs args [x] j \<longleftrightarrow> True"
| "message_ok txt s bs args (x # y # xs) j \<longleftrightarrow>
     (if x = 37 then
        (if y = 102 then
           j + 1 < length args \<and> float_ok (fp_unit s) (slots64 ((!) args) j) 4 \<and> message_ok txt s bs args xs (j + 2)
         else if directive y then
           j < length args \<and>
           (y = of_char (CHR ''s'') \<longrightarrow>
              text_at s bs (length args) (args ! j) (txt (args ! j)) \<and> length (txt (args ! j)) + 1 < 2 ^ 31) \<and>
           (numeric y \<longrightarrow> args ! j \<noteq> 0x80000000) \<and>
           message_ok txt s bs args xs (Suc j)
         else message_ok txt s bs args (y # xs) j)
      else message_ok txt s bs args (y # xs) j)"

definition message_text :: "fpu \<Rightarrow> (addr \<Rightarrow> u_byte list) \<Rightarrow> u_dword list \<Rightarrow> u_byte list \<Rightarrow> u_byte list" where
  "message_text fp txt args xs = spec_format fp txt ((!) args) xs 0"

lemma render_directive: "render txt y v = None \<longleftrightarrow> \<not> directive y"
  by (auto simp: render_def directive_def chars_def)

lemma message_args:
  assumes "message_ok txt s bs args xs j"
    and "\<And>i. i < length args \<Longrightarrow> stack_arg s' ebp i = args ! i" and "\<And>i. i < length args \<Longrightarrow> slot_held s' bs ebp i"
    and "\<And>p ys. text_at s bs (length args) p ys \<Longrightarrow> held_string s' bs p ys"
  shows "args_ok (fp_unit s) txt s' bs ebp xs j \<and>
    spec_format (fp_unit s) txt (stack_arg s' ebp) xs j = spec_format (fp_unit s) txt ((!) args) xs j"
  using assms(1)
proof (induction xs arbitrary: j rule: induct_list012)
  case (3 x y xs)
  consider (plain) "x \<noteq> 37" | (float) "x = 37" "y = 102" | (known) "x = 37" "y \<noteq> 102" "directive y"
    | (unknown) "x = 37" "y \<noteq> 102" "\<not> directive y" by blast
  then show ?case
  proof cases
    case plain
    then show ?thesis using 3 by simp
  next
    case float
    then have m: "Suc j < length args" "j < length args" "float_ok (fp_unit s) (slots64 ((!) args) j) 4" "message_ok txt s bs args xs (j + 2)"
      using 3 by simp_all
    have "slots64 (stack_arg s' ebp) j = slots64 ((!) args) j" using assms(2) m(1,2) by (simp add: slots64_def)
    then show ?thesis using 3(1) [OF m(4)] m float assms(3) by simp
  next
    case known
    then obtain zs where "render txt y (args ! j) = Some zs" using render_directive by blast
    then show ?thesis using 3 known assms(2-) by (auto simp: arg_ok_def)
  next
    case unknown
    have "y \<noteq> of_char (CHR ''s'') \<and> \<not> numeric y" using unknown by (auto simp: directive_def numeric_def chars_def)
    moreover have "render txt y v = None" for v using unknown render_directive by blast
    ultimately show ?thesis using 3 unknown by (simp add: arg_ok_def)
  qed
qed simp_all

lemma cells_of_cong:
  assumes "\<And>x. in_range VIDEO_MEMORY 4000 x \<Longrightarrow> m x = m' x"
  shows "cells_of m = cells_of m'"
proof (rule nth_equalityI)
  fix i
  assume "i < length (cells_of m)"
  then have i: "i < 2000" by simp
  have "m (VIDEO_MEMORY + of_nat j) = m' (VIDEO_MEMORY + of_nat j)" if "j < 4000" for j
    by (rule assms) (use that in \<open>simp only: in_video_offset\<close>)
  from this [of "2 * i"] this [of "2 * i + 1"] show "cells_of m ! i = cells_of m' ! i"
    using i by (simp add: cell_at_def)
qed simp

lemma io_only_fields:
  fixes s s' :: "'a kernel_state_scheme"
  assumes "io_only s s'"
  shows "header s' = header s" and "device s' = device s" and "stack_slot s' = stack_slot s" and "literal s' = literal s"
    and "format_frame s' = format_frame s" and "extract_frame s' = extract_frame s" and "system_frame s' = system_frame s"
    and "interruption_handlers s' = interruption_handlers s"
  by (subst assms [unfolded io_only_def], simp)+

lemmas output_only_fields = io_only_fields [OF output_io_only]

lemma mem_only: "s' = s\<lparr>mem := mem s'\<rparr> \<Longrightarrow> output_only s s'"
  by (rule output_only_step [where m = "mem s'" and es = "[]"]) (simp_all add: display_ports_def, metis machine.select_convs(3) machine.surjective machine.update_convs(1) machine.update_convs(3))

lemma mem_only_trans: "t = s\<lparr>mem := mem t\<rparr> \<Longrightarrow> \<exists>m. u = t\<lparr>mem := m\<rparr> \<Longrightarrow> u = s\<lparr>mem := mem u\<rparr>"
  by (metis machine.select_convs(1) machine.surjective machine.update_convs(1))

section \<open>The pieces of a print\<close>

lemma console_okD:
  assumes "console_ok s bs k"
  shows "heap_ok s bs" and "console_bytes s k x \<Longrightarrow> held_byte s bs x"
    and "in_range (format_frame s + 8) (4 * (k + 1)) x \<Longrightarrow> \<not> in_range VIDEO_MEMORY 4000 x"
    and "call_bytes s 5 x \<Longrightarrow> \<not> in_range VIDEO_MEMORY 4000 x"
    and "slot_ok s" and "vga_crtc (device s)" and "k < 2 ^ 29"
    and "l \<in> set format_literals \<Longrightarrow> text_at s bs k (literal s l) (chars l)"
  using assms unfolding console_ok_def by blast+

text \<open>The formatter's part: one new string, the rest of the heap and of memory as before but for its frame.\<close>

lemma call_format_made:
  fixes s :: "'a kernel_state_scheme"
  assumes ok: "console_ok s bs (length args)" and temp: "text_at s bs (length args) temp xs"
    and msg: "message_ok txt s bs args xs 0" and xs: "length xs + 3 < 2 ^ 31"
  defines "out \<equiv> message_text (fp_unit s) txt args xs"
  assumes out: "length out + 1 < 2 ^ 31" and N: "reserve s bs (N + format_budget (length xs) (length out))"
  obtains r s0 s1 bs1 where "call_format temp args s = Inr (r, s1)" and "heap_ok s0 bs" and "s0 = s\<lparr>mem := mem s0\<rparr>"
    and "heap_area s0 = heap_area s" and "\<And>x. held_byte s0 bs x \<longleftrightarrow> held_byte s bs x"
    and "\<And>x. \<not> in_range (format_frame s + 8) (4 * (length args + 1)) x \<Longrightarrow> mem s0 x = mem s x"
    and "made s0 bs r (of_nat (length out + 1)) s1 bs1" and "reserve s1 bs1 N" and "cstring (mem s1) r out"
proof -
  let ?k = "length args" and ?e = "format_frame s"
  note c = console_okD [OF ok]
  have small: "4 * (?k + 1) \<le> 4294967296" using c(7) by simp
  define m0 where "m0 = push_dwords (?e + 8) (temp # args) (mem s)"
  have m0: "m0 x = mem s x" if "\<not> in_range (?e + 8) (4 * (?k + 1)) x" for x
    unfolding m0_def using that small by (intro push_dwords_outside) simp_all
  then have "m0 x = mem s x" if "\<not> held_byte s bs x" for x using that c(2) unfolding console_bytes_def by blast
  note w = held_write [OF c(1), of m0, OF this]
  let ?s = "s\<lparr>mem := m0\<rparr>"
  have slot: "slot_address ?e i = ?e + 8 + 4 * of_nat (Suc i)" for i
    by (simp add: slot_address_def arg_address_def algebra_simps)
  have arg: "stack_arg ?s ?e i = args ! i" if "i < ?k" for i
    unfolding stack_arg_def slot m0_def using that small load_push_dwords [of "Suc i" "temp # args" "?e + 8" "mem s"] by simp
  have held: "slot_held ?s bs ?e i" if "i < ?k" for i
    unfolding slot_held_def slot
    using in_range_slot [of "?e + 8" "Suc i" _ "?k + 1"] that small c(2) w(2) unfolding console_bytes_def by auto
  have strs: "held_string ?s bs p ys" if "text_at s bs ?k p ys" for p ys
    using that w(2) m0 cstring_cong [of ys m0 p "mem s"] unfolding text_at_def held_string_def console_bytes_def by simp
  note args = message_args [OF msg, of ?s ?e, OF arg held strs]
  have "literals_held ?s bs" unfolding literals_held_def using strs c(8) by simp
  moreover have "reserve ?s bs (N + format_budget (length xs) (length out))" using w(5) N by blast
  ultimately have "new_string ?s bs N out (format_string (fp_unit s) temp ?e ?s)"
    using format_string_made [of ?s bs temp xs "fp_unit s" "txt" ?e N] w(1) strs [OF temp] xs args out
    unfolding out_def message_text_def by simp
  then obtain r s1 bs1 where f: "format_string (fp_unit s) temp ?e ?s = Inr (r, s1)"
    "made ?s bs r (of_nat (length out + 1)) s1 bs1" "reserve s1 bs1 N" "cstring (mem s1) r out"
    unfolding new_string_def by blast
  have "call_format temp args s = Inr (r, s1)" using f(1) by (simp add: call_format_def m0_def del: push_dwords.simps)
  then show thesis
    using that [of r s1 ?s bs1] w(1-4) m0 f(2-4) by (simp add: heap_area_def)
qed

text \<open>The driver's part: the string appears on the screen, and slot 0 gets the answer.\<close>

abbreviation attribute :: "console_color \<Rightarrow> console_color \<Rightarrow> u_byte" where
  "attribute font background \<equiv> push_bit 4 (ucast (color_value background)) + ucast (color_value font)"

abbreviation spec_show :: "console_color \<Rightarrow> console_color \<Rightarrow> u_byte list \<Rightarrow> cell list \<times> nat \<Rightarrow> cell list \<times> nat" where
  "spec_show font background out \<equiv> fold (\<lambda>ch. spec_print ch (attribute font background)) out"

lemma int_48: "interrupt (Suc d) 48 regs s = isr_handler (interrupt d) (regs\<lparr>regs_int_no := 48\<rparr>) s"
  by (simp add: gate_stub_def)

lemma screen_call_prints:
  fixes s :: "'a kernel_state_scheme"
  assumes vga: "vga_crtc (device s)" and slot: "slot_ok s" and handler: "interruption_handlers s 48 = Some Screen_callback"
    and v: "displays s v" and str: "cstring (mem s) r out" "8 \<notin> set out" "length out < 2 ^ 31"
    and apart: "\<And>i. i \<le> length out \<Longrightarrow> \<not> screen_bytes s (r + of_nat i)"
    and args: "\<And>i. i < 5 \<Longrightarrow> system_get_arg sf (of_nat i) s = [2, r, color_value font, color_value background, 0] ! i"
    and frame: "\<And>x. in_range (sf + 4) 4 x \<Longrightarrow> \<not> in_range VIDEO_MEMORY 4000 x"
  obtains s' where "interrupt (Suc d) 48 (regs\<lparr>regs_ebp := sf\<rparr>) s = Inr (Return, s')" and "output_only s s'"
    and "displays s' (spec_show font background out v)"
    and "\<And>x. \<not> screen_bytes s x \<Longrightarrow> \<not> in_range (sf + 4) 4 x \<Longrightarrow> mem s' x = mem s x"
proof -
  have cur: "cursor_is s (of_nat (snd v))" "unat (of_nat (snd v) :: u_word) < 2000"
    and eq: "(cells_of (mem s), unat (of_nat (snd v) :: u_word)) = v"
    using v by (auto simp: displays_def unat_of_nat prod_eq_iff)
  from print_until_nul_refines [OF vga cur(1) slot cur(2) str apart, of "ucast (color_value font)" "ucast (color_value background)"]
  obtain s1 where s1: "print_until_nul (2 ^ 31) r (ucast (color_value font)) (ucast (color_value background)) s = Inr ((), s1)"
    "cells_of (mem s1) = fst (spec_show font background out v)"
    "cursor_is s1 (of_nat (snd (spec_show font background out v)))"
    "snd (spec_show font background out v) < 2000" "output_only s s1" "\<And>x. \<not> screen_bytes s x \<Longrightarrow> mem s1 x = mem s x"
    unfolding eq by blast
  have dev: "vga_crtc (device s1)" using vga output_only_fields(2) [OF s1(5)] by simp
  from get_cursor_offset_eq [OF dev s1(3)] obtain a t where g: "get_cursor_offset s1 = (a, s1\<lparr>io_trace := t\<rparr>)"
    "cursor_is (s1\<lparr>io_trace := t\<rparr>) (of_nat (snd (spec_show font background out v)))" by (metis prod.collapse)
  define s2 where "s2 = system_push sf a (s1\<lparr>io_trace := t\<rparr>)"
  have "system_get_arg sf 0 s = 2" "system_get_arg sf 1 s = r" "system_get_arg sf 2 s = color_value font"
    "system_get_arg sf 3 s = color_value background" "system_get_arg sf 4 s = 0"
    using args [of 0] args [of 1] args [of 2] args [of 3] args [of 4] by (simp_all add: numeral_2_eq_2)
  then have "screen_callback sf s = Inr ((), s2)"
    using s1(1) g(1) by (simp add: screen_callback_def print_string_color_def Let_def s2_def)
  then have "interrupt (Suc d) 48 (regs\<lparr>regs_ebp := sf\<rparr>) s = Inr (Return, s2)"
    using handler by (simp only: int_48 isr_handler_def) (simp add: call_handler_def)
  moreover have "output_only s s2"
  proof -
    have "output_only s1 (s1\<lparr>io_trace := t\<rparr>)" using get_cursor_offset_only [of s1] g(1) by simp
    moreover have "output_only (s1\<lparr>io_trace := t\<rparr>) s2"
      by (rule output_only_step [where es = "[]" and m = "mem s2"]) (simp_all add: s2_def system_push_def display_ports_def)
    ultimately show ?thesis using s1(5) by (blast intro: output_only_trans)
  qed
  moreover have out2: "mem s2 x = mem s1 x" if "\<not> in_range (sf + 4) 4 x" for x
    using that by (simp add: s2_def system_push_def store32_outside)
  moreover have "cells_of (mem s2) = cells_of (mem s1)" using frame out2 by (intro cells_of_cong) blast
  then have "displays s2 (spec_show font background out v)"
    using g(2) s1(2,4) by (simp add: displays_def s2_def system_push_def cursor_is_def)
  ultimately show thesis using that s1(6) by simp
qed

text \<open>The system call as a whole.\<close>

lemma call_screen_prints:
  fixes s :: "'a kernel_state_scheme"
  assumes ok: "heap_ok s bs" and N: "reserve s bs 32" and vga: "vga_crtc (device s)" and slot: "slot_ok s"
    and handler: "interruption_handlers s 48 = Some Screen_callback" and v: "displays s v"
    and str: "held_string s bs r out" "8 \<notin> set out" "length out < 2 ^ 31"
    and apart: "\<And>i. i \<le> length out \<Longrightarrow> \<not> call_bytes s 5 (r + of_nat i) \<and> \<not> screen_bytes s (r + of_nat i)"
    and held: "\<And>x. call_bytes s 5 x \<or> screen_bytes s x \<Longrightarrow> held_byte s bs x"
    and video: "\<And>x. call_bytes s 5 x \<Longrightarrow> \<not> in_range VIDEO_MEMORY 4000 x"
  obtains s' where "call_system (interrupt (Suc d)) 48 [2, r, color_value font, color_value background, 0] s = Inr ((), s')"
    and "output_only s s'" and "displays s' (spec_show font background out v)" and "heap_ok s' bs"
    and "heap_area s' = heap_area s" and "\<And>x. held_byte s' bs x \<longleftrightarrow> held_byte s bs x"
    and "\<And>x. held_byte s bs x \<Longrightarrow> \<not> call_bytes s 5 x \<Longrightarrow> \<not> screen_bytes s x \<Longrightarrow> mem s' x = mem s x"
proof -
  define args where "args = [2, r, color_value font, color_value background, 0]"
  have n: "length args = 5" by (simp add: args_def)
  from call_system_delivers [OF ok N, of args, unfolded n] held obtain s2 where s2: "delivered s bs args s2"
    and call: "\<And>intr v. call_system intr v args s = and_then (intr v ((cpu s)\<lparr>regs_ebp := system_frame s\<rparr>) s2)
      (\<lambda>c s. case c of Return \<Rightarrow> Inr ((), s) | Jump _ \<Rightarrow> Inl (Undefined s))" by auto
  note d = s2 [unfolded delivered_def n]
  have only2: "output_only s s2" using d mem_only by blast
  note f2 = output_only_fields [OF only2]
  have same: "mem s2 x = mem s x" if "held_byte s bs x" "\<not> call_bytes s 5 x" for x using d that by blast
  have vid: "screen_bytes s x" if "in_range VIDEO_MEMORY 4000 x" for x using that by (simp add: screen_bytes_def in_range_def)
  have "cells_of (mem s2) = cells_of (mem s)"
    by (rule cells_of_cong) (use same held vid video in blast)
  moreover have "io_trace s2 = io_trace s" by (metis d machine.select_convs(3) machine.surjective machine.update_convs(1))
  ultimately have v2: "displays s2 v" using v by (simp add: displays_def cursor_is_def)
  have str2: "cstring (mem s2) r out"
    using str(1) apart same cstring_cong [of out "mem s2" r "mem s"] by (simp add: held_string_def)
  have sb: "screen_bytes s2 x \<longleftrightarrow> screen_bytes s x" for x by (simp add: screen_bytes_def f2)
  have sf: "call_bytes s 5 x" if "in_range (system_frame s + 4) 4 x" for x
    using that in_range_slot [of "system_frame s" 1 x 6] by (simp add: call_bytes_def)
  obtain s3 where s3: "interrupt (Suc d) 48 ((cpu s)\<lparr>regs_ebp := system_frame s\<rparr>) s2 = Inr (Return, s3)"
    "output_only s2 s3" "displays s3 (spec_show font background out v)"
    "\<And>x. \<not> screen_bytes s2 x \<Longrightarrow> \<not> in_range (system_frame s + 4) 4 x \<Longrightarrow> mem s3 x = mem s2 x"
    by (rule screen_call_prints [of s2 v r out "system_frame s" font background d "cpu s"])
      (use vga slot handler v2 str2 str(2,3) apart sf video d in \<open>auto simp: f2 slot_ok_def sb args_def\<close>)
  have out3: "mem s3 x = mem s2 x" if "\<not> screen_bytes s x" "\<not> call_bytes s 5 x" for x using that s3(4) sb sf by blast
  then have "mem s3 x = mem s2 x" if "\<not> held_byte s2 bs x" for x using that d held by blast
  note w = held_write [OF conjunct1 [OF d], of "mem s3", OF this]
  have v3: "mem s3 = mem (s2\<lparr>mem := mem s3\<rparr>)" "header s3 = header (s2\<lparr>mem := mem s3\<rparr>)"
    using output_only_fields(1) [OF s3(2)] by simp_all
  note hv = heap_view [OF v3]
  show thesis
  proof (rule that [of s3])
    show "call_system (interrupt (Suc d)) 48 [2, r, color_value font, color_value background, 0] s = Inr ((), s3)"
      using call s3(1) by (simp add: args_def del: interrupt.simps)
    show "output_only s s3" by (rule output_only_trans [OF only2 s3(2)])
    show "heap_area s3 = heap_area s" using hv(5) w(3,4) d by (simp add: heap_area_def)
    show "mem s3 x = mem s x" if "held_byte s bs x" "\<not> call_bytes s 5 x" "\<not> screen_bytes s x" for x
      using that same out3 by simp
    show "held_byte s3 bs x \<longleftrightarrow> held_byte s bs x" for x using hv(2) w(2) d by blast
  qed (use hv(1) w(1) s3(3) in blast)+
qed

section \<open>Printing\<close>

text \<open>The console after a print is ready for the next one.\<close>

lemma console_ok_frame:
  fixes s s' :: "'a kernel_state_scheme"
  assumes ok: "console_ok s bs k" and only: "output_only s s'" and heap: "heap_ok s' bs"
    and held: "\<And>x. held_byte s' bs x \<longleftrightarrow> held_byte s bs x"
    and out: "\<And>x. held_byte s bs x \<Longrightarrow> \<not> console_bytes s k x \<Longrightarrow> mem s' x = mem s x"
  shows "console_ok s' bs k" and "text_at s bs k p xs \<Longrightarrow> text_at s' bs k p xs"
    and "console_bytes s' k x \<longleftrightarrow> console_bytes s k x"
proof -
  note f = output_only_fields [OF only] and c = console_okD [OF ok]
  have cb: "call_bytes s' n x \<longleftrightarrow> call_bytes s n x" "screen_bytes s' x \<longleftrightarrow> screen_bytes s x"
    "console_bytes s' k x \<longleftrightarrow> console_bytes s k x" for n x
    by (simp_all add: console_bytes_def call_bytes_def screen_bytes_def f)
  show "console_bytes s' k x \<longleftrightarrow> console_bytes s k x" by (rule cb)
  have strs: "text_at s' bs k p xs" if "text_at s bs k p xs" for p xs
    using that held out cstring_cong [of xs "mem s'" p "mem s"] by (simp add: text_at_def held_string_def cb)
  then show "text_at s bs k p xs \<Longrightarrow> text_at s' bs k p xs" .
  show "console_ok s' bs k"
    unfolding console_ok_def cb using heap held c strs by (simp add: f slot_ok_def)
qed

lemma print_formatted_prints:
  fixes s :: "'a kernel_state_scheme"
  assumes ok: "console_ok s bs (length args)" and temp: "text_at s bs (length args) temp xs"
    and msg: "message_ok txt s bs args xs 0" and xs: "length xs + 3 < 2 ^ 31"
  defines "out \<equiv> message_text (fp_unit s) txt args xs"
  assumes out: "length out + 1 < 2 ^ 31" "8 \<notin> set out" and v: "displays s v"
    and handler: "interruption_handlers s 48 = Some Screen_callback"
    and N: "reserve s bs (32 + format_budget (length xs) (length out))"
  obtains s' where "print_formatted (interrupt (Suc d)) font background temp args s = Inr ((), s')"
    and "displays s' (spec_show font background out v)" and "output_only s s'" and "heap_ok s' bs"
    and "heap_area s' = heap_area s" and "\<And>x. held_byte s' bs x \<longleftrightarrow> held_byte s bs x"
    and "\<And>x. held_byte s bs x \<Longrightarrow> \<not> console_bytes s (length args) x \<Longrightarrow> mem s' x = mem s x"
proof -
  note c = console_okD [OF ok]
  obtain r s0 s1 bs1 where f: "call_format temp args s = Inr (r, s1)" "heap_ok s0 bs" "s0 = s\<lparr>mem := mem s0\<rparr>"
    "heap_area s0 = heap_area s" "\<And>x. held_byte s0 bs x \<longleftrightarrow> held_byte s bs x"
    "\<And>x. \<not> in_range (format_frame s + 8) (4 * (length args + 1)) x \<Longrightarrow> mem s0 x = mem s x"
    and made: "made s0 bs r (of_nat (length out + 1)) s1 bs1" and N1: "reserve s1 bs1 32" and str: "cstring (mem s1) r out"
    by (rule call_format_made [OF ok temp msg xs, of 32, folded out_def, OF out(1) N]) blast
  note md = madeD [OF made]
  have s1: "s1 = s\<lparr>mem := mem s1\<rparr>" by (rule mem_only_trans [OF f(3) md(5)])
  note f1 = output_only_fields [OF mem_only [OF s1]]
  have sz: "unat (of_nat (length out + 1) :: u_dword) = length out + 1" using out(1) by (intro unat_of_nat32) simp
  have new: "in_range r (length out + 1) (r + of_nat i)" if "i \<le> length out" for i
    using that out(1) by (subst in_range_offset) simp_all
  have fresh: "\<not> console_bytes s (length args) x" "held_byte s1 bs1 x" if "in_range r (length out + 1) x" for x
    using that md(7,8) f(5) c(2) unfolding sz by blast+
  have cb: "call_bytes s1 5 x \<longleftrightarrow> call_bytes s 5 x" "screen_bytes s1 x \<longleftrightarrow> screen_bytes s x" for x
    by (simp_all add: call_bytes_def screen_bytes_def f1)
  have same: "mem s1 x = mem s x" if "held_byte s bs x" "\<not> in_range (format_frame s + 8) (4 * (length args + 1)) x" for x
    using that f(5,6) md(6) by simp
  have "cells_of (mem s1) = cells_of (mem s)"
  proof (rule cells_of_cong)
    fix x
    assume "in_range VIDEO_MEMORY 4000 x"
    moreover from this have "console_bytes s (length args) x" by (simp add: console_bytes_def screen_bytes_def in_range_def)
    ultimately show "mem s1 x = mem s x" using same c(2,3) by blast
  qed
  moreover have "io_trace s1 = io_trace s" by (subst s1) simp
  ultimately have v1: "displays s1 v" using v by (simp add: displays_def cursor_is_def)
  obtain s2 where s2: "call_system (interrupt (Suc d)) 48 [2, r, color_value font, color_value background, 0] s1 = Inr ((), s2)"
    "output_only s1 s2" "displays s2 (spec_show font background out v)" "heap_ok s2 bs1" "heap_area s2 = heap_area s1"
    "\<And>x. held_byte s2 bs1 x \<longleftrightarrow> held_byte s1 bs1 x"
    "\<And>x. held_byte s1 bs1 x \<Longrightarrow> \<not> call_bytes s 5 x \<Longrightarrow> \<not> screen_bytes s x \<Longrightarrow> mem s2 x = mem s1 x"
  proof (rule call_screen_prints [of s1 bs1 v r out d font background, unfolded cb])
    show "held_string s1 bs1 r out" using made_holds [OF made str] sz by simp
    show "held_byte s1 bs1 x" if "call_bytes s 5 x \<or> screen_bytes s x" for x
      using that c(2) f(5) md(8) unfolding console_bytes_def by blast
    show "\<not> call_bytes s 5 (r + of_nat i) \<and> \<not> screen_bytes s (r + of_nat i)" if "i \<le> length out" for i
      using fresh(1) [OF new [OF that]] by (simp add: console_bytes_def)
  qed (use md(1) N1 v1 c(4-6) handler out in \<open>auto simp: f1 slot_ok_def\<close>)
  from release_back [OF f(2) made s2(4,5,6)] obtain s3 where s3: "unalloc r s2 = Inr ((), s3)" "heap_ok s3 bs"
    "heap_area s3 = heap_area s0" "s3 = s2\<lparr>mem := mem s3\<rparr>" "\<And>x. held_byte s3 bs x \<longleftrightarrow> held_byte s0 bs x"
    "\<And>x. held_byte s0 bs x \<Longrightarrow> mem s3 x = mem s2 x" by blast
  have only: "output_only s s3"
    using mem_only [OF s1] s2(2) mem_only [OF s3(4)] by (blast intro: output_only_trans)
  have "cells_of (mem s3) = cells_of (mem s2)"
    using c(2) f(5) s3(6) by (intro cells_of_cong) (auto simp: console_bytes_def screen_bytes_def in_range_def)
  moreover have "io_trace s3 = io_trace s2" by (subst s3(4)) simp
  ultimately have "displays s3 (spec_show font background out v)" using s2(3) by (simp add: displays_def cursor_is_def)
  moreover have "print_formatted (interrupt (Suc d)) font background temp args s = Inr ((), s3)"
    using f(1) s2(1) s3(1) by (simp add: print_formatted_def del: interrupt.simps)
  moreover have "mem s3 x = mem s x" if "held_byte s bs x" "\<not> console_bytes s (length args) x" for x
    using that same f(5) md(8) s2(7) s3(6) unfolding console_bytes_def by simp
  ultimately show thesis using that [OF _ _ only s3(2)] s3(3,5) f(4,5) by simp
qed

lemma call_screen_fails:
  fixes s :: "'a kernel_state_scheme"
  assumes "interruption_handlers s 48 = None"
  shows "\<exists>e. interrupt d 48 regs s = Inl e"
proof (cases d)
  case (Suc d')
  have "\<exists>e. and_then r (\<lambda>x s. and_then (f x s) (\<lambda>_ s. Inl (Hang s))) = Inl e" for r :: "('s, 'x) result" and f :: "'x \<Rightarrow> 's \<Rightarrow> ('s, 'y) result"
    by (auto simp: and_then_def split: sum.splits)
  then show ?thesis using assms by (simp only: Suc int_48 isr_handler_def) (simp add: panic_def)
qed simp

section \<open>Sequences of prints\<close>

text \<open>Fewer arguments touch fewer bytes.\<close>

lemma console_bytes_mono: "j \<le> k \<Longrightarrow> console_bytes s j x \<Longrightarrow> console_bytes s k x"
  by (auto simp: console_bytes_def in_range_def)

lemma text_at_mono: "text_at s bs k p xs \<Longrightarrow> j \<le> k \<Longrightarrow> text_at s bs j p xs"
  using console_bytes_mono unfolding text_at_def by blast

lemma console_ok_mono: "console_ok s bs k \<Longrightarrow> j \<le> k \<Longrightarrow> console_ok s bs j"
  using console_bytes_mono [of j k s] text_at_mono [of s bs k _ _ j] unfolding console_ok_def
  by (auto simp: in_range_def)

text \<open>
  The console in use: it can print the literals \<open>L\<close> with up to \<open>k\<close> arguments, has \<open>N\<close> bytes of heap to do so,
  and shows \<open>v\<close>.
\<close>

definition ready :: "'a kernel_state_scheme \<Rightarrow> blocks \<Rightarrow> nat \<Rightarrow> nat \<Rightarrow> string set \<Rightarrow> cell list \<times> nat \<Rightarrow> bool" where
  "ready s bs k N L v \<longleftrightarrow> console_ok s bs k \<and> reserve s bs N \<and> displays s v \<and>
     interruption_handlers s 48 = Some Screen_callback \<and> (\<forall>l \<in> L. text_at s bs k (literal s l) (chars l))"

lemma print_literal_ready:
  fixes s :: "'a kernel_state_scheme"
  assumes r: "ready s bs k N L v" and l: "l \<in> L" and k: "length args \<le> k"
    and msg: "message_ok txt s bs args (chars l) 0" and xs: "length l + 3 < 2 ^ 31"
  defines "out \<equiv> message_text (fp_unit s) txt args (chars l)"
  assumes out: "length out + 1 < 2 ^ 31" "8 \<notin> set out" and N: "32 + format_budget (length l) (length out) \<le> N"
  obtains s' where "print_literal font (interrupt (Suc d)) l args s = Inr ((), s')" and "output_only s s'"
    and "ready s' bs k N L (spec_show font BLACK out v)" and "heap_area s' = heap_area s"
    and "\<And>x. held_byte s bs x \<Longrightarrow> \<not> console_bytes s k x \<Longrightarrow> mem s' x = mem s x"
proof -
  have r': "console_ok s bs k" "reserve s bs N" "displays s v" "interruption_handlers s 48 = Some Screen_callback"
    "\<And>l. l \<in> L \<Longrightarrow> text_at s bs k (literal s l) (chars l)" using r by (auto simp: ready_def)
  have len: "length (chars l) = length l" by (simp add: chars_def)
  obtain s' where p: "print_formatted (interrupt (Suc d)) font BLACK (literal s l) args s = Inr ((), s')"
    "displays s' (spec_show font BLACK out v)" "output_only s s'" "heap_ok s' bs" "heap_area s' = heap_area s"
    "\<And>x. held_byte s' bs x \<longleftrightarrow> held_byte s bs x"
    "\<And>x. held_byte s bs x \<Longrightarrow> \<not> console_bytes s (length args) x \<Longrightarrow> mem s' x = mem s x"
    by (rule print_formatted_prints [OF console_ok_mono [OF r'(1) k] text_at_mono [OF r'(5) [OF l] k] msg, of v d font BLACK])
      (use xs out r'(3,4) reserve_mono [OF r'(2) N] in \<open>auto simp: out_def len\<close>)
  have keep: "mem s' x = mem s x" if "held_byte s bs x" "\<not> console_bytes s k x" for x
    using that p(7) console_bytes_mono [OF k] by blast
  note fr = console_ok_frame [OF r'(1) p(3,4,6) keep]
  have "ready s' bs k N L (spec_show font BLACK out v)"
    using fr(1,2) p(2) r'(4,5) low_heap.budget_area [OF p(5)] r'(2) output_only_fields(4,8) [OF p(3)]
    by (simp add: ready_def)
  then show thesis using that [of s'] p(1,3,5) keep by (simp add: print_literal_def del: interrupt.simps)
qed

text \<open>Registering another handler does not disturb the console.\<close>

lemma console_put_handler:
  fixes s :: "'a kernel_state_scheme"
  shows "console_ok (put_handler n h s) bs k \<longleftrightarrow> console_ok s bs k" and "text_at (put_handler n h s) bs k p xs \<longleftrightarrow> text_at s bs k p xs"
    and "reserve (put_handler n h s) bs N \<longleftrightarrow> reserve s bs N" and "displays (put_handler n h s) v \<longleftrightarrow> displays s v"
proof -
  let ?s = "put_handler n h s"
  have f: "mem ?s = mem s" "header ?s = header s" by (simp_all add: put_handler_def)
  note hv = heap_view [OF f]
  have cb: "call_bytes ?s m x \<longleftrightarrow> call_bytes s m x" "screen_bytes ?s x \<longleftrightarrow> screen_bytes s x" for m x
    by (simp_all add: call_bytes_def screen_bytes_def put_handler_def)
  have t: "text_at ?s bs k p xs \<longleftrightarrow> text_at s bs k p xs" "console_bytes ?s k x \<longleftrightarrow> console_bytes s k x" for p xs x
    by (simp_all add: text_at_def hv console_bytes_def cb) (simp_all add: put_handler_def)
  show "text_at ?s bs k p xs \<longleftrightarrow> text_at s bs k p xs" "reserve ?s bs N \<longleftrightarrow> reserve s bs N"
    by (rule t) (rule hv)
  show "console_ok ?s bs k \<longleftrightarrow> console_ok s bs k"
    unfolding console_ok_def hv t cb by (simp add: put_handler_def slot_ok_def)
  show "displays ?s v \<longleftrightarrow> displays s v" by (simp add: displays_def put_handler_def cursor_is_def)
qed

lemma ready_put_handler:
  fixes s :: "'a kernel_state_scheme"
  assumes "ready s bs k N L v" and "n \<noteq> 48 \<or> h = Screen_callback"
  shows "ready (put_handler n h s) bs k N L v"
  using assms unfolding ready_def console_put_handler by (auto simp: put_handler_def)

end
