(* ===== verification/KernelProps.thy ===== *)
theory KernelProps
  imports Kernel ConsoleProps
begin

text \<open>
  The kernel from its entry point: the set-up phase of \<^verbatim>\<open>_start\<close> returns, with the handlers registered, the
  messages on the screen and the heap empty again.
\<close>

section \<open>Messages with one directive\<close>

lemma spec_format_prefix: "37 \<notin> set xs \<Longrightarrow> spec_format fp txt arg (xs @ ys) k = xs @ spec_format fp txt arg ys k"
  by (induction xs) (simp_all add: spec_format_plain)

lemma message_ok_plain: "x \<noteq> 37 \<Longrightarrow> message_ok txt s bs args (x # xs) k \<longleftrightarrow> message_ok txt s bs args xs k"
  by (cases xs) simp_all

lemma message_ok_prefix: "37 \<notin> set xs \<Longrightarrow> message_ok txt s bs args (xs @ ys) k \<longleftrightarrow> message_ok txt s bs args ys k"
  by (induction xs) (simp_all add: message_ok_plain)

lemma chars_append: "chars (l @ l') = chars l @ chars l'"
  by (simp add: chars_def)

lemma directive_letters: "directive 100" "directive 115" "numeric 100" "numeric 104" "\<not> numeric 115"
  by (simp_all add: directive_def numeric_def chars_def of_char_def)

lemma small_not_min: "unat n < 2 ^ 31 \<Longrightarrow> n \<noteq> (0x80000000 :: u_dword)"
  by auto

lemma ucast_not_min: "ucast (b :: u_byte) \<noteq> (0x80000000 :: u_dword)" "ucast (w :: u_word) \<noteq> (0x80000000 :: u_dword)"
proof -
  show "ucast b \<noteq> (0x80000000 :: u_dword)"
    using unsigned_less [of b, where ?'a = nat] by (intro small_not_min) (simp add: unsigned_ucast_eq take_bit_nat_eq_self)
  show "ucast w \<noteq> (0x80000000 :: u_dword)"
    using unsigned_less [of w, where ?'a = nat] by (intro small_not_min) (simp add: unsigned_ucast_eq take_bit_nat_eq_self)
qed

lemma decimal_message:
  assumes "37 \<notin> set (chars pre)" and "37 \<notin> set (chars post)"
  shows "message_text fp txt [n] (chars (pre @ ''%d'' @ post)) = chars pre @ number_chars DECIMAL n @ chars post"
    and "n \<noteq> 0x80000000 \<Longrightarrow> message_ok txt s bs [n] (chars (pre @ ''%d'' @ post)) 0"
proof -
  have d: "chars ''%d'' = [37, 100]" by (simp add: chars_def of_char_def)
  have post: "spec_format fp txt arg (chars post) k = chars post" "message_ok txt s bs args (chars post) k" for arg k args
    using spec_format_prefix [of "chars post" fp "txt" arg "[]" k] message_ok_prefix [of "chars post" "txt" s bs args "[]" k] assms(2)
    by simp_all
  have r: "render txt 100 n = Some (number_chars DECIMAL n)" by (simp add: render_def of_char_def)
  show "message_text fp txt [n] (chars (pre @ ''%d'' @ post)) = chars pre @ number_chars DECIMAL n @ chars post"
    unfolding message_text_def chars_append d using assms(1) r post by (simp add: spec_format_prefix)
  show "message_ok txt s bs [n] (chars (pre @ ''%d'' @ post)) 0" if "n \<noteq> 0x80000000"
    unfolding chars_append d using assms(1) post that by (simp add: message_ok_prefix directive_letters of_char_def)
qed

section \<open>The image at start-up\<close>

text \<open>The stack frames lie below the heap and above the descriptor table, and the display adapter answers.\<close>

definition boot_layout :: "'a kernel_state_scheme \<Rightarrow> bool" where
  "boot_layout s \<longleftrightarrow> vga_crtc (device s) \<and>
     (\<forall>x. in_range (format_frame s + 8) 12 x \<or> call_bytes s 5 x \<or> in_range (stack_slot s) 2 x \<longrightarrow>
        0xe00 \<le> unat x \<and> unat x < 0x50000)"

text \<open>The fields the set-up phase does not touch.\<close>

definition boot_fields :: "'a kernel_state_scheme \<Rightarrow> _" where
  "boot_fields s = (literal s, device s, stack_slot s, format_frame s, extract_frame s, system_frame s, int_state.more s)"

text \<open>A literal of the program text: in place, in the same area, and not on the stack.\<close>

definition boot_text :: "'a kernel_state_scheme \<Rightarrow> string \<Rightarrow> bool" where
  "boot_text s l \<longleftrightarrow> cstring (mem s) (literal s l) (chars l) \<and>
     (\<forall>i \<le> length l. 0xe00 \<le> unat (literal s l + of_nat i) \<and> unat (literal s l + of_nat i) < 0x50000 \<and>
        \<not> console_bytes s 2 (literal s l + of_nat i))"

abbreviation handler_message :: string where
  "handler_message \<equiv> ''Handler set for interruption: %d'' @ newline"

abbreviation silenced_message :: string where
  "silenced_message \<equiv> ''Interruption silenced: %d'' @ newline"

abbreviation started_message :: string where
  "started_message \<equiv> ''Kernel started, build: %s - %s'' @ newline"

abbreviation fork_message :: string where
  "fork_message \<equiv> ''fork() returned %d, and getpid() returned %d'' @ newline"

abbreviation fault_message :: string where
  "fault_message \<equiv> ''Page fault! (p: %d, w: %d, u: %d, r: %d) at %h (EIP: %h)''"

abbreviation unknown_message :: string where
  "unknown_message \<equiv> ''Received undefined user interrupt.''"

abbreviation loading_message :: string where
  "loading_message \<equiv> ''Loading module at offset %d, length %d to memory address: %h'' @ newline"

abbreviation result_message :: string where
  "result_message \<equiv> ''Reading result: %d'' @ newline"

definition boot_literals :: "string \<Rightarrow> string \<Rightarrow> string set" where
  "boot_literals build_date build_time =
     {handler_message, silenced_message, started_message, build_date, build_time}"

text \<open>The state in which the first message is printed.\<close>

definition early_setup :: "'a kernel_state_scheme \<Rightarrow> ('a kernel_state_scheme, unit) result" where
  "early_setup s = init_timer kernel_timer_step
     (init_interruptions (initialize_kernel_heap_handler (initialize_heap kernel_heap_start kernel_heap_size s)))"

section \<open>What the early initialisation leaves alone\<close>

lemma fold_install_only: "fold install gs s = s\<lparr>mem := mem (fold install gs s)\<rparr>"
proof (induction gs arbitrary: s)
  case (Cons g gs)
  have "install g s = s\<lparr>mem := mem (install g s)\<rparr>"
    by (simp add: install_def create_idt_entry_def Let_def split: prod.splits)
  then show ?case using Cons.IH [of "install g s"] by (metis fold_simps(2) machine.select_convs(1) machine.surjective machine.update_convs(1))
qed simp

lemma fold_install_outside:
  assumes "0xe00 \<le> unat x" and "\<forall>(p, st) \<in> set gs. p < 256" and "idt_table s = 0x500"
  shows "mem (fold install gs s) x = mem s x"
  using assms(2,3)
proof (induction gs arbitrary: s)
  case (Cons g gs)
  obtain p st where g: "g = (p, st)" by (cases g)
  have "unat (8 * of_nat p :: addr) = 8 * p" using Cons.prems(1) by (simp add: g unat_word_ariths unat_of_nat)
  then have "unat (0x500 + 8 * of_nat p :: addr) = 0x500 + 8 * p"
    using Cons.prems(1) by (subst unat_plus_small) (simp_all add: g)
  then have "\<not> in_range (0x500 + 8 * of_nat p) 8 x" using assms(1) Cons.prems(1) by (simp add: g in_range_linear)
  then have "mem (install g s) x = mem s x"
    using create_idt_entry_outside [of s "of_nat p" x] Cons.prems(2) by (simp add: g install_def)
  then show ?case using Cons.IH [of "install g s"] Cons.prems by simp
qed simp

lemma gates_below:
  "\<forall>(p, st) \<in> set exception_gates. p < 256" "\<forall>(p, st) \<in> set hardware_gates. p < 256"
  "\<forall>(p, st) \<in> set system_gates. p < 256" "\<forall>(p, st) \<in> set default_gates. p < 256"
  by (auto simp: exception_gates_def hardware_gates_def system_gates_def default_gates_def)

lemma remap_controllers_only:
  "\<exists>t. remap_controllers s = s\<lparr>io_trace := t\<rparr> \<and> (\<forall>r. crtc_reg r t = crtc_reg r (io_trace s))"
  by (intro exI [of _ "io_trace (remap_controllers s)"])
    (simp add: remap_controllers_def port_byte_in_def port_byte_out_def Let_def)

lemma init_interruptions_only:
  obtains m t where "init_interruptions s = s\<lparr>idt_table := 0x500, mem := m, io_trace := t, idtr := 0xd00, int_flag := True\<rparr>"
    and "\<And>x. 0xe00 \<le> unat x \<Longrightarrow> m x = mem s x" and "\<And>r. crtc_reg r t = crtc_reg r (io_trace s)"
proof -
  define s1 where "s1 = s\<lparr>idt_table := 0x500, mem := memory_clear 0x500 (256 * 8) 0 (mem s)\<rparr>"
  have g: "gates_installed s = fold install default_gates (fold install system_gates (fold install hardware_gates
      (remap_controllers (fold install exception_gates s1))))"
    by (simp add: gates_installed_def s1_def interruptions_placement_def Let_def)
  define s2 where "s2 = fold install exception_gates s1"
  obtain t where t: "remap_controllers s2 = s2\<lparr>io_trace := t\<rparr>" "\<And>r. crtc_reg r t = crtc_reg r (io_trace s2)"
    using remap_controllers_only by blast
  have s2: "s2 = s1\<lparr>mem := mem s2\<rparr>" unfolding s2_def by (rule fold_install_only)
  define s3 where "s3 = fold install (hardware_gates @ system_gates @ default_gates) (s2\<lparr>io_trace := t\<rparr>)"
  have g3: "gates_installed s = s3" unfolding g s3_def s2_def [symmetric] t(1) by simp
  have s3: "s3 = s2\<lparr>io_trace := t\<rparr>\<lparr>mem := mem s3\<rparr>" unfolding s3_def by (rule fold_install_only)
  have out: "mem s3 x = mem s x" if "0xe00 \<le> unat x" for x
  proof -
    have i: "idt_table s2 = 0x500" "idt_table s1 = 0x500" by (simp_all add: s2_def s1_def)
    have all: "\<forall>(p, st) \<in> set (hardware_gates @ system_gates @ default_gates). p < 256"
      using gates_below unfolding set_append ball_Un by blast
    have "mem s3 x = mem s2 x" unfolding s3_def by (subst fold_install_outside [OF that all]) (simp_all add: i)
    also have "\<dots> = mem s1 x" unfolding s2_def by (rule fold_install_outside [OF that gates_below(1) i(2)])
    also have "\<dots> = mem s x" using that by (simp add: s1_def memory_clear_apply in_range_linear)
    finally show ?thesis .
  qed
  define m where "m = store32 (store16 (mem s3) 0xd00 2047) 0xd02 0x500"
  have "init_interruptions s = s\<lparr>idt_table := 0x500, mem := m, io_trace := t, idtr := 0xd00, int_flag := True\<rparr>"
    unfolding init_interruptions_eq g3 m_def by (subst s3, subst s2) (simp add: s1_def idt_flush_def)
  moreover have "m x = mem s x" if "0xe00 \<le> unat x" for x
    unfolding m_def using that out [OF that] by (simp add: store32_outside store16_outside in_range_linear)
  moreover have "crtc_reg r t = crtc_reg r (io_trace s)" for r
  proof -
    have "io_trace s2 = io_trace s" by (subst s2) (simp add: s1_def)
    then show ?thesis using t(2) by simp
  qed
  ultimately show thesis by (rule that)
qed

lemma early_setup_state:
  fixes s :: "'a kernel_state_scheme"
  obtains s1 where "early_setup s = Inr ((), s1)" and "heap_ok s1 []" and "heap_area s1 = (0x50000, 0x5000c, 0xd0000)"
    and "\<And>x. 0xe00 \<le> unat x \<Longrightarrow> \<not> in_range 0x50000 12 x \<Longrightarrow> mem s1 x = mem s x"
    and "\<And>r. crtc_reg r (io_trace s1) = crtc_reg r (io_trace s)"
    and "interruption_handlers s1 = (interruption_handlers s)(32 \<mapsto> Timer_callback)" and "literal s1 = literal s"
    and "device s1 = device s" and "stack_slot s1 = stack_slot s" and "format_frame s1 = format_frame s"
    and "extract_frame s1 = extract_frame s" and "system_frame s1 = system_frame s"
    and "int_state.more s1 = int_state.more s"
proof -
  define s0 where "s0 = initialize_kernel_heap_handler (initialize_heap 0x50000 0x80000 s)"
  have s0: "interruption_handlers s0 = interruption_handlers s" "literal s0 = literal s" "device s0 = device s"
    "stack_slot s0 = stack_slot s" "format_frame s0 = format_frame s" "extract_frame s0 = extract_frame s"
    "system_frame s0 = system_frame s" "io_trace s0 = io_trace s" "int_state.more s0 = int_state.more s"
    by (simp_all add: s0_def initialize_kernel_heap_handler_def initialize_heap_def handle_exceptions_def set_first_address_def Let_def)
  have v: "mem s0 = mem (initialize_heap 0x50000 0x80000 s)" "header s0 = header (initialize_heap 0x50000 0x80000 s)"
    by (simp_all add: s0_def initialize_kernel_heap_handler_def handle_exceptions_def)
  have "heap_ok (initialize_heap 0x50000 0x80000 s) []" by (rule initialize_heap_ok) (simp_all add: VIDEO_MEMORY_def)
  then have ok: "heap_ok s0 []" and area: "heap_area s0 = (0x50000, 0x5000c, 0xd0000)"
    using heap_view(1,5) [OF v] by (simp_all add: heap_area_def initialize_heap_fields)
  obtain m t where i: "init_interruptions s0 = s0\<lparr>idt_table := 0x500, mem := m, io_trace := t, idtr := 0xd00, int_flag := True\<rparr>"
    "\<And>x. 0xe00 \<le> unat x \<Longrightarrow> m x = mem s0 x" "\<And>r. crtc_reg r t = crtc_reg r (io_trace s0)"
    by (rule init_interruptions_only) blast
  have "m x = mem s0 x" if "\<not> held_byte s0 [] x" for x
    using that i(2) [of x] area by (simp add: held_byte_def heap_area_def)
  note w = held_write [OF ok, of m, OF this]
  define s1 where "s1 = snd (projr (early_setup s))"
  have e: "early_setup s = Inr ((), s1)" and m1: "mem s1 = mem (s0\<lparr>mem := m\<rparr>)" and h1: "header s1 = header (s0\<lparr>mem := m\<rparr>)"
    and t1: "\<And>r. crtc_reg r (io_trace s1) = crtc_reg r t"
    by (simp_all add: s1_def early_setup_def kernel_heap_start_def kernel_heap_size_def s0_def [symmetric] i(1)
      init_timer_def kernel_timer_step_def put_handler_def port_byte_out_def Let_def)
  show thesis
  proof (rule that [OF e])
    show "heap_ok s1 []" "heap_area s1 = (0x50000, 0x5000c, 0xd0000)"
      using heap_view(1,5) [OF m1 h1] w(1,3,4) area by (simp_all add: heap_area_def)
    show "mem s1 x = mem s x" if "0xe00 \<le> unat x" "\<not> in_range 0x50000 12 x" for x
      using that i(2) v(1) initialize_heap_fields(6) [of "0x50000" x "0x80000" s] m1 by simp
    show "crtc_reg r (io_trace s1) = crtc_reg r (io_trace s)" for r
      using t1 i(3) s0 by simp
  qed (use s0 in \<open>simp_all add: s1_def early_setup_def kernel_heap_start_def kernel_heap_size_def s0_def [symmetric] i(1)
      init_timer_def kernel_timer_step_def put_handler_def port_byte_out_def Let_def\<close>)
qed

section \<open>The messages of the set-up phase\<close>

lemma two_digits: "10 \<le> n \<Longrightarrow> n < 100 \<Longrightarrow> digits 10 n = [n div 10, n mod 10]"
  by (subst digits.simps, subst digits.simps, subst digits.simps) simp

lemma vector_numbers:
  "number_chars DECIMAL 48 = chars ''48''" "number_chars DECIMAL 49 = chars ''49''"
  "number_chars DECIMAL 33 = chars ''33''" "number_chars DECIMAL 46 = chars ''46''"
  by (simp_all add: number_chars_def magnitude_chars_def numeral_chars_def base_def two_digits chars_def of_char_def)

lemma format_budget_mono: "n \<le> n' \<Longrightarrow> l \<le> l' \<Longrightarrow> format_budget n l \<le> format_budget n' l'"
  unfolding format_budget_def by (intro add_mono mult_mono) simp_all

lemma small_budget: "32 + format_budget 50 70 \<le> 40000"
  by (simp add: format_budget_def)

lemma raise_eq: "raise = interrupt (Suc 169)"
  by (simp only: raise_def stack_depth_def) simp

text \<open>One registration: the handler is entered and a line printed.\<close>

lemma vector_line:
  fixes s :: "'a kernel_state_scheme"
  assumes r: "ready s bs 2 N L v" and l: "pre @ ''%d'' @ newline \<in> L" and N: "40000 \<le> N"
    and n: "number_chars DECIMAL n = chars num" "length num < 4" "8 \<notin> set (chars num)" "n \<noteq> 0x80000000"
    and pre: "37 \<notin> set (chars pre)" "8 \<notin> set (chars pre)" "length pre < 40"
  obtains s' where "info raise (pre @ ''%d'' @ newline) [n] s = Inr ((), s')" and "output_only s s'"
    and "ready s' bs 2 N L (spec_show HIGH_BLUE BLACK (chars (pre @ num @ newline)) v)" and "heap_area s' = heap_area s"
    and "\<And>x. held_byte s bs x \<Longrightarrow> \<not> console_bytes s 2 x \<Longrightarrow> mem s' x = mem s x"
proof -
  have post: "37 \<notin> set (chars newline)" "8 \<notin> set (chars newline)" by (simp_all add: chars_def of_char_def)
  have msg: "message_ok (\<lambda>_. []) s bs [n] (chars (pre @ ''%d'' @ newline)) 0"
    and out: "message_text (fp_unit s) (\<lambda>_. []) [n] (chars (pre @ ''%d'' @ newline)) = chars (pre @ num @ newline)"
    using decimal_message(1) [OF pre(1) post(1)] decimal_message(2) [OF pre(1) post(1) n(4)] n(1) by (simp_all only: chars_append)
  have len: "length (chars l) = length l" for l by (simp add: chars_def)
  have "format_budget (length (pre @ ''%d'' @ newline)) (length (pre @ num @ newline)) \<le> format_budget 50 70"
    using n(2) pre(3) by (intro format_budget_mono) simp_all
  then have "32 + format_budget (length (pre @ ''%d'' @ newline)) (length (pre @ num @ newline)) \<le> N"
    using N small_budget by linarith
  then show thesis
    using print_literal_ready [OF r l _ msg, of HIGH_BLUE 169] that n(2,3) pre(2,3) post(2)
    unfolding out len raise_def stack_depth_def by (auto simp: chars_append len)
qed

lemma started_line:
  fixes s :: "'a kernel_state_scheme"
  assumes r: "ready s bs 2 N L v" and L: "started_message \<in> L" "build_date \<in> L" "build_time \<in> L" and N: "40000 \<le> N"
    and len: "length build_date \<le> 20" "length build_time \<le> 20" and bs: "8 \<notin> set (chars (build_date @ build_time))"
  obtains s' where "good raise started_message [literal s build_date, literal s build_time] s = Inr ((), s')"
    and "output_only s s'" and "ready s' bs 2 N L
      (spec_show HIGH_GREEN BLACK (chars (''Kernel started, build: '' @ build_date @ '' - '' @ build_time @ newline)) v)"
    and "heap_area s' = heap_area s"
proof -
  define texts where "texts p = (if p = literal s build_date then chars build_date else chars build_time)" for p
  let ?args = "[literal s build_date, literal s build_time]"
  have t: "text_at s bs 2 (literal s build_date) (chars build_date)" "text_at s bs 2 (literal s build_time) (chars build_time)"
    using r L by (auto simp: ready_def)
  have same: "texts (literal s build_time) = chars build_time"
    using t cstring_unique unfolding texts_def text_at_def held_string_def by metis
  have lc: "length (chars l) = length l" for l by (simp add: chars_def)
  have c: "chars started_message = chars ''Kernel started, build: '' @ [37, 115] @ chars '' - '' @ [37, 115, 10]"
    by (simp add: chars_def of_char_def)
  have p: "37 \<notin> set (chars ''Kernel started, build: '')" "37 \<notin> set (chars '' - '')"
    "8 \<notin> set (chars ''Kernel started, build: '')" "8 \<notin> set (chars '' - '')" "8 \<notin> set (chars newline)"
    by (simp_all add: chars_def of_char_def)
  have s115: "render texts 115 q = Some (texts q)" for q by (simp add: render_def of_char_def)
  have d: "texts (literal s build_date) = chars build_date" by (simp add: texts_def)
  have out: "message_text (fp_unit s) texts ?args (chars started_message) =
    chars (''Kernel started, build: '' @ build_date @ '' - '' @ build_time @ newline)" (is "_ = ?out")
    unfolding message_text_def c using p
    by (simp add: spec_format_prefix chars_append) (simp add: s115 same d chars_def of_char_def)
  have msg: "message_ok texts s bs ?args (chars started_message) 0"
    unfolding c using p t [unfolded numeral_2_eq_2] len
    by (simp add: message_ok_prefix directive_letters of_char_def same d lc)
  have small: "length started_message = 31" "length ?out \<le> 70" using len by (simp_all add: lc)
  then have "format_budget (length started_message) (length ?out) \<le> format_budget 50 70"
    by (intro format_budget_mono) simp_all
  then have budget: "32 + format_budget (length started_message) (length ?out) \<le> N"
    using N small_budget by linarith
  have eight: "8 \<notin> set ?out" using p(3-5) bs unfolding chars_append set_append by blast
  have two: "length ?args \<le> 2" by simp
  have short: "length started_message + 3 < 2 ^ 31" "length ?out + 1 < 2 ^ 31" using small by simp_all
  show thesis
    by (rule print_literal_ready [OF r L(1) two msg short(1), unfolded out, OF short(2) eight budget, of HIGH_GREEN 169])
      (use that in \<open>simp only: raise_eq\<close>)
qed

text \<open>The console after the first registration.\<close>

lemma early_ready:
  fixes s :: "'a kernel_state_scheme"
  assumes lay: "boot_layout s" and lits: "\<And>l. l \<in> L \<union> set format_literals \<Longrightarrow> boot_text s l" and v: "displays s v"
  obtains s1 where "early_setup s = Inr ((), s1)" and "ready (put_handler 48 Screen_callback s1) [] 2 0x60000 L v"
    and "interruption_handlers s1 = (interruption_handlers s)(32 \<mapsto> Timer_callback)"
    and "heap_area s1 = (0x50000, 0x5000c, 0xd0000)" and "boot_fields s1 = boot_fields s"
proof -
  obtain s1 where e: "early_setup s = Inr ((), s1)" "heap_ok s1 []" "heap_area s1 = (0x50000, 0x5000c, 0xd0000)"
    and out: "\<And>x. 0xe00 \<le> unat x \<Longrightarrow> \<not> in_range 0x50000 12 x \<Longrightarrow> mem s1 x = mem s x"
    and t: "\<And>r. crtc_reg r (io_trace s1) = crtc_reg r (io_trace s)"
    and h: "interruption_handlers s1 = (interruption_handlers s)(32 \<mapsto> Timer_callback)"
    and f: "literal s1 = literal s" "device s1 = device s" "stack_slot s1 = stack_slot s" "format_frame s1 = format_frame s"
      "extract_frame s1 = extract_frame s" "system_frame s1 = system_frame s" "int_state.more s1 = int_state.more s"
    by (rule early_setup_state [of s]) blast
  let ?s = "put_handler 48 Screen_callback s1"
  have vw: "mem ?s = mem s1" "header ?s = header s1" by (simp_all add: put_handler_def)
  note hv = heap_view [OF vw]
  have held: "held_byte ?s [] x" if "unat x < 0x50000 \<or> 0xb8000 \<le> unat x" for x
    using that e(3) unfolding hv by (auto simp: held_byte_def usable_end_def heap_area_def VIDEO_MEMORY_def)
  have g: "call_bytes ?s n x \<longleftrightarrow> call_bytes s n x" "screen_bytes ?s x \<longleftrightarrow> screen_bytes s x"
    "console_bytes ?s k x \<longleftrightarrow> console_bytes s k x" for n k x
    by (simp_all add: call_bytes_def screen_bytes_def console_bytes_def put_handler_def f)
  have frames: "0xe00 \<le> unat x \<and> unat x < 0x50000"
    if "in_range (format_frame s + 8) 12 x \<or> call_bytes s 5 x \<or> in_range (stack_slot s) 2 x" for x
    using lay that unfolding boot_layout_def by blast
  have vid: "in_range VIDEO_MEMORY n x \<longleftrightarrow> 0xb8000 \<le> unat x \<and> unat x < 0xb8000 + n" if "n \<le> 5000" for n x
    using that by (simp add: in_range_linear VIDEO_MEMORY_def)
  have strs: "text_at ?s [] 2 (literal s l) (chars l)" if "l \<in> L \<union> set format_literals" for l
  proof -
    note b = lits [OF that, unfolded boot_text_def]
    have len: "length (chars l) = length l" by (simp add: chars_def)
    have "mem s1 (literal s l + of_nat i) = mem s (literal s l + of_nat i)" if "i \<le> length l" for i
      using b that by (intro out) (auto simp: in_range_linear)
    then have "cstring (mem s1) (literal s l) (chars l)"
      using b cstring_cong [of "chars l" "mem s1" "literal s l" "mem s"] by (simp add: len)
    then show ?thesis using b held by (simp add: text_at_def held_string_def len vw g)
  qed
  have bytes: "held_byte ?s [] x" if "console_bytes s 2 x" for x
    using that frames [of x] vid [of 4006 x] by (intro held) (auto simp: console_bytes_def screen_bytes_def)
  have "slot_ok s" unfolding slot_ok_def disjoint_ranges_def using frames vid [of 4000] by fastforce
  then have fixed: "slot_ok ?s" "vga_crtc (device ?s)" "literal ?s = literal s" "format_frame ?s = format_frame s"
    using lay by (simp_all add: put_handler_def f slot_ok_def boot_layout_def)
  have "\<not> in_range VIDEO_MEMORY 4000 x" if "in_range (format_frame s + 8) (4 * (2 + 1)) x \<or> call_bytes s 5 x" for x
    using that frames [of x] vid [of 4000 x] by auto
  then have "console_ok ?s [] 2"
    unfolding console_ok_def g fixed(3,4) using e(2) hv(1) bytes strs fixed(1,2) by simp
  moreover have "cells_of (mem s1) = cells_of (mem s)"
    using vid [of 4000] by (intro cells_of_cong out) (auto simp: in_range_linear)
  then have "displays ?s v" using v by (simp add: displays_def vw cursor_is_def t) (simp add: put_handler_def t)
  moreover have "reserve ?s [] 0x60000"
    using e(3) unfolding hv by (auto simp: reserve_def usable_end_def heap_area_def VIDEO_MEMORY_def)
  ultimately have "ready ?s [] 2 0x60000 L v" using strs by (simp add: ready_def put_handler_def f)
  then show thesis using that [OF e(1) _ h e(3)] f by (simp add: boot_fields_def)
qed

section \<open>The set-up phase\<close>

definition handler_text :: "string \<Rightarrow> u_byte list" where
  "handler_text num = chars (''Handler set for interruption: '' @ num @ newline)"

definition silenced_text :: "string \<Rightarrow> u_byte list" where
  "silenced_text num = chars (''Interruption silenced: '' @ num @ newline)"

definition started_text :: "string \<Rightarrow> string \<Rightarrow> u_byte list" where
  "started_text build_date build_time = chars (''Kernel started, build: '' @ build_date @ '' - '' @ build_time @ newline)"

text \<open>What is on the screen after the set-up phase, given what was there before.\<close>

definition boot_screen :: "string \<Rightarrow> string \<Rightarrow> cell list \<times> nat \<Rightarrow> cell list \<times> nat" where
  "boot_screen build_date build_time v =
     spec_show HIGH_BLUE BLACK (silenced_text ''46'')
    (spec_show HIGH_BLUE BLACK (handler_text ''33'')
    (spec_show HIGH_GREEN BLACK (started_text build_date build_time)
    (spec_show HIGH_BLUE BLACK (handler_text ''49'')
    (spec_show HIGH_BLUE BLACK (handler_text ''48'') v))))"

lemma plain_texts:
  "37 \<notin> set (chars ''Handler set for interruption: '')" "8 \<notin> set (chars ''Handler set for interruption: '')"
  "37 \<notin> set (chars ''Interruption silenced: '')" "8 \<notin> set (chars ''Interruption silenced: '')"
  "8 \<notin> set (chars ''48'')" "8 \<notin> set (chars ''49'')" "8 \<notin> set (chars ''33'')" "8 \<notin> set (chars ''46'')"
  by (simp_all add: chars_def of_char_def)

lemma put_handler_view:
  fixes s :: "'a kernel_state_scheme"
  shows "heap_area (put_handler n h s) = heap_area s" and "held_byte (put_handler n h s) bs x \<longleftrightarrow> held_byte s bs x"
    and "console_bytes (put_handler n h s) k x \<longleftrightarrow> console_bytes s k x" and "mem (put_handler n h s) = mem s"
    and "int_state.more (put_handler n h s) = int_state.more s"
proof -
  have v: "mem (put_handler n h s) = mem s" "header (put_handler n h s) = header s" by (simp_all add: put_handler_def)
  show "heap_area (put_handler n h s) = heap_area s" "held_byte (put_handler n h s) bs x \<longleftrightarrow> held_byte s bs x"
    by (rule heap_view [OF v])+
  show "console_bytes (put_handler n h s) k x \<longleftrightarrow> console_bytes s k x"
    by (simp add: console_bytes_def call_bytes_def screen_bytes_def put_handler_def)
qed (simp_all add: put_handler_def)

lemma output_only_more:
  fixes s s' :: "'a kernel_state_scheme"
  assumes "output_only s s'"
  shows "int_state.more s' = int_state.more s"
  by (subst assms [THEN output_io_only, unfolded io_only_def]) simp

lemma output_only_boot:
  fixes s s' :: "'a kernel_state_scheme"
  assumes "output_only s s'"
  shows "boot_fields s' = boot_fields s" and "interruption_handlers s' = interruption_handlers s"
  using output_only_fields [OF assms] output_only_more [OF assms] by (simp_all add: boot_fields_def)

lemma put_handler_boot: "boot_fields (put_handler n h s) = boot_fields s"
  by (simp add: boot_fields_def put_handler_def)

lemma register_line:
  fixes s :: "'a kernel_state_scheme"
  assumes "ready (put_handler n h s) bs 2 N L v" and "handler_message \<in> L" and "40000 \<le> N" and "n \<noteq> 32"
    and "number_chars DECIMAL (ucast n) = chars num" and "length num < 4" and "8 \<notin> set (chars num)"
  obtains s' where "set_interrupt_handler n h s = Inr ((), s')"
    and "ready s' bs 2 N L (spec_show HIGH_BLUE BLACK (handler_text num) v)"
    and "output_only (put_handler n h s) s'" and "heap_area s' = heap_area s"
    and "\<And>x. held_byte s bs x \<Longrightarrow> \<not> console_bytes s 2 x \<Longrightarrow> mem s' x = mem s x"
proof -
  have "''Handler set for interruption: '' @ ''%d'' @ newline \<in> L" using assms(2) by simp
  from vector_line [OF assms(1) this assms(3,5-7) ucast_not_min(1) plain_texts(1,2)] obtain s' where
    o0: "info raise (''Handler set for interruption: '' @ ''%d'' @ newline) [ucast n] (put_handler n h s) = Inr ((), s')"
    and o: "output_only (put_handler n h s) s'" "ready s' bs 2 N L (spec_show HIGH_BLUE BLACK (handler_text num) v)"
    "heap_area s' = heap_area (put_handler n h s)"
    "\<And>x. held_byte (put_handler n h s) bs x \<Longrightarrow> \<not> console_bytes (put_handler n h s) 2 x \<Longrightarrow> mem s' x = mem (put_handler n h s) x"
    unfolding handler_text_def by auto
  from o0 have "set_interrupt_handler n h s = Inr ((), s')" using assms(4) by (simp add: set_interrupt_handler_def)
  then show thesis using that o(2,1) o(3,4) [unfolded put_handler_view] by blast
qed

lemma silence_line:
  fixes s :: "'a kernel_state_scheme"
  assumes "ready (put_handler n Silent_handler s) bs 2 N L v" and "silenced_message \<in> L" and "40000 \<le> N" and "n \<noteq> 32"
    and "number_chars DECIMAL (ucast n) = chars num" and "length num < 4" and "8 \<notin> set (chars num)"
  obtains s' where "silence_interrupt n s = Inr ((), s')"
    and "ready s' bs 2 N L (spec_show HIGH_BLUE BLACK (silenced_text num) v)"
    and "output_only (put_handler n Silent_handler s) s'" and "heap_area s' = heap_area s"
proof -
  have "''Interruption silenced: '' @ ''%d'' @ newline \<in> L" using assms(2) by simp
  from vector_line [OF assms(1) this assms(3,5-7) ucast_not_min(1) plain_texts(3,4)] obtain s' where
    o0: "info raise (''Interruption silenced: '' @ ''%d'' @ newline) [ucast n] (put_handler n Silent_handler s) = Inr ((), s')"
    and o: "output_only (put_handler n Silent_handler s) s'" "ready s' bs 2 N L (spec_show HIGH_BLUE BLACK (silenced_text num) v)"
    "heap_area s' = heap_area (put_handler n Silent_handler s)"
    unfolding silenced_text_def by auto
  from o0 have "silence_interrupt n s = Inr ((), s')" using assms(4) by (simp add: silence_interrupt_def)
  then show thesis using that o(2,1) o(3) [unfolded put_handler_view] by blast
qed

lemma kernel_setup_ready:
  fixes s :: "'a kernel_state_scheme"
  assumes lay: "boot_layout s" and v: "displays s v"
    and lits: "\<And>l. l \<in> L \<union> set format_literals \<Longrightarrow> boot_text s l" and L: "boot_literals build_date build_time \<subseteq> L"
    and len: "length build_date \<le> 20" "length build_time \<le> 20" and bs: "8 \<notin> set (chars (build_date @ build_time))"
  obtains s' where "kernel_setup build_date build_time s = Inr ((), s')"
    and "ready s' [] 2 0x60000 L (boot_screen build_date build_time v)"
    and "interruption_handlers s' = (interruption_handlers s)(32 \<mapsto> Timer_callback, 48 \<mapsto> Screen_callback,
      49 \<mapsto> Debug_handler, 33 \<mapsto> Keyboard_callback, 46 \<mapsto> Silent_handler)"
    and "heap_area s' = (0x50000, 0x5000c, 0xd0000)" and "boot_fields s' = boot_fields s"
proof -
  have l: "handler_message \<in> L" "silenced_message \<in> L" "started_message \<in> L" "build_date \<in> L" "build_time \<in> L"
    using L by (simp_all only: boot_literals_def insert_subset)
  have N: "40000 \<le> (0x60000 :: nat)" by simp
  obtain s1 where s1: "early_setup s = Inr ((), s1)" "ready (put_handler 48 Screen_callback s1) [] 2 0x60000 L v"
    "interruption_handlers s1 = (interruption_handlers s)(32 \<mapsto> Timer_callback)" "heap_area s1 = (0x50000, 0x5000c, 0xd0000)"
    "boot_fields s1 = boot_fields s"
    by (rule early_ready [OF lay lits v]) blast+
  obtain s2 where s2: "init_screen_io s1 = Inr ((), s2)"
    "ready s2 [] 2 0x60000 L (spec_show HIGH_BLUE BLACK (handler_text ''48'') v)"
    "output_only (put_handler 48 Screen_callback s1) s2" "heap_area s2 = heap_area s1"
    by (rule register_line [OF s1(2) l(1) N, where num = "''48''"]) (simp_all add: vector_numbers plain_texts init_screen_io_def)
  have r3: "ready (put_handler 49 Debug_handler s2) [] 2 0x60000 L (spec_show HIGH_BLUE BLACK (handler_text ''48'') v)"
    by (rule ready_put_handler [OF s2(2)]) simp
  obtain s3 where s3: "init_debug_handler s2 = Inr ((), s3)"
    "ready s3 [] 2 0x60000 L (spec_show HIGH_BLUE BLACK (handler_text ''49'') (spec_show HIGH_BLUE BLACK (handler_text ''48'') v))"
    "output_only (put_handler 49 Debug_handler s2) s3" "heap_area s3 = heap_area s2"
    by (rule register_line [OF r3 l(1) N, where num = "''49''"]) (simp_all add: vector_numbers plain_texts init_debug_handler_def)
  let ?v3 = "spec_show HIGH_BLUE BLACK (handler_text ''49'') (spec_show HIGH_BLUE BLACK (handler_text ''48'') v)"
  obtain s4 where s4: "good raise started_message [literal s3 build_date, literal s3 build_time] s3 = Inr ((), s4)"
    "heap_area s4 = heap_area s3" "output_only s3 s4" "ready s4 [] 2 0x60000 L (spec_show HIGH_GREEN BLACK (started_text build_date build_time) ?v3)"
    by (rule started_line [OF s3(2) l(3-5) N len bs]) (simp only: started_text_def)
  let ?v4 = "spec_show HIGH_GREEN BLACK (started_text build_date build_time) ?v3"
  have r5: "ready (put_handler 33 Keyboard_callback s4) [] 2 0x60000 L ?v4" by (rule ready_put_handler [OF s4(4)]) simp
  obtain s5 where s5: "init_keyboard s4 = Inr ((), s5)" "ready s5 [] 2 0x60000 L (spec_show HIGH_BLUE BLACK (handler_text ''33'') ?v4)"
    "output_only (put_handler 33 Keyboard_callback s4) s5" "heap_area s5 = heap_area s4"
    by (rule register_line [OF r5 l(1) N, where num = "''33''"]) (simp_all add: vector_numbers plain_texts init_keyboard_def)
  have r6: "ready (put_handler 46 Silent_handler s5) [] 2 0x60000 L (spec_show HIGH_BLUE BLACK (handler_text ''33'') ?v4)"
    by (rule ready_put_handler [OF s5(2)]) simp
  obtain s6 where s6: "init_module_loading_driver s5 = Inr ((), s6)" "ready s6 [] 2 0x60000 L (boot_screen build_date build_time v)"
    "output_only (put_handler 46 Silent_handler s5) s6" "heap_area s6 = heap_area s5"
    by (rule silence_line [OF r6 l(2) N, where num = "''46''"])
      (simp_all add: vector_numbers plain_texts init_module_loading_driver_def boot_screen_def)
  note o = output_only_boot [OF s2(3)] output_only_boot [OF s3(3)] output_only_boot [OF s4(3)] output_only_boot [OF s5(3)]
    output_only_boot [OF s6(3)]
  show thesis
  proof (rule that [OF _ s6(2)])
    show "kernel_setup build_date build_time s = Inr ((), s6)"
      using s1(1) s2(1) s3(1) s4(1) s5(1) s6(1) unfolding kernel_setup_def early_setup_def Let_def by (simp only: and_then_Inr)
    show "interruption_handlers s6 = (interruption_handlers s)(32 \<mapsto> Timer_callback, 48 \<mapsto> Screen_callback,
      49 \<mapsto> Debug_handler, 33 \<mapsto> Keyboard_callback, 46 \<mapsto> Silent_handler)" "boot_fields s6 = boot_fields s"
      using o s1(3,5) by (simp_all add: put_handler_boot) (simp add: put_handler_def)
    show "heap_area s6 = (0x50000, 0x5000c, 0xd0000)" using s1(4) s2(4) s3(4) s4(2) s5(4) s6(4) by simp
  qed
qed

section \<open>A boot image\<close>

text \<open>Literals every 256 bytes from 0x20000 on, the stack around 0x5000, a blank screen.\<close>

definition image_texts :: "string list" where
  "image_texts = format_literals @
     [handler_message, silenced_message, started_message, fork_message, ''Jan 01 2021'', ''12:00:00'',
      ''Exception #%d!'', '' Type: %s.'' @ newline, ''Message: %s'' @ newline, ''Code location: %s:%d'' @ newline, ''KERNEL PANIC'',
      fault_message, ''./core/kernel/pages.c'', unknown_message, loading_message, result_message]"

definition image_bytes :: memory where
  "image_bytes x =
     (let off = unat x - 0x20000; i = off div 256; j = off mod 256
      in if 0x20000 \<le> unat x \<and> i < length image_texts \<and> j < length (image_texts ! i)
         then of_char (image_texts ! i ! j) else 0)"

definition image_literal :: "string \<Rightarrow> addr" where
  "image_literal l = 0x20000 + of_nat (256 * length (takeWhile (\<lambda>t. t \<noteq> l) image_texts))"

definition boot_demo :: kernel_state where
  "boot_demo = (set_cursor_offset 0 demo_tasks)\<lparr>mem := image_bytes, literal := image_literal, device := vga_device,
     kernel_directory := 0, current_directory := 0, current_task := 0, ready_queue := 0, next_pid := 0, paging_enabled := False\<rparr>"

lemma image_texts_short: "l \<in> set image_texts \<Longrightarrow> length l < 100 \<and> 0 \<notin> set (chars l)"
  by (auto simp: image_texts_def format_literals_def chars_def of_char_def)

lemma takeWhile_shorter: "x \<in> set xs \<Longrightarrow> length (takeWhile (\<lambda>t. t \<noteq> x) xs) < length xs"
  by (induction xs) auto

lemma image_literal_at:
  assumes "l \<in> set image_texts"
  obtains i where "i < length image_texts" and "image_texts ! i = l" and "image_literal l = 0x20000 + of_nat (256 * i)"
proof -
  define i where "i = length (takeWhile (\<lambda>t. t \<noteq> l) image_texts)"
  have "i < length image_texts" unfolding i_def using takeWhile_shorter [OF assms] .
  moreover from this have "image_texts ! i = l" unfolding i_def using nth_length_takeWhile by blast
  ultimately show thesis using that by (simp add: image_literal_def i_def)
qed

lemma image_address:
  assumes "l \<in> set image_texts" and "j < 256"
  shows "0x20000 \<le> unat (image_literal l + of_nat j)" and "unat (image_literal l + of_nat j) < 0x22000"
    and "image_bytes (image_literal l + of_nat j) = (if j < length l then of_char (l ! j) else 0)"
proof -
  from image_literal_at [OF assms(1)] obtain i where i: "i < length image_texts" "image_texts ! i = l"
    "image_literal l = 0x20000 + of_nat (256 * i)" .
  have n: "length image_texts = 23" by (simp add: image_texts_def format_literals_def)
  have e: "image_literal l + of_nat j = 0x20000 + of_nat (256 * i + j)" using i(3) by (simp add: add.assoc)
  have "unat (of_nat (256 * i + j) :: addr) = 256 * i + j" using i(1) n assms(2) by (intro unat_of_nat32) simp
  then have u: "unat (image_literal l + of_nat j) = 0x20000 + (256 * i + j)"
    unfolding e using i(1) n assms(2) by (subst unat_plus_small) (simp_all del: of_nat_add of_nat_mult)
  then show "0x20000 \<le> unat (image_literal l + of_nat j)" "unat (image_literal l + of_nat j) < 0x22000"
    using i(1) n assms(2) by simp_all
  show "image_bytes (image_literal l + of_nat j) = (if j < length l then of_char (l ! j) else 0)"
    using i(1,2) assms(2) by (simp add: image_bytes_def u)
qed

lemma boot_demo_fields:
  "mem boot_demo = image_bytes" "literal boot_demo = image_literal" "device boot_demo = vga_device"
  "format_frame boot_demo = 0x5000" "extract_frame boot_demo = 0x5100" "system_frame boot_demo = 0x5200"
  "stack_slot boot_demo = 0x6000"
  by (simp_all add: boot_demo_def set_cursor_offset_def port_byte_out_def demo_tasks_def)

lemma boot_demo_layout: "boot_layout boot_demo"
  by (auto simp: boot_layout_def boot_demo_fields vga_device_crtc call_bytes_def in_range_linear)

lemma boot_demo_text:
  assumes "l \<in> set image_texts"
  shows "boot_text boot_demo l"
proof -
  note sh = image_texts_short [OF assms] and ad = image_address [OF assms]
  have "cstring image_bytes (image_literal l) (chars l)"
    unfolding cstring_iff using sh ad(3) by (simp add: chars_def)
  moreover have "\<not> console_bytes boot_demo 2 x" if "0x20000 \<le> unat x" "unat x < 0x22000" for x
    using that by (auto simp: console_bytes_def call_bytes_def screen_bytes_def boot_demo_fields in_range_linear VIDEO_MEMORY_def)
  moreover have "0x20000 \<le> unat (image_literal l + of_nat i) \<and> unat (image_literal l + of_nat i) < 0x22000" if "i \<le> length l" for i
    using ad(1,2) [of i] sh that by simp
  ultimately show ?thesis unfolding boot_text_def boot_demo_fields by fastforce
qed

lemma boot_demo_displays: "displays boot_demo (replicate 2000 (0, 0), 0)"
proof -
  have "cells_of image_bytes = replicate 2000 (0, 0)"
  proof (rule nth_equalityI)
    fix i
    assume "i < length (cells_of image_bytes)"
    then have i: "i < 2000" by simp
    have "image_bytes (VIDEO_MEMORY + of_nat j) = 0" if "j < 4000" for j
    proof -
      have "unat (VIDEO_MEMORY + of_nat j) = 0xb8000 + j"
        using that by (subst unat_plus_small) (simp_all add: VIDEO_MEMORY_def unat_of_nat)
      moreover have "length image_texts = 23" by (simp add: image_texts_def format_literals_def)
      moreover have "\<not> (622592 + j) div 256 < 23" by simp
      ultimately show ?thesis by (simp add: image_bytes_def Let_def)
    qed
    from this [of "2 * i"] this [of "2 * i + 1"] show "cells_of image_bytes ! i = replicate 2000 (0, 0) ! i"
      using i by (simp add: cell_at_def)
  qed simp
  moreover have "cursor_is boot_demo 0"
    using set_cursor_offset_cursor [of 0 demo_tasks] by (simp add: boot_demo_def cursor_is_def)
  ultimately show ?thesis by (simp add: displays_def boot_demo_fields)
qed

section \<open>Properties of the console and of start-up\<close>

lemma boot_demo_literals:
  "l \<in> boot_literals ''Jan 01 2021'' ''12:00:00'' \<union> set format_literals \<Longrightarrow> boot_text boot_demo l"
  by (rule boot_demo_text) (auto simp: boot_literals_def image_texts_def)

lemma demo_dates: "length ''Jan 01 2021'' \<le> 20" "length ''12:00:00'' \<le> 20" "8 \<notin> set (chars (''Jan 01 2021'' @ ''12:00:00''))"
  by (simp_all add: chars_def of_char_def)

text \<open>The machine after the set-up phase, for the witnesses below.\<close>

lemma demo_ready:
  obtains s where "kernel_setup ''Jan 01 2021'' ''12:00:00'' boot_demo = Inr ((), s)"
    and "ready s [] 2 0x60000 (boot_literals ''Jan 01 2021'' ''12:00:00'')
      (boot_screen ''Jan 01 2021'' ''12:00:00'' (replicate 2000 (0, 0), 0))"
  by (rule kernel_setup_ready [OF boot_demo_layout boot_demo_displays boot_demo_literals order_refl demo_dates]) blast+

lemma demo_message:
  "message_ok (\<lambda>_. []) s bs [48] (chars handler_message) 0" "message_text (fp_unit s) (\<lambda>_. []) [48] (chars handler_message) = handler_text ''48''"
proof -
  have e: "handler_message = ''Handler set for interruption: '' @ ''%d'' @ newline" by simp
  have post: "37 \<notin> set (chars newline)" by (simp add: chars_def of_char_def)
  show "message_ok (\<lambda>_. []) s bs [48] (chars handler_message) 0" "message_text (fp_unit s) (\<lambda>_. []) [48] (chars handler_message) = handler_text ''48''"
    unfolding e handler_text_def using decimal_message(1) [OF plain_texts(1) post] decimal_message(2) [OF plain_texts(1) post small_not_min, of 48]
    by (simp_all only: vector_numbers chars_append) simp
qed

lemma demo_message_size:
  "length (chars handler_message) = 33" "length (handler_text ''48'') = 33" "8 \<notin> set (handler_text ''48'')"
  by (simp_all add: handler_text_def chars_def of_char_def)

lemma demo_print:
  assumes "console_ok s [] 2" and "reserve s [] 0x60000" and "text_at s [] 2 (literal s handler_message) (chars handler_message)"
  shows "console_ok s [] (length [48 :: u_dword])"
    and "text_at s [] (length [48 :: u_dword]) (literal s handler_message) (chars handler_message)"
    and "reserve s [] (32 + format_budget (length (chars handler_message)) (length (message_text (fp_unit s) (\<lambda>_. []) [48] (chars handler_message))))"
    and "length (chars handler_message) + 3 < 2 ^ 31" and "length (message_text (fp_unit s) (\<lambda>_. []) [48] (chars handler_message)) + 1 < 2 ^ 31"
    and "8 \<notin> set (message_text (fp_unit s) (\<lambda>_. []) [48] (chars handler_message))"
proof -
  show "console_ok s [] (length [48 :: u_dword])" using assms(1) by (rule console_ok_mono) simp
  show "text_at s [] (length [48 :: u_dword]) (literal s handler_message) (chars handler_message)"
    using assms(3) by (rule text_at_mono) simp
  have "32 + format_budget 33 33 \<le> 0x60000" by (simp add: format_budget_def)
  with assms(2) show "reserve s [] (32 + format_budget (length (chars handler_message)) (length (message_text (fp_unit s) (\<lambda>_. []) [48] (chars handler_message))))"
    unfolding demo_message(2) demo_message_size by (rule reserve_mono)
qed (simp_all only: demo_message(2) demo_message_size, simp_all)

text \<open>
  (C3) Printing works from end to end: with the screen driver registered, \<^verbatim>\<open>print_formatted\<close> returns, the
  text of the template with its arguments filled in appears at the cursor exactly as the abstract
  screen prescribes, the heap is as it was, and of the bytes anybody holds only the stack frames of
  the call and the screen change. Left out are texts with a backspace, the smallest number under a
  numeric directive, and numbers of \<^verbatim>\<open>%f\<close> whose integral part or scaled fraction is zero.
\<close>

theorem print_formatted_shows:
  fixes s :: "'a kernel_state_scheme"
  assumes "console_ok s bs (length args)" and "text_at s bs (length args) temp xs" and "message_ok txt s bs args xs 0"
    and "interruption_handlers s 48 = Some Screen_callback" and "displays s v" and "length xs + 3 < 2 ^ 31"
    and "length (message_text (fp_unit s) txt args xs) + 1 < 2 ^ 31" and "8 \<notin> set (message_text (fp_unit s) txt args xs)"
    and "reserve s bs (32 + format_budget (length xs) (length (message_text (fp_unit s) txt args xs)))"
  shows "\<exists>s'. print_formatted (interrupt (Suc d)) font background temp args s = Inr ((), s') \<and>
    displays s' (spec_show font background (message_text (fp_unit s) txt args xs) v) \<and> output_only s s' \<and>
    heap_ok s' bs \<and> heap_area s' = heap_area s \<and>
    (\<forall>x. held_byte s bs x \<and> \<not> console_bytes s (length args) x \<longrightarrow> mem s' x = mem s x)"
  using print_formatted_prints [OF assms(1-3,6-8,5,4,9), of d font background] by metis

theorem print_formatted_shows_witness:
  "\<exists>s. kernel_setup ''Jan 01 2021'' ''12:00:00'' boot_demo = Inr ((), s) \<and>
    (\<exists>s'. print_formatted (interrupt (Suc 0)) WHITE BLACK (literal s handler_message) [48] s = Inr ((), s') \<and>
      displays s' (spec_show WHITE BLACK (handler_text ''48'')
        (boot_screen ''Jan 01 2021'' ''12:00:00'' (replicate 2000 (0, 0), 0))))"
proof -
  obtain s where k: "kernel_setup ''Jan 01 2021'' ''12:00:00'' boot_demo = Inr ((), s)"
    and r: "ready s [] 2 0x60000 (boot_literals ''Jan 01 2021'' ''12:00:00'')
      (boot_screen ''Jan 01 2021'' ''12:00:00'' (replicate 2000 (0, 0), 0))" by (rule demo_ready)
  have "handler_message \<in> boot_literals ''Jan 01 2021'' ''12:00:00''" by (simp only: boot_literals_def insert_iff simp_thms)
  then have "console_ok s [] 2" "reserve s [] 0x60000" "text_at s [] 2 (literal s handler_message) (chars handler_message)"
    using r unfolding ready_def by blast+
  note p = demo_print [OF this]
  have d: "interruption_handlers s 48 = Some Screen_callback"
    "displays s (boot_screen ''Jan 01 2021'' ''12:00:00'' (replicate 2000 (0, 0), 0))" using r unfolding ready_def by blast+
  from print_formatted_shows [OF p(1,2) demo_message(1) d p(4-6,3), of 0 WHITE BLACK, unfolded demo_message(2)]
  show ?thesis using k by blast
qed

text \<open>
  (C21) Nothing can be printed before the screen driver is registered: the system call ends in the panic for an
  unknown interrupt, which itself tries to print, so the call never returns, however deep handlers may
  nest. This is why registering the timer, the first registration of all, is the one that stays silent.
\<close>

theorem print_before_screen_io:
  fixes s :: "'a kernel_state_scheme"
  assumes "console_ok s bs (length args)" and "text_at s bs (length args) temp xs" and "message_ok txt s bs args xs 0"
    and "interruption_handlers s 48 = None" and "length xs + 3 < 2 ^ 31" and "length (message_text (fp_unit s) txt args xs) + 1 < 2 ^ 31"
    and "reserve s bs (32 + format_budget (length xs) (length (message_text (fp_unit s) txt args xs)))"
  shows "\<exists>e. print_formatted (interrupt d) font background temp args s = Inl e"
proof -
  note c = console_okD [OF assms(1)]
  obtain r s0 s1 bs1 where f: "call_format temp args s = Inr (r, s1)" "s0 = s\<lparr>mem := mem s0\<rparr>"
    "\<And>x. held_byte s0 bs x \<longleftrightarrow> held_byte s bs x"
    and made: "made s0 bs r (of_nat (length (message_text (fp_unit s) txt args xs) + 1)) s1 bs1" and N1: "reserve s1 bs1 32"
    by (rule call_format_made [OF assms(1-3,5,6,7)]) blast
  have s1: "output_only s s1" by (rule mem_only [OF mem_only_trans [OF f(2) madeD(5) [OF made]]])
  let ?a = "[2, r, color_value font, color_value background, 0]"
  have N5: "4 * length ?a + 12 \<le> 32" by simp
  have h5: "held_byte s1 bs1 x" if "call_bytes s1 (length ?a) x" for x
  proof -
    have "call_bytes s 5 x" using that output_only_fields [OF s1] by (simp add: call_bytes_def numeral_eq_Suc)
    then show ?thesis using c(2) f(3) madeD(8) [OF made] unfolding console_bytes_def by blast
  qed
  from call_system_delivers [OF madeD(1) [OF made] N1 N5 h5] obtain s2 where s2: "delivered s1 bs1 ?a s2"
    and call: "\<And>intr v. call_system intr v ?a s1 = and_then (intr v ((cpu s1)\<lparr>regs_ebp := system_frame s1\<rparr>) s2)
      (\<lambda>c s. case c of Return \<Rightarrow> Inr ((), s) | Jump _ \<Rightarrow> Inl (Undefined s))" by blast
  have "output_only s1 s2" using s2 mem_only unfolding delivered_def by blast
  then have "interruption_handlers s2 48 = None" using assms(4) s1 by (simp add: output_only_fields)
  from call_screen_fails [OF this] obtain e where "interrupt d 48 ((cpu s1)\<lparr>regs_ebp := system_frame s1\<rparr>) s2 = Inl e" by blast
  then show ?thesis using f(1) call unfolding print_formatted_def by (simp only: and_then_Inr and_then_Inl) blast
qed

text \<open>The machine between the timer and the screen driver.\<close>

theorem print_before_screen_io_witness:
  "\<exists>s e. early_setup boot_demo = Inr ((), s) \<and>
    print_formatted raise WHITE BLACK (literal s handler_message) [48] s = Inl e"
proof -
  obtain s where e: "early_setup boot_demo = Inr ((), s)"
    and r: "ready (put_handler 48 Screen_callback s) [] 2 0x60000 (boot_literals ''Jan 01 2021'' ''12:00:00'') (replicate 2000 (0, 0), 0)"
    and h: "interruption_handlers s = (interruption_handlers boot_demo)(32 \<mapsto> Timer_callback)"
    by (rule early_ready [OF boot_demo_layout boot_demo_literals boot_demo_displays]) blast+
  have "handler_message \<in> boot_literals ''Jan 01 2021'' ''12:00:00''" by (simp only: boot_literals_def insert_iff simp_thms)
  moreover have "literal (put_handler 48 Screen_callback s) = literal s" by (simp add: put_handler_def)
  ultimately have "console_ok s [] 2" "reserve s [] 0x60000" "text_at s [] 2 (literal s handler_message) (chars handler_message)"
    using r unfolding ready_def console_put_handler by metis+
  note p = demo_print [OF this]
  have "interruption_handlers s 48 = None"
    by (simp add: h boot_demo_def set_cursor_offset_def port_byte_out_def demo_tasks_def)
  from print_before_screen_io [OF p(1,2) demo_message(1) this p(4,5,3), of stack_depth WHITE BLACK] e
  show ?thesis unfolding raise_def by blast
qed

text \<open>
  (C20) A system call delivers its arguments: the handler, whatever it is, runs with the base of a frame in
  which slot \<open>k\<close> holds argument \<open>k\<close>, on the heap as the caller left it. The variant with a result takes it
  from the slot of the last argument, although a handler puts its answer into slot 0
  (\<^verbatim>\<open>system_push\<close>): the answer arrives only when there is exactly one argument.
\<close>

theorem system_call_delivers:
  fixes s :: "'a kernel_state_scheme"
  assumes "heap_ok s bs" and "reserve s bs N" and "4 * length args + 12 \<le> N" and "args \<noteq> []"
    and "\<And>x. call_bytes s (length args) x \<Longrightarrow> held_byte s bs x"
  shows "\<exists>s'. delivered s bs args s' \<and>
    (\<forall>intr v. call_system intr v args s = and_then (intr v ((cpu s)\<lparr>regs_ebp := system_frame s\<rparr>) s')
      (\<lambda>c t. case c of Return \<Rightarrow> Inr ((), t) | Jump _ \<Rightarrow> Inl (Undefined t))) \<and>
    (\<forall>intr v ret. call_system_ret intr v ret args s = and_then (intr v ((cpu s)\<lparr>regs_ebp := system_frame s\<rparr>) s')
      (\<lambda>c t. case c of Return \<Rightarrow> Inr (load32 (mem t) (system_frame t + 4 * of_nat (length args)), t)
         | Jump _ \<Rightarrow> Inl (Undefined t)))"
  by (rule call_system_delivers [OF assms(1-3,5)]) (use call_system_ret_eq [OF _ assms(4)] in blast)+

theorem system_call_delivers_witness:
  "\<exists>s s'. kernel_setup ''Jan 01 2021'' ''12:00:00'' boot_demo = Inr ((), s) \<and> delivered s [] [3, 0, 0, 0, 7] s' \<and>
    (\<forall>v ret. call_system_ret (\<lambda>_ _ t. Inr (Return, system_push (system_frame s) 99 t)) v ret [3, 0, 0, 0, 7] s = Inr (7, system_push (system_frame s) 99 s'))"
proof -
  obtain s where k: "kernel_setup ''Jan 01 2021'' ''12:00:00'' boot_demo = Inr ((), s)"
    and r: "ready s [] 2 0x60000 (boot_literals ''Jan 01 2021'' ''12:00:00'')
      (boot_screen ''Jan 01 2021'' ''12:00:00'' (replicate 2000 (0, 0), 0))" by (rule demo_ready)
  have ok: "console_ok s [] 2" and N: "reserve s [] 0x60000" using r unfolding ready_def by blast+
  let ?a = "[3, 0, 0, 0, 7] :: u_dword list"
  have "held_byte s [] x" if "call_bytes s (length ?a) x" for x
    using that console_okD(2) [OF ok] by (simp add: console_bytes_def numeral_eq_Suc)
  from system_call_delivers [OF console_okD(1) [OF ok] N _ _ this, of ?a] obtain s' where d: "delivered s [] ?a s'"
    and c: "\<And>intr v ret. call_system_ret intr v ret ?a s = and_then (intr v ((cpu s)\<lparr>regs_ebp := system_frame s\<rparr>) s')
      (\<lambda>c t. case c of Return \<Rightarrow> Inr (load32 (mem t) (system_frame t + 4 * of_nat (length ?a)), t) | Jump _ \<Rightarrow> Inl (Undefined t))"
    by auto
  have sf: "system_frame s' = system_frame s" using d output_only_fields(7) [OF mem_only] unfolding delivered_def by blast
  have "disjoint_ranges (system_frame s + 4 * of_nat 1) 4 (system_frame s + 4 * of_nat 5) 4"
    by (rule slots_apart [where n = 6]) simp_all
  then have "load32 (store32 (mem s') (system_frame s + 4) 99) (system_frame s + 20) = load32 (mem s') (system_frame s + 20)"
    by (intro load32_store32_other) simp
  moreover have "system_get_arg (system_frame s) (of_nat 4) s' = ?a ! 4" using d unfolding delivered_def by auto
  ultimately have "call_system_ret (\<lambda>_ _ t. Inr (Return, system_push (system_frame s) 99 t)) v ret ?a s =
    Inr (7, system_push (system_frame s) 99 s')" for v ret
    using c sf by (simp add: system_push_def system_get_arg_def add.commute)
  then show ?thesis using k d by blast
qed

end
