(* ===== verification/CloneMap.thy ===== *)
theory CloneMap
  imports KernelMap SysCalls
begin

text \<open>
  \<^verbatim>\<open>clone_directory\<close> and \<^verbatim>\<open>clone_table\<close> of \<^verbatim>\<open>core/kernel/pages.c\<close>: which pages of the kernel's address space a
  new task shares with its parent, and which are copied to frames of its own.
\<close>

section \<open>The two pools together\<close>

definition pools_at :: "'a kernel_state_scheme \<Rightarrow> blocks \<Rightarrow> bool" where
  "pools_at s bs \<longleftrightarrow> heap_ok s bs \<and> unat (heap_end s) \<le> 0x100000 \<and>
     (paging_pool s, 448) \<in> set bs \<and> (user_space_pool s, 7680) \<in> set bs"

abbreviation in_pools :: "'a kernel_state_scheme \<Rightarrow> addr \<Rightarrow> bool" where
  "in_pools s x \<equiv> in_range (paging_pool s) 448 x \<or> in_range (user_space_pool s) 7680 x"

lemma pools_at_facts:
  assumes "pools_at s bs"
  shows "heap_ok s bs" and "0x100000 \<le> unat x \<Longrightarrow> held_byte s bs x" and "in_pools s x \<Longrightarrow> held_byte s bs x"
    and "in_pools s x \<Longrightarrow> unat x < 0x100000" and "pool_ok (paging_pool s) 448 s" and "pool_ok (user_space_pool s) 7680 s"
    and "disjoint_ranges (paging_pool s) 448 (user_space_pool s) 7680"
proof -
  note p = assms [unfolded pools_at_def]
  show ok: "heap_ok s bs" using p by blast
  note inv = heap_invD [OF heap_okD(1) [OF ok]]
  show up: "0x100000 \<le> unat x \<Longrightarrow> held_byte s bs x" for x
    using p usable_end_le [of s] by (auto simp: held_byte_def)
  show held: "in_pools s x \<Longrightarrow> held_byte s bs x" using p by (force simp: held_byte_def in_payload_def)
  have below: "unat q + unat n \<le> 0x100000" if "(q, n) \<in> set bs" for q n
    using that p layout_bounds(2) [OF inv(2)] by (fastforce simp: in_set_conv_nth)
  from below [of "paging_pool s" 448] below [of "user_space_pool s" 7680] p
  have b: "unat (paging_pool s) + 448 \<le> 0x100000" "unat (user_space_pool s) + 7680 \<le> 0x100000" by simp_all
  then show "in_pools s x \<Longrightarrow> unat x < 0x100000" by (auto simp: in_range_linear)
  show "pool_ok (paging_pool s) 448 s" "pool_ok (user_space_pool s) 7680 s"
    unfolding pool_ok_def using b p up by auto
  from p obtain i j where ij: "i < length bs" "bs ! i = (paging_pool s, 448)" "j < length bs" "bs ! j = (user_space_pool s, 7680)"
    by (auto simp: in_set_conv_nth)
  moreover have "i < j \<or> j < i" using ij by (cases i j rule: linorder_cases) auto
  ultimately show "disjoint_ranges (paging_pool s) 448 (user_space_pool s) 7680"
    using layout_order [OF inv(2), of i j] layout_order [OF inv(2), of j i] b
    by (elim disjE) (intro disjoint_ranges_linear; simp)+
qed

lemma pool_index:
  "j < table_frames \<Longrightarrow> in_range p 448 (p + of_nat (j div 8))" "j < user_frames \<Longrightarrow> in_range p 7680 (p + of_nat (j div 8))"
  by (subst in_range_offset; simp)+

lemma pool_bit_cong:
  "j < table_frames \<Longrightarrow> (\<And>x. in_range p 448 x \<Longrightarrow> m x = m' x) \<Longrightarrow> pool_bit m p j \<longleftrightarrow> pool_bit m' p j"
  "j < user_frames \<Longrightarrow> (\<And>x. in_range p 7680 x \<Longrightarrow> m x = m' x) \<Longrightarrow> pool_bit m p j \<longleftrightarrow> pool_bit m' p j"
  using pool_index by (simp_all add: pool_bit_def)

lemma pools_at_write:
  fixes s :: "'a kernel_state_scheme"
  assumes "pools_at s bs" and out: "\<And>x. \<not> in_pools s x \<Longrightarrow> unat x < 0x100000 \<Longrightarrow> m x = mem s x"
  shows "pools_at (s\<lparr>mem := m\<rparr>) bs" and "heap_area (s\<lparr>mem := m\<rparr>) = heap_area s"
proof -
  note f = pools_at_facts [OF assms(1)]
  have "m x = mem s x" if "\<not> held_byte s bs x" for x
    using that f(2,3) out [of x] by (meson not_less)
  note w = held_write [OF f(1), of m, OF this]
  show "pools_at (s\<lparr>mem := m\<rparr>) bs" using assms(1) w(1,4) by (simp add: pools_at_def)
  show "heap_area (s\<lparr>mem := m\<rparr>) = heap_area s" using w(3,4) by (simp add: heap_area_def)
qed

section \<open>One frame\<close>

lemma allocate_frame_eq:
  fixes s :: "'a kernel_state_scheme"
  assumes pools: "pools_at s bs" and k: "k < user_frames"
    and bits: "\<And>j. j < user_frames \<Longrightarrow> pool_bit (mem s) (user_space_pool s) j \<longleftrightarrow> j < k"
  obtains m where "allocate_frame s = Inr (user_frame k, s\<lparr>mem := m\<rparr>)"
    and "\<And>j. j < user_frames \<Longrightarrow> pool_bit m (user_space_pool s) j \<longleftrightarrow> j \<le> k"
    and "\<And>x. \<not> in_range (user_space_pool s) 7680 x \<Longrightarrow> m x = mem s x"
proof -
  note f = pools_at_facts [OF pools]
  have "k < 8 * 7680" "\<not> pool_bit (mem s) (user_space_pool s) k" using k bits [OF k] by simp_all
  moreover have "pool_bit (mem s) (user_space_pool s) j" if "j < k" for j using that bits [of j] k by simp
  ultimately obtain s1 v where
    w: "pool_walk walk_fuel (user_space_pool s) user_space_start 0 s = Inr (Some (user_frame k), s1)"
      "\<And>j. j < 8 * 7680 \<Longrightarrow> pool_bit (mem s1) (user_space_pool s) j \<longleftrightarrow> j = k \<or> pool_bit (mem s) (user_space_pool s) j"
      and v: "s1 = s\<lparr>mem := (mem s)(user_space_pool s + of_nat (k div 8) := v)\<rparr>"
    unfolding user_frame_def by (rule pool_walk_lowest [OF f(6), where start = user_space_start]) blast+
  have "in_range (user_space_pool s) 7680 (user_space_pool s + of_nat (k div 8))" using k by (subst in_range_offset) simp_all
  then have out: "mem s1 x = mem s x" if "\<not> in_range (user_space_pool s) 7680 x" for x
    using that unfolding v by (cases "x = user_space_pool s + of_nat (k div 8)") auto
  show thesis
  proof (rule that [of "mem s1"])
    show "allocate_frame s = Inr (user_frame k, s\<lparr>mem := mem s1\<rparr>)" using w(1) v by (simp add: allocate_frame_def)
    show "pool_bit (mem s1) (user_space_pool s) j \<longleftrightarrow> j \<le> k" if "j < user_frames" for j
      using w(2) [of j] bits [OF that] that by auto
  qed (rule out)
qed

section \<open>Copying a page\<close>

lemma load32_bytes:
  "ucast (load32 m a) = m a" "ucast (drop_bit 8 (load32 m a)) = m (a + 1)"
  "ucast (drop_bit 16 (load32 m a)) = m (a + 2)" "ucast (drop_bit 24 (load32 m a)) = m (a + 3)"
  by (rule bit_word_eqI; auto simp: load32_def bit_ucast_iff bit_or_iff bit_push_bit_iff bit_drop_bit_eq dest: bit_imp_le_length)+

lemma move_dword: "store32 m d (load32 m a) x = (if in_range d 4 x then m (a + (x - d)) else m x)"
proof (cases "in_range d 4 x")
  case True
  then obtain i where "i < 4" "x = d + of_nat i" using in_range_imp_offset by blast
  then have "x = d \<or> x = d + 1 \<or> x = d + 2 \<or> x = d + 3" by (auto simp: less_Suc_eq numeral_eq_Suc)
  then show ?thesis using True by (auto simp: store32_def load32_bytes)
qed (simp add: store32_outside)

lemma copy_dwords_apply:
  assumes "disjoint_ranges source 4096 dest 4096" and "k \<le> 1024"
  shows "copy_dwords source dest k m x = (if in_range dest (4 * k) x then m (source + (x - dest)) else m x)"
  using assms(2)
proof (induction k arbitrary: x)
  case (Suc k)
  let ?m = "copy_dwords source dest k m"
  have at: "in_range dest (4 * Suc k) x \<longleftrightarrow> in_range dest (4 * k) x \<or> in_range (dest + 4 * of_nat k) 4 x"
    using in_range_append [of "4 * k" 4 dest x] Suc.prems by (simp add: add.commute)
  have e: "source + 4 * of_nat k + (x - (dest + 4 * of_nat k)) = source + (x - dest)" by simp
  show ?case
  proof (cases "in_range (dest + 4 * of_nat k) 4 x")
    case True
    then have "unat (x - dest) < 4096"
      using in_range_slot [OF True, of "Suc k"] Suc.prems by (simp add: in_range_def)
    then have "in_range source 4096 (source + (x - dest))" by (simp add: in_range_def)
    then have "\<not> in_range dest (4 * k) (source + (x - dest))"
      using assms(1) Suc.prems unfolding disjoint_ranges_def in_range_def by fastforce
    then have "?m (source + (x - dest)) = m (source + (x - dest))" using Suc.IH Suc.prems by simp
    then show ?thesis using True at by (simp add: Let_def move_dword e del: mult_Suc_right)
  next
    case False
    then show ?thesis using Suc at by (simp add: Let_def move_dword del: mult_Suc_right)
  qed
qed simp

section \<open>Cloning a table\<close>

lemma clone_page_pointer_id: "clone_page_pointer p = p"
proof -
  have "(0xffffffff :: u_dword) = - 1" by simp
  then have "p AND 0xffffffff = p" by (simp only: and.right_neutral)
  then show ?thesis by (simp add: clone_page_pointer_def bit.conj_disj_distrib [symmetric])
qed

definition copied :: "page_pointer \<Rightarrow> page_pointer \<Rightarrow> bool" where
  "copied src e \<longleftrightarrow> page_present e \<and> (page_user src \<or> page_user e)"

definition copies :: "page_pointer \<Rightarrow> (nat \<Rightarrow> page_pointer) \<Rightarrow> nat \<Rightarrow> nat" where
  "copies src es i = length (filter (\<lambda>j. copied src (es j)) [0..<i])"

text \<open>The entry of the new table: absent, shared, or the next free frame with the same flags.\<close>

definition clone_entry :: "page_pointer \<Rightarrow> (nat \<Rightarrow> page_pointer) \<Rightarrow> nat \<Rightarrow> nat \<Rightarrow> page_pointer" where
  "clone_entry src es b j =
     (if \<not> page_present (es j) then 0
      else if copied src (es j) then set_frame (user_frame (b + copies src es j) div page_size) (es j)
      else es j)"

lemma copies_simps [simp]:
  "copies src es 0 = 0" "copies src es (Suc i) = copies src es i + (if copied src (es i) then 1 else 0)"
  by (simp_all add: copies_def)

lemma copies_mono: "i \<le> j \<Longrightarrow> copies src es i \<le> copies src es j"
  by (induction j) (auto simp: le_Suc_eq)

lemma set_frame_bits:
  "n < 32 \<Longrightarrow> bit (set_frame f p) n \<longleftrightarrow> (if 12 \<le> n then bit f (n - 12) else bit p n)"
  by (auto simp: set_frame_def bit_or_iff bit_push_bit_iff bit_take_bit_iff possible_bit_def)

lemma set_frame_contents:
  assumes "unat a mod 4096 = 0"
  shows "get_contents_as_page (set_frame (a div page_size) p) = a"
proof -
  have "page_frame (set_frame (a div page_size) p) = a div page_size"
  proof (rule bit_word_eqI)
    fix n
    assume n: "n < LENGTH(32)"
    have "a div page_size = drop_bit 12 a" by (simp add: page_size_def drop_bit_eq_div)
    moreover have "\<not> bit a (12 + n)" if "20 \<le> n" using that impossible_bit [of "12 + n" a] by (simp add: possible_bit_def)
    ultimately show "bit (page_frame (set_frame (a div page_size) p)) n \<longleftrightarrow> bit (a div page_size) n"
      using n set_frame_bits [of "12 + n" "a div page_size" p] impossible_bit [of "12 + n" "set_frame (a div page_size) p"]
      by (cases "n < 20") (auto simp: page_frame_def bit_drop_bit_eq possible_bit_def)
  qed
  moreover have "a div page_size * page_size = a"
  proof (rule word_eq_unatI)
    have "unat a div 4096 * 4096 = unat a" using assms by (metis dvd_div_mult_self mod_0_imp_dvd)
    then show "unat (a div page_size * page_size) = unat a"
      using unat_lt32 [of a] by (simp add: page_size_def unat_word_ariths unat_div)
  qed
  ultimately show ?thesis by (simp add: get_contents_as_page_def)
qed

text \<open>A page the cloning loop does not write: outside the bitmap, the new table and the frames from number \<open>b\<close> on.\<close>

definition kept_byte :: "'a kernel_state_scheme \<Rightarrow> nat \<Rightarrow> nat \<Rightarrow> addr \<Rightarrow> bool" where
  "kept_byte s t b x \<longleftrightarrow> \<not> in_range (user_space_pool s) 7680 x \<and> \<not> in_range (table_frame t) 4096 x \<and>
     unat x < 0x1000000 + 4096 * b"

definition source_entry :: "'a kernel_state_scheme \<Rightarrow> page_pointer \<Rightarrow> nat \<Rightarrow> page_pointer" where
  "source_entry s1 src j = entry_at (mem s1) (get_contents_as_page src) (of_nat j)"

definition clone_inv :: "'a kernel_state_scheme \<Rightarrow> page_pointer \<Rightarrow> nat \<Rightarrow> nat \<Rightarrow> nat \<Rightarrow> 'a kernel_state_scheme \<Rightarrow> bool" where
  "clone_inv s1 src t b i s \<longleftrightarrow>
     s = s1\<lparr>mem := mem s\<rparr> \<and>
     (\<forall>j < user_frames. pool_bit (mem s) (user_space_pool s1) j \<longleftrightarrow> j < b + copies src (source_entry s1 src) i) \<and>
     (\<forall>j < 1024. entry_at (mem s) (table_frame t) (of_nat j) = (if j < i then clone_entry src (source_entry s1 src) b j else 0)) \<and>
     (\<forall>j < i. copied src (source_entry s1 src j) \<longrightarrow> (\<forall>n < 4096. mem s (user_frame (b + copies src (source_entry s1 src) j) + of_nat n) =
        mem s1 (get_contents_as_page (source_entry s1 src j) + of_nat n))) \<and>
     (\<forall>x. kept_byte s1 t b x \<longrightarrow> mem s x = mem s1 x) \<and>
     (\<forall>x. \<not> in_pools s1 x \<longrightarrow> unat x < 0x100000 \<longrightarrow> mem s x = mem s1 x)"

text \<open>What the loop starts from.\<close>

definition clone_start :: "'a kernel_state_scheme \<Rightarrow> blocks \<Rightarrow> page_pointer \<Rightarrow> nat \<Rightarrow> nat \<Rightarrow> bool" where
  "clone_start s1 bs src t b \<longleftrightarrow>
     pools_at s1 bs \<and> paging_enabled s1 \<and> t < table_frames \<and>
     (\<exists>u < table_frames. u \<noteq> t \<and> get_contents_as_page src = table_frame u) \<and>
     (\<forall>j < user_frames. pool_bit (mem s1) (user_space_pool s1) j \<longleftrightarrow> j < b) \<and>
     (\<forall>j < 1024. entry_at (mem s1) (table_frame t) (of_nat j) = 0) \<and>
     (\<forall>j < 1024. copied src (source_entry s1 src j) \<longrightarrow> (\<forall>n < 4096. kept_byte s1 t b (get_contents_as_page (source_entry s1 src j) + of_nat n))) \<and>
     b + copies src (source_entry s1 src) 1024 \<le> user_frames"

lemma clone_inv_start: "clone_start s1 bs src t b \<Longrightarrow> clone_inv s1 src t b 0 s1"
  by (simp add: clone_start_def clone_inv_def)

lemma unat_table_entry:
  assumes "t < table_frames" and "j < 1024"
  shows "unat (table_frame t + 4 * of_nat j) = 0x100000 + 4096 * t + 4 * j"
proof -
  have "unat (4 * of_nat j :: addr) = 4 * j" using assms(2) by (simp add: unat_word_ariths unat_of_nat32)
  then show ?thesis using unat_table_frame [OF assms(1)] assms by (subst unat_plus_small) simp_all
qed

lemma same_with_paging: "paging_enabled s \<Longrightarrow> s\<lparr>mem := m, paging_enabled := True\<rparr> = s\<lparr>mem := m\<rparr>"
  by (cases s) simp

text \<open>
  One round preserves the invariant if it writes the entry, and for a copied page the next frame and its
  bit, and nothing else.
\<close>

lemma clone_inv_round:
  fixes s1 :: "'a kernel_state_scheme" and src :: page_pointer
  defines "es \<equiv> source_entry s1 src"
  assumes start: "clone_start s1 bs src t b" and inv: "clone_inv s1 src t b i s" and i: "i < 1024"
    and entry: "load32 m (table_frame t + 4 * of_nat i) = clone_entry src es b i"
    and bits: "\<And>j. j < user_frames \<Longrightarrow> pool_bit m (user_space_pool s1) j \<longleftrightarrow> j < b + copies src es (Suc i)"
    and frame: "\<And>n. copied src (es i) \<Longrightarrow> n < 4096 \<Longrightarrow>
      m (user_frame (b + copies src es i) + of_nat n) = mem s1 (get_contents_as_page (es i) + of_nat n)"
    and other: "\<And>x. \<not> in_range (user_space_pool s1) 7680 x \<Longrightarrow> \<not> in_range (table_frame t + 4 * of_nat i) 4 x \<Longrightarrow>
      \<not> (copied src (es i) \<and> 0x1000000 + 4096 * (b + copies src es i) \<le> unat x) \<Longrightarrow> m x = mem s x"
  shows "clone_inv s1 src t b (Suc i) (s\<lparr>mem := m\<rparr>)"
proof -
  note st = start [unfolded clone_start_def, folded es_def]
  note iv = inv [unfolded clone_inv_def, folded es_def]
  have t: "t < table_frames" using st by blast
  have low: "unat x < 0x100000" if "in_range (user_space_pool s1) 7680 x" for x
    using pools_at_facts(4) [of s1 bs] st that by blast
  note ti = unat_table_entry [OF t i]
  have Ti: "in_range (table_frame t + 4 * of_nat i) 4 x \<longleftrightarrow> 0x100000 + 4096 * t + 4 * i \<le> unat x \<and> unat x < 0x100000 + 4096 * t + 4 * i + 4" for x
    using t i by (simp add: in_range_linear ti)
  have T: "in_range (table_frame t) 4096 x \<longleftrightarrow> 0x100000 + 4096 * t \<le> unat x \<and> unat x < 0x101000 + 4096 * t" for x
    using t unat_table_frame [OF t] by (simp add: in_range_linear)
  have "load32 m (table_frame t + 4 * of_nat j) = load32 (mem s) (table_frame t + 4 * of_nat j)" if j: "j < 1024" "j \<noteq> i" for j
  proof (rule load32_cong)
    fix x
    assume "in_range (table_frame t + 4 * of_nat j) 4 x"
    then have x: "0x100000 + 4096 * t + 4 * j \<le> unat x" "unat x < 0x100000 + 4096 * t + 4 * j + 4"
      using t j unat_table_entry [OF t j(1)] by (simp_all add: in_range_linear)
    show "m x = mem s x" using x t j i low [of x] Ti by (intro other) auto
  qed
  then have c: "entry_at m (table_frame t) (of_nat j) = (if j < Suc i then clone_entry src es b j else 0)" if "j < 1024" for j
    using iv entry that unfolding entry_at_def by (cases "j = i") auto
  have d: "m (user_frame (b + copies src es j) + of_nat n) = mem s1 (get_contents_as_page (es j) + of_nat n)"
    if j: "j < Suc i" "copied src (es j)" "n < 4096" for j n
  proof (cases "j = i")
    case False
    then have ji: "j < i" using j by simp
    have le: "copies src es (Suc j) \<le> copies src es i" "copies src es i \<le> copies src es 1024"
      using ji i by (auto intro: copies_mono simp del: copies_simps)
    then have k: "b + copies src es j < b + copies src es i" "b + copies src es i \<le> user_frames"
      using j(2) st by auto
    let ?x = "user_frame (b + copies src es j) + of_nat n"
    have "unat ?x = 0x1000000 + 4096 * (b + copies src es j) + n"
      using k j(3) unat_user_frame [of "b + copies src es j"] by (subst unat_plus_small) (simp_all add: unat_of_nat32)
    then have "m ?x = mem s ?x"
      using k j(3) low [of ?x] Ti [of ?x] t i by (intro other) auto
    then show ?thesis using iv ji j by simp
  qed (use frame j in simp)
  have e: "m x = mem s1 x" if "kept_byte s1 t b x" for x
  proof -
    have "\<not> in_range (table_frame t + 4 * of_nat i) 4 x" using that i by (auto simp: kept_byte_def T Ti)
    then have "m x = mem s x" using that by (intro other) (auto simp: kept_byte_def)
    then show ?thesis using iv that by simp
  qed
  have f: "m x = mem s1 x" if "\<not> in_pools s1 x" "unat x < 0x100000" for x
  proof -
    have "m x = mem s x" using that Ti [of x] by (intro other) auto
    then show ?thesis using iv that by simp
  qed
  have eq: "s\<lparr>mem := m\<rparr> = s1\<lparr>mem := m\<rparr>" by (subst conjunct1 [OF iv]) simp
  show ?thesis
    unfolding clone_inv_def es_def [symmetric] eq using bits c d e f by simp
qed

lemma clone_entry_step:
  fixes s1 s :: "'a kernel_state_scheme"
  assumes start: "clone_start s1 bs src t b" and inv: "clone_inv s1 src t b i s" and i: "i < 1024"
  obtains s' where "clone_table_entry src (table_frame t) i s = Inr ((), s')" and "clone_inv s1 src t b (Suc i) s'"
proof -
  define es where "es = source_entry s1 src"
  note st = start [unfolded clone_start_def, folded es_def] and iv = inv [unfolded clone_inv_def, folded es_def]
  note round = clone_inv_round [OF start inv i, folded es_def]
  let ?T = "table_frame t" and ?a = "table_frame t + 4 * of_nat i" and ?p = "es i"
  have t: "t < table_frames" using st by blast
  obtain u where u: "u < table_frames" "u \<noteq> t" "get_contents_as_page src = table_frame u" using st by blast
  have pools: "pools_at s1 bs" using st by blast
  note pf = pools_at_facts [OF pools]
  have up: "user_space_pool s = user_space_pool s1" by (subst conjunct1 [OF iv]) simp
  have kept_src: "kept_byte s1 t b x" if "in_range (table_frame u + 4 * of_nat i) 4 x" for x
  proof -
    have x: "0x100000 + 4096 * u + 4 * i \<le> unat x" "unat x < 0x100000 + 4096 * u + 4 * i + 4"
      using that u i unat_table_entry [OF u(1) i] by (simp_all add: in_range_linear)
    moreover have "4096 * u + 4096 \<le> 4096 * t \<or> 4096 * t + 4096 \<le> 4096 * u" using u(2) by arith
    ultimately show ?thesis using pf(4) [of x] u i unat_table_frame [OF t] t by (auto simp: kept_byte_def in_range_linear)
  qed
  have p: "entry_at (mem s) (get_contents_as_page src) (of_nat i) = ?p"
    unfolding es_def source_entry_def entry_at_def u(3) using kept_src iv by (intro load32_cong) blast
  have ti: "unat ?a = 0x100000 + 4096 * t + 4 * i" by (rule unat_table_entry [OF t i])
  have out: "\<not> in_range ?a 4 x \<Longrightarrow> store32 m ?a v x = m x" for m v x by (rule store32_outside)
  have bits: "pool_bit m (user_space_pool s1) j \<longleftrightarrow> pool_bit (mem s) (user_space_pool s1) j"
    if "\<And>x. unat x < 0x100000 \<Longrightarrow> m x = mem s x" "j < user_frames" for m j
    using that(1) [OF pool_byte(1) [OF pf(6), of "j div 8"]] that(2) by (simp add: pool_bit_def)
  have high: "store32 m ?a v x = m x" if "unat x < 0x100000" for m v x
    using that t i by (intro store32_outside) (simp add: in_range_linear ti)
  show thesis
  proof (cases "copied src ?p")
    case False
    define m where "m = (if page_present ?p then store32 (mem s) ?a ?p else mem s)"
    have "clone_table_entry src ?T i s = Inr ((), s\<lparr>mem := m\<rparr>)"
      using False p by (auto simp: clone_table_entry_def Let_def copied_def m_def set_entry_def)
    moreover have "clone_inv s1 src t b (Suc i) (s\<lparr>mem := m\<rparr>)"
    proof (rule round)
      have "load32 (mem s) ?a = 0" using iv i unfolding entry_at_def by auto
      then show "load32 m ?a = clone_entry src es b i" using False by (auto simp: clone_entry_def m_def)
      show "pool_bit m (user_space_pool s1) j \<longleftrightarrow> j < b + copies src es (Suc i)" if "j < user_frames" for j
        using bits [of m j] that False iv high by (simp add: m_def)
      show "m x = mem s x" if "\<not> in_range ?a 4 x" for x using out [OF that] by (simp add: m_def)
    qed (use False in blast)+
    ultimately show thesis by (rule that)
  next
    case True
    define k where "k = b + copies src es i"
    have "copies src es (Suc i) \<le> copies src es 1024" using i by (intro copies_mono) simp
    then have k: "k < user_frames" using True st by (simp add: k_def)
    define m1 where "m1 = store32 (mem s) ?a ?p"
    have s1: "s\<lparr>mem := m1\<rparr> = s1\<lparr>mem := m1\<rparr>" by (subst conjunct1 [OF iv]) simp
    have "pools_at (s1\<lparr>mem := m1\<rparr>) bs"
      using iv high by (intro pools_at_write(1) [OF pools]) (simp add: m1_def)
    moreover have "pool_bit (mem (s1\<lparr>mem := m1\<rparr>)) (user_space_pool (s1\<lparr>mem := m1\<rparr>)) j \<longleftrightarrow> j < k" if "j < user_frames" for j
      using bits [of m1 j] that iv high by (simp add: m1_def k_def)
    ultimately obtain m2 where m2: "allocate_frame (s1\<lparr>mem := m1\<rparr>) = Inr (user_frame k, s1\<lparr>mem := m1\<rparr>\<lparr>mem := m2\<rparr>)"
      "\<And>j. j < user_frames \<Longrightarrow> pool_bit m2 (user_space_pool s1) j \<longleftrightarrow> j \<le> k"
      "\<And>x. \<not> in_range (user_space_pool s1) 7680 x \<Longrightarrow> m2 x = m1 x"
      using allocate_frame_eq [OF _ k, of "s1\<lparr>mem := m1\<rparr>" bs] by auto
    have fr: "unat (user_frame k) = 0x1000000 + 4096 * k" using k by (rule unat_user_frame)
    define q where "q = set_frame (user_frame k div page_size) ?p"
    define m3 where "m3 = store32 m2 ?a q"
    define m4 where "m4 = copy_dwords (get_contents_as_page ?p) (user_frame k) 1024 m3"
    have entry2: "load32 m2 ?a = ?p"
    proof -
      have "\<not> in_range (user_space_pool s1) 7680 x" if "in_range ?a 4 x" for x
        using that pf(4) [of x] t i by (auto simp: in_range_linear ti)
      then have "load32 m2 ?a = load32 m1 ?a" using m2(3) by (intro load32_cong) blast
      then show ?thesis by (simp add: m1_def)
    qed
    have src3: "load32 m3 (table_frame u + 4 * of_nat i) = ?p"
    proof -
      have "m3 x = mem s x" if "in_range (table_frame u + 4 * of_nat i) 4 x" for x
      proof -
        have kb: "kept_byte s1 t b x" using kept_src [OF that] .
        then have "\<not> in_range ?a 4 x" using in_range_slot [of ?T i x 1024] i by (auto simp: kept_byte_def)
        then show ?thesis using kb m2(3) out by (simp add: m3_def m1_def kept_byte_def)
      qed
      then have "load32 m3 (table_frame u + 4 * of_nat i) = load32 (mem s) (table_frame u + 4 * of_nat i)" by (intro load32_cong) blast
      then show ?thesis using p by (simp add: entry_at_def u(3))
    qed
    have dest: "get_contents_as_page q = user_frame k" unfolding q_def by (rule set_frame_contents) (simp add: fr)
    have "paging_enabled s1" using st by blast
    then have cp: "copy_page_physical (get_contents_as_page ?p) (user_frame k) (s1\<lparr>mem := m3\<rparr>) = s1\<lparr>mem := m4\<rparr>"
      using same_with_paging [of "s1\<lparr>mem := m3\<rparr>" m4] by (simp add: copy_page_physical_def m4_def)
    have s4: "s\<lparr>mem := m4\<rparr> = s1\<lparr>mem := m4\<rparr>" by (subst conjunct1 [OF iv]) simp
    have e: "clone_table_entry src ?T i s = Inr ((), s\<lparr>mem := m4\<rparr>)"
      unfolding s4 using True p m2(1) entry2 src3 dest s1 cp
      by (simp add: clone_table_entry_def Let_def copied_def set_entry_def entry_at_def clone_page_pointer_id
          m1_def [symmetric] q_def [symmetric] m3_def [symmetric] get_contents_as_page_def [symmetric] u(3))
    have kept_page: "kept_byte s1 t b (get_contents_as_page ?p + of_nat n)" if "n < 4096" for n
      using st True i that by blast
    have frame_at: "unat (user_frame k + of_nat n) = 0x1000000 + 4096 * k + n" if "n < 4096" for n
      using that k fr by (subst unat_plus_small) (simp_all add: unat_of_nat32)
    have apart: "disjoint_ranges (get_contents_as_page ?p) 4096 (user_frame k) 4096"
      unfolding disjoint_ranges_def
    proof (intro allI notI)
      fix x
      assume x: "in_range (get_contents_as_page ?p) 4096 x \<and> in_range (user_frame k) 4096 x"
      then have "unat x < 0x1000000 + 4096 * b" using kept_page in_range_imp_offset unfolding kept_byte_def by blast
      moreover have "0x1000000 + 4096 * k \<le> unat x" using x k by (simp add: in_range_linear fr)
      ultimately show False by (simp add: k_def)
    qed
    note at4 = copy_dwords_apply [OF apart order_refl, of m3, folded m4_def]
    have m3_at: "m3 x = mem s x" if "\<not> in_range (user_space_pool s1) 7680 x" "\<not> in_range ?a 4 x" for x
      using that m2(3) out by (simp add: m3_def m1_def)
    have "clone_inv s1 src t b (Suc i) (s\<lparr>mem := m4\<rparr>)"
    proof (rule round)
      have "\<not> in_range (user_frame k) 4096 x" if "in_range ?a 4 x" for x
        using that k t i by (auto simp: in_range_linear ti fr)
      then have "load32 m4 ?a = load32 m3 ?a" using at4 by (intro load32_cong) simp
      then show "load32 m4 ?a = clone_entry src es b i"
        using True by (simp add: m3_def clone_entry_def q_def k_def copied_def)
      show "pool_bit m4 (user_space_pool s1) j \<longleftrightarrow> j < b + copies src es (Suc i)" if j: "j < user_frames" for j
      proof -
        have "m4 x = m2 x" if "unat x < 0x100000" for x
          using that k high by (simp add: at4 in_range_linear fr m3_def)
        then have "pool_bit m4 (user_space_pool s1) j \<longleftrightarrow> pool_bit m2 (user_space_pool s1) j"
          using pool_byte(1) [OF pf(6), of "j div 8"] j by (simp add: pool_bit_def)
        then show ?thesis using m2(2) [OF j] True by (simp add: k_def less_Suc_eq_le)
      qed
      show "m4 (user_frame (b + copies src es i) + of_nat n) = mem s1 (get_contents_as_page (es i) + of_nat n)" if n: "n < 4096" for n
      proof -
        have "in_range (user_frame k) 4096 (user_frame k + of_nat n)" using n by (subst in_range_offset) simp_all
        then have "m4 (user_frame k + of_nat n) = m3 (get_contents_as_page ?p + of_nat n)" by (simp add: at4)
        moreover have "\<not> in_range ?a 4 (get_contents_as_page ?p + of_nat n)"
          using kept_page [OF n] in_range_slot [of ?T i _ 1024] i by (auto simp: kept_byte_def)
        ultimately have "m4 (user_frame k + of_nat n) = mem s (get_contents_as_page ?p + of_nat n)"
          using m3_at kept_page [OF n] by (simp add: kept_byte_def)
        then show ?thesis using iv kept_page [OF n] by (simp add: k_def)
      qed
      show "m4 x = mem s x" if "\<not> in_range (user_space_pool s1) 7680 x" "\<not> in_range ?a 4 x"
        "\<not> (copied src (es i) \<and> 0x1000000 + 4096 * (b + copies src es i) \<le> unat x)" for x
      proof -
        have "\<not> 0x1000000 + 4096 * k \<le> unat x" using that(3) True by (simp add: k_def)
        then have "\<not> in_range (user_frame k) 4096 x" using k by (simp add: in_range_linear fr)
        then show ?thesis using at4 m3_at [OF that(1,2)] by simp
      qed
    qed
    with e show thesis by (rule that)
  qed
qed

lemma clone_table_walk_inv:
  fixes s1 :: "'a kernel_state_scheme"
  assumes "clone_start s1 bs src t b"
  obtains s where "clone_table_walk src (table_frame t) 1024 s1 = Inr ((), s)" and "clone_inv s1 src t b 1024 s"
proof -
  have "i \<le> 1024 \<Longrightarrow> \<exists>s. clone_table_walk src (table_frame t) i s1 = Inr ((), s) \<and> clone_inv s1 src t b i s" for i
  proof (induction i)
    case 0
    then show ?case using clone_inv_start [OF assms] by simp
  next
    case (Suc i)
    then obtain s where s: "clone_table_walk src (table_frame t) i s1 = Inr ((), s)" "clone_inv s1 src t b i s" by auto
    have "i < 1024" using Suc.prems by simp
    from clone_entry_step [OF assms s(2) this] show ?case using s(1) by auto
  qed
  then show thesis using that by blast
qed

section \<open>Cloning the kernel's address space\<close>

lemma kernel_copied: "k < 4096 \<Longrightarrow> copied (map_pde g i) (map_pte g k) \<longleftrightarrow> 2 \<le> k \<and> k < 7"
  by (simp add: copied_def map_pde_flags map_pte_flags)

lemma kernel_copies:
  assumes "\<And>j. j < 1024 \<Longrightarrow> es j = map_pte g j" and "i \<le> 1024"
  shows "copies (map_pde g 0) es i = (if i \<le> 2 then 0 else if i \<le> 7 then i - 2 else 5)"
  using assms(2) by (induction i) (auto simp: assms(1) kernel_copied)

lemma kernel_user_pages:
  assumes "kernel_mapped g m" and "i < 4"
  shows "contains_user_pages (map_pde g i) m \<longleftrightarrow> i = 0"
proof -
  have "contains_user_pages (map_pde g i) m \<longleftrightarrow> (\<exists>j < 1024. 2 \<le> 1024 * i + j \<and> 1024 * i + j < 7)"
    using kernel_table_entry [OF assms] assms(2) by (auto simp: contains_user_pages_def list_ex_iff map_pte_flags Bex_def)
  also have "\<dots> \<longleftrightarrow> i = 0" by (cases i) (auto intro: exI [of _ 2])
  finally show ?thesis .
qed

end
