(* ===== verification/CloneDir.thy ===== *)
theory CloneDir
  imports CloneMap
begin

text \<open>
  \<^verbatim>\<open>clone_directory\<close> on the kernel's own directory: the address space \<^verbatim>\<open>fork\<close> gives to a child of the kernel
  task.
\<close>

section \<open>The clone of the kernel map\<close>

text \<open>
  The state in which the kernel task forks: the kernel map is in place, \<open>t\<close> page tables and \<open>b\<close> frames are
  in use, and there is room for two more tables and five more frames. The pools lie above the stack.
\<close>

definition clone_ready :: "'b kernel_state_scheme \<Rightarrow> nat \<Rightarrow> nat \<Rightarrow> 'a kernel_state_scheme \<Rightarrow> blocks \<Rightarrow> bool" where
  "clone_ready g t b s bs \<longleftrightarrow> pools_at s bs \<and> paging_enabled s \<and> kernel_mapped g (mem s) \<and>
     0x7000 \<le> unat (paging_pool s) \<and> 0x7000 \<le> unat (user_space_pool s) \<and>
     5 \<le> t \<and> t + 2 \<le> table_frames \<and> b + 5 \<le> user_frames \<and>
     (\<forall>j < table_frames. pool_bit (mem s) (paging_pool s) j \<longleftrightarrow> j < t) \<and>
     (\<forall>j < user_frames. pool_bit (mem s) (user_space_pool s) j \<longleftrightarrow> j < b)"

definition clone_pde :: "'b kernel_state_scheme \<Rightarrow> nat \<Rightarrow> nat \<Rightarrow> page_pointer" where
  "clone_pde g t j =
     (if j = 0 then set_frame (table_frame (Suc t) div page_size) (map_pde g 0) else if j < 4 then map_pde g j else 0)"

definition clone_pte :: "'b kernel_state_scheme \<Rightarrow> nat \<Rightarrow> nat \<Rightarrow> page_pointer" where
  "clone_pte g b j =
     (if 2 \<le> j \<and> j < 7 then set_frame (user_frame (b + (j - 2)) div page_size) (map_pte g j) else map_pte g j)"

text \<open>What cloning leaves alone: everything but the pools, the two new tables and the frames from number \<open>b\<close> on.\<close>

definition clone_keeps :: "nat \<Rightarrow> nat \<Rightarrow> 'a kernel_state_scheme \<Rightarrow> addr \<Rightarrow> bool" where
  "clone_keeps t b s x \<longleftrightarrow> \<not> in_pools s x \<and> unat x < 0x1000000 + 4096 * b \<and>
     \<not> (0x100000 + 4096 * t \<le> unat x \<and> unat x < 0x102000 + 4096 * t)"

text \<open>
  The memory \<open>m\<close> after the first \<open>i\<close> entries of the new directory, page \<open>t\<close>; its first table is page \<open>t + 1\<close>,
  and the five frames hold what the stack held in \<open>s\<close>.
\<close>

definition clone_tables :: "'b kernel_state_scheme \<Rightarrow> nat \<Rightarrow> nat \<Rightarrow> 'a kernel_state_scheme \<Rightarrow> nat \<Rightarrow> memory \<Rightarrow> bool" where
  "clone_tables g t b s i m \<longleftrightarrow>
     (\<forall>j < 1024. load32 m (table_frame t + 4 * of_nat j) = (if j < i then clone_pde g t j else 0)) \<and>
     (\<forall>j < 1024. load32 m (table_frame (Suc t) + 4 * of_nat j) = clone_pte g b j) \<and>
     (\<forall>j n. 2 \<le> j \<longrightarrow> j < 7 \<longrightarrow> n < 4096 \<longrightarrow> m (user_frame (b + (j - 2)) + of_nat n) = mem s (of_nat j * page_size + of_nat n))"

definition cloned :: "'b kernel_state_scheme \<Rightarrow> nat \<Rightarrow> nat \<Rightarrow> 'a kernel_state_scheme \<Rightarrow> nat \<Rightarrow> memory \<Rightarrow> bool" where
  "cloned g t b s i m \<longleftrightarrow> clone_tables g t b s i m \<and>
     (\<forall>j < table_frames. pool_bit m (paging_pool s) j \<longleftrightarrow> j < t + 2) \<and>
     (\<forall>j < user_frames. pool_bit m (user_space_pool s) j \<longleftrightarrow> j < b + 5) \<and>
     (\<forall>x. clone_keeps t b s x \<longrightarrow> m x = mem s x)"

section \<open>Lemmas on pools and tables\<close>

lemma in_pool: "pool_ok p n s \<Longrightarrow> in_range p n x \<longleftrightarrow> unat p \<le> unat x \<and> unat x < unat p + n"
  unfolding pool_ok_def by (subst in_range_linear) simp_all

lemma in_table_frame:
  "k < table_frames \<Longrightarrow> in_range (table_frame k) 4096 x \<longleftrightarrow> 0x100000 + 4096 * k \<le> unat x \<and> unat x < 0x101000 + 4096 * k"
  using unat_table_frame [of k] by (simp add: in_range_linear)

lemma clone_keeps_low: "unat x < 0x100000 \<Longrightarrow> \<not> in_pools s x \<Longrightarrow> clone_keeps t b s x"
  by (simp add: clone_keeps_def)

lemma clone_keeps_kernel:
  assumes "pools_at s bs" and "5 \<le> t" and "0x100000 \<le> unat x" and "unat x < 0x105000"
  shows "clone_keeps t b s x"
  using pools_at_facts(4) [OF assms(1), of x] assms(2-4) by (auto simp: clone_keeps_def)

lemma cloned_kernel:
  assumes "cloned g t b s i m" and "pools_at s bs" and "5 \<le> t" and "kernel_mapped g (mem s)"
  shows "kernel_mapped g m"
  using assms(1) clone_keeps_kernel [OF assms(2,3)] unfolding cloned_def clone_tables_def
  by (intro kernel_mapped_frame [OF assms(4)]) blast

lemma cleared_entries:
  assumes "\<And>x. in_range (table_frame k) 4096 x \<Longrightarrow> m x = 0" and "j < 1024"
  shows "load32 m (table_frame k + 4 * of_nat j) = 0"
proof -
  have "load32 m (table_frame k + 4 * of_nat j) = load32 (\<lambda>_. 0) (table_frame k + 4 * of_nat j)"
    using assms in_range_slot [of "table_frame k" j _ 1024] by (intro load32_cong) simp
  then show ?thesis by (simp add: load32_def)
qed

lemma stack_byte:
  assumes "2 \<le> j" and "j < 7" and "n < 4096"
  shows "unat (of_nat j * page_size + of_nat n) = 4096 * j + n"
  using assms page_number [of j] by (subst unat_plus_small) (simp_all add: unat_of_nat32)

lemma kernel_state_same_mem: "s3 = s\<lparr>mem := m\<rparr>\<lparr>mem := mem s3\<rparr> \<Longrightarrow> s3\<lparr>mem := x\<rparr> = s\<lparr>mem := x\<rparr>"
  for s :: "'a kernel_state_scheme"
  by (metis (no_types) machine.surjective machine.update_convs(1))

section \<open>The entries of the directory\<close>

lemma cloned_entry:
  assumes c: "cloned g t b s i m" and ok: "pools_at s bs" and i: "i < 1024" and t: "t + 2 \<le> table_frames" and b: "b + 5 \<le> user_frames"
    and m': "m' = m \<and> clone_pde g t i = 0 \<or> m' = store32 m (table_frame t + 4 * of_nat i) (clone_pde g t i)"
  shows "cloned g t b s (Suc i) m'"
proof -
  note c = c [unfolded cloned_def clone_tables_def] and f = pools_at_facts [OF ok]
  have ui: "unat (table_frame t + 4 * of_nat i) = 0x100000 + 4096 * t + 4 * i" using unat_table_entry [of t i] i t by simp
  have out: "m' x = m x" if "unat x < 0x100000 + 4096 * t \<or> 0x101000 + 4096 * t \<le> unat x" for x
    using m' that i t by (auto simp: store32_outside in_range_linear ui)
  have "load32 m' (table_frame t + 4 * of_nat j) = load32 m (table_frame t + 4 * of_nat j)" if "j < 1024" "j \<noteq> i" for j
  proof -
    have "disjoint_ranges (table_frame t + 4 * of_nat i) 4 (table_frame t + 4 * of_nat j) 4"
      using i that by (intro slots_apart [where n = 1024]) simp_all
    then show ?thesis using m' by (auto simp: load32_store32_other)
  qed
  moreover have "load32 m' (table_frame t + 4 * of_nat i) = clone_pde g t i" using m' c i by auto
  ultimately have 1: "load32 m' (table_frame t + 4 * of_nat j) = (if j < Suc i then clone_pde g t j else 0)" if "j < 1024" for j
    using c that by (cases "j = i") auto
  have "load32 m' (table_frame (Suc t) + 4 * of_nat j) = load32 m (table_frame (Suc t) + 4 * of_nat j)" if "j < 1024" for j
    using that t out unat_table_entry [of "Suc t" j] by (intro load32_untouched) simp_all
  moreover have "m' (user_frame (b + (j - 2)) + of_nat n) = m (user_frame (b + (j - 2)) + of_nat n)" if "2 \<le> j" "j < 7" "n < 4096" for j n
    using that b t unat_user_frame [of "b + (j - 2)"] by (intro out) (subst (1 2) unat_plus_small; simp add: unat_of_nat32)
  moreover have "pool_bit m' (paging_pool s) j \<longleftrightarrow> pool_bit m (paging_pool s) j" if "j < table_frames" for j
    by (rule pool_bit_cong(1) [OF that], rule out) (use f(4) in fastforce)
  moreover have "pool_bit m' (user_space_pool s) j \<longleftrightarrow> pool_bit m (user_space_pool s) j" if "j < user_frames" for j
    by (rule pool_bit_cong(2) [OF that], rule out) (use f(4) in fastforce)
  moreover have "m' x = m x" if "clone_keeps t b s x" for x using that by (intro out) (auto simp: clone_keeps_def)
  ultimately show ?thesis using c 1 unfolding cloned_def clone_tables_def by simp
qed

lemma clone_directory_rest:
  fixes s :: "'a kernel_state_scheme"
  assumes ready: "clone_ready g t b s bs"
    and one: "clone_directory_walk (table_frame 0) (table_frame t) 1 s1 = Inr ((), s\<lparr>mem := m\<rparr>)" "cloned g t b s 1 m"
    and "1 \<le> i" and "i \<le> 1024"
  shows "\<exists>m. clone_directory_walk (table_frame 0) (table_frame t) i s1 = Inr ((), s\<lparr>mem := m\<rparr>) \<and> cloned g t b s i m"
  using assms(4,5)
proof (induction i rule: dec_induct)
  case base
  then show ?case using one by blast
next
  case (step i)
  note r = ready [unfolded clone_ready_def]
  have pools: "pools_at s bs" and t: "5 \<le> t" "t + 2 \<le> table_frames" and b: "b + 5 \<le> user_frames" using r by auto
  from step obtain m where m: "clone_directory_walk (table_frame 0) (table_frame t) i s1 = Inr ((), s\<lparr>mem := m\<rparr>)" "cloned g t b s i m" by auto
  have i: "i < 1024" "i \<noteq> 0" using step by simp_all
  have k: "kernel_mapped g m" using cloned_kernel [OF m(2) pools t(1)] r by blast
  note e = kernel_entry [OF k i(1)]
  define m' where "m' = (if i < 4 then store32 m (table_frame t + 4 * of_nat i) (clone_pde g t i) else m)"
  have "cloned g t b s (Suc i) m'" by (rule cloned_entry [OF m(2) pools i(1) t(2) b]) (simp add: m'_def clone_pde_def)
  moreover have "clone_directory_walk (table_frame 0) (table_frame t) (Suc i) s1 = Inr ((), s\<lparr>mem := m'\<rparr>)"
    using m(1) e i kernel_user_pages [OF k, of i]
    by (auto simp: Let_def map_pde_flags set_entry_def clone_pde_def page_present_def [of 0] m'_def)
  ultimately show ?case by blast
qed

section \<open>The first table\<close>

text \<open>One more page table on a state in which \<open>k\<close> of them are in use.\<close>

lemma next_folder:
  fixes s :: "'a kernel_state_scheme"
  assumes pools: "pools_at s bs" and k: "k < table_frames" "5 \<le> k" and bits: "\<And>j. j < table_frames \<Longrightarrow> pool_bit (mem s) (paging_pool s) j \<longleftrightarrow> j < k"
    and map: "kernel_mapped g (mem s)"
  obtains m where "allocate_page_folder s = Inr (table_frame k, s\<lparr>mem := m\<rparr>)" and "pools_at (s\<lparr>mem := m\<rparr>) bs" and "kernel_mapped g m"
    and "\<And>j. j < table_frames \<Longrightarrow> pool_bit m (paging_pool s) j \<longleftrightarrow> j < Suc k"
    and "\<And>j. j < user_frames \<Longrightarrow> pool_bit m (user_space_pool s) j \<longleftrightarrow> pool_bit (mem s) (user_space_pool s) j"
    and "\<And>j. j < 1024 \<Longrightarrow> load32 m (table_frame k + 4 * of_nat j) = 0"
    and "\<And>x. \<not> in_range (table_frame k) 4096 x \<Longrightarrow> \<not> in_range (paging_pool s) 448 x \<Longrightarrow> m x = mem s x"
proof -
  note f = pools_at_facts [OF pools]
  obtain m where m: "allocate_page_folder s = Inr (table_frame k, s\<lparr>mem := m\<rparr>)"
    "\<And>j. j < table_frames \<Longrightarrow> pool_bit m (paging_pool s) j \<longleftrightarrow> j \<le> k"
    "\<And>x. in_range (table_frame k) 4096 x \<Longrightarrow> m x = 0"
    "\<And>x. \<not> in_range (table_frame k) 4096 x \<Longrightarrow> \<not> in_range (paging_pool s) 448 x \<Longrightarrow> m x = mem s x"
    by (rule allocate_page_folder_eq [OF f(5) k(1) bits]) blast+
  show thesis
  proof (rule that [OF m(1)])
    show "pools_at (s\<lparr>mem := m\<rparr>) bs"
      by (rule pools_at_write(1) [OF pools]) (use m(4) k in \<open>auto simp: in_table_frame\<close>)
    show "kernel_mapped g m"
    proof (rule kernel_mapped_frame [OF map])
      fix x :: addr
      assume "0x100000 \<le> unat x" "unat x < 0x105000"
      then show "m x = mem s x" using f(4) [of x] k by (intro m(4)) (auto simp: in_table_frame)
    qed
    show "pool_bit m (user_space_pool s) j \<longleftrightarrow> pool_bit (mem s) (user_space_pool s) j" if "j < user_frames" for j
      by (rule pool_bit_cong(2) [OF that], rule m(4)) (use f(4,7) k in \<open>force simp: in_table_frame disjoint_ranges_def\<close>)+
  qed (use m in \<open>auto simp: less_Suc_eq_le intro: cleared_entries\<close>)
qed

lemma kernel_clone_start:
  fixes s :: "'a kernel_state_scheme"
  assumes pools: "pools_at s bs" and on: "paging_enabled s" and map: "kernel_mapped g (mem s)"
    and pos: "0x7000 \<le> unat (user_space_pool s)" and t: "1 < t" "t < table_frames" and b: "b + 5 \<le> user_frames"
    and bits: "\<And>j. j < user_frames \<Longrightarrow> pool_bit (mem s) (user_space_pool s) j \<longleftrightarrow> j < b"
    and zero: "\<And>j. j < 1024 \<Longrightarrow> load32 (mem s) (table_frame t + 4 * of_nat j) = 0"
  shows "clone_start s bs (map_pde g 0) t b" and "j < 1024 \<Longrightarrow> source_entry s (map_pde g 0) j = map_pte g j"
proof -
  have es: "source_entry s (map_pde g 0) j = map_pte g j" if "j < 1024" for j
    using kernel_table_entry [OF map, of 0 j] that by (simp add: source_entry_def)
  have "kept_byte s t b (of_nat j * page_size + of_nat n)" if j: "2 \<le> j" "j < 7" "n < 4096" for j n
    using stack_byte [OF j] j pos t by (simp add: kept_byte_def in_table_frame in_pool [OF pools_at_facts(6) [OF pools]])
  moreover have "copies (map_pde g 0) (source_entry s (map_pde g 0)) 1024 = 5"
    by (subst kernel_copies [of _ g]) (simp_all add: es)
  ultimately show "clone_start s bs (map_pde g 0) t b"
    unfolding clone_start_def using assms es
    by (auto simp: contents_pde kernel_copied map_pte_flags entry_at_def intro: exI [of _ 1])
  show "source_entry s (map_pde g 0) j = map_pte g j" if "j < 1024" using es that .
qed

lemma clone_inv_cloned:
  fixes s :: "'a kernel_state_scheme"
  assumes ready: "clone_ready g t b s bs" and inv: "clone_inv (s\<lparr>mem := m2\<rparr>) (map_pde g 0) (Suc t) b 1024 s3"
    and es: "\<And>j. j < 1024 \<Longrightarrow> source_entry (s\<lparr>mem := m2\<rparr>) (map_pde g 0) j = map_pte g j"
    and bits: "\<And>j. j < table_frames \<Longrightarrow> pool_bit m2 (paging_pool s) j \<longleftrightarrow> j < t + 2"
    and zero: "\<And>j. j < 1024 \<Longrightarrow> load32 m2 (table_frame t + 4 * of_nat j) = 0"
    and keep: "\<And>x. clone_keeps t b s x \<Longrightarrow> m2 x = mem s x"
  shows "cloned g t b s 0 (mem s3)"
proof -
  let ?s2 = "s\<lparr>mem := m2\<rparr>" and ?p = "map_pde g 0"
  note r = ready [unfolded clone_ready_def] and iv = inv [unfolded clone_inv_def]
  note f = pools_at_facts [OF conjunct1 [OF r]]
  have t: "5 \<le> t" "t < table_frames" "Suc t < table_frames" using r by auto
  note c = kernel_copies [OF es]
  have kept: "mem s3 x = m2 x" if "kept_byte ?s2 (Suc t) b x" for x using iv that by simp
  have mid: "kept_byte ?s2 (Suc t) b x" if "0x100000 + 4096 * t \<le> unat x" "unat x < 0x101000 + 4096 * t" for x
    using that f(4) [of x] t by (auto simp: kept_byte_def in_table_frame)
  have "load32 (mem s3) (table_frame t + 4 * of_nat j) = 0" if "j < 1024" for j
    using that zero [OF that] unat_table_entry [of t j] kept mid t
    by (subst load32_untouched [of _ _ m2]) simp_all
  moreover have "load32 (mem s3) (table_frame (Suc t) + 4 * of_nat j) = clone_pte g b j" if j: "j < 1024" for j
  proof -
    have "load32 (mem s3) (table_frame (Suc t) + 4 * of_nat j) = clone_entry ?p (source_entry ?s2 ?p) b j"
      using iv j unfolding entry_at_def by simp
    then show ?thesis using j es c [of j] by (auto simp: clone_entry_def clone_pte_def kernel_copied map_pte_flags)
  qed
  moreover have "mem s3 (user_frame (b + (j - 2)) + of_nat n) = mem s (of_nat j * page_size + of_nat n)"
    if j: "2 \<le> j" "j < 7" "n < 4096" for j n
  proof -
    have "mem s3 (user_frame (b + copies ?p (source_entry ?s2 ?p) j) + of_nat n) = m2 (get_contents_as_page (source_entry ?s2 ?p j) + of_nat n)"
      using iv j es by (simp add: kernel_copied)
    moreover have "copies ?p (source_entry ?s2 ?p) j = j - 2" using c [of j] j by auto
    moreover have "m2 (of_nat j * page_size + of_nat n) = mem s (of_nat j * page_size + of_nat n)"
      using stack_byte [OF j] j r by (intro keep clone_keeps_low) (simp_all add: in_pool [OF f(5)] in_pool [OF f(6)])
    ultimately show ?thesis using j es by (simp add: map_pte_flags)
  qed
  moreover have "pool_bit (mem s3) (paging_pool s) j \<longleftrightarrow> j < t + 2" if "j < table_frames" for j
  proof -
    have "mem s3 x = m2 x" if "in_range (paging_pool s) 448 x" for x
      using that f(4) [of x] f(7) t by (intro kept) (auto simp: kept_byte_def in_table_frame disjoint_ranges_def)
    then show ?thesis using bits [OF that] pool_bit_cong(1) [OF that] by blast
  qed
  moreover have "pool_bit (mem s3) (user_space_pool s) j \<longleftrightarrow> j < b + 5" if "j < user_frames" for j
    using iv that c [of 1024] by simp
  moreover have "mem s3 x = mem s x" if "clone_keeps t b s x" for x
    using that kept [of x] keep [OF that] t by (auto simp: clone_keeps_def kept_byte_def in_table_frame)
  ultimately show ?thesis unfolding cloned_def clone_tables_def by simp
qed

text \<open>The first entry of the directory, whose table holds the stack pages.\<close>

lemma clone_first_table:
  fixes s :: "'a kernel_state_scheme"
  assumes ready: "clone_ready g t b s bs"
  obtains m1 m where "allocate_page_folder s = Inr (table_frame t, s\<lparr>mem := m1\<rparr>)"
    and "clone_directory_walk (table_frame 0) (table_frame t) 1 (s\<lparr>mem := m1\<rparr>) = Inr ((), s\<lparr>mem := m\<rparr>)" and "cloned g t b s 1 m"
proof -
  note r = ready [unfolded clone_ready_def]
  have pools: "pools_at s bs" and t: "5 \<le> t" "t < table_frames" "Suc t < table_frames" "t + 2 \<le> table_frames"
    and b: "b + 5 \<le> user_frames" using r by auto
  note f = pools_at_facts [OF pools]
  obtain m1 where m1: "allocate_page_folder s = Inr (table_frame t, s\<lparr>mem := m1\<rparr>)" "pools_at (s\<lparr>mem := m1\<rparr>) bs" "kernel_mapped g m1"
    "\<And>j. j < table_frames \<Longrightarrow> pool_bit m1 (paging_pool s) j \<longleftrightarrow> j < Suc t"
    "\<And>j. j < user_frames \<Longrightarrow> pool_bit m1 (user_space_pool s) j \<longleftrightarrow> pool_bit (mem s) (user_space_pool s) j"
    "\<And>j. j < 1024 \<Longrightarrow> load32 m1 (table_frame t + 4 * of_nat j) = 0"
    "\<And>x. \<not> in_range (table_frame t) 4096 x \<Longrightarrow> \<not> in_range (paging_pool s) 448 x \<Longrightarrow> m1 x = mem s x"
    by (rule next_folder [OF pools t(2,1), of g]) (use r in auto)
  let ?s1 = "s\<lparr>mem := m1\<rparr>"
  obtain m2 where m2: "allocate_page_folder ?s1 = Inr (table_frame (Suc t), s\<lparr>mem := m2\<rparr>)" "pools_at (s\<lparr>mem := m2\<rparr>) bs" "kernel_mapped g m2"
    "\<And>j. j < table_frames \<Longrightarrow> pool_bit m2 (paging_pool s) j \<longleftrightarrow> j < t + 2"
    "\<And>j. j < user_frames \<Longrightarrow> pool_bit m2 (user_space_pool s) j \<longleftrightarrow> pool_bit m1 (user_space_pool s) j"
    "\<And>j. j < 1024 \<Longrightarrow> load32 m2 (table_frame (Suc t) + 4 * of_nat j) = 0"
    "\<And>x. \<not> in_range (table_frame (Suc t)) 4096 x \<Longrightarrow> \<not> in_range (paging_pool s) 448 x \<Longrightarrow> m2 x = m1 x"
    by (rule next_folder [OF m1(2) t(3), of g]) (use m1(3,4) t in auto)
  let ?s2 = "s\<lparr>mem := m2\<rparr>" and ?p = "map_pde g 0"
  have bits: "pool_bit m2 (user_space_pool s) j \<longleftrightarrow> j < b" if "j < user_frames" for j using that m2(5) m1(5) r by simp
  have start: "clone_start ?s2 bs ?p (Suc t) b" and es: "\<And>j. j < 1024 \<Longrightarrow> source_entry ?s2 ?p j = map_pte g j"
    using kernel_clone_start [of ?s2 bs g "Suc t" b] m2(2,3,6) bits r t by simp_all
  obtain s3 where s3: "clone_table_walk ?p (table_frame (Suc t)) 1024 ?s2 = Inr ((), s3)" "clone_inv ?s2 ?p (Suc t) b 1024 s3"
    by (rule clone_table_walk_inv [OF start])
  define m where "m = store32 (mem s3) (table_frame t) (clone_pde g t 0)"
  have e3: "s3\<lparr>mem := x\<rparr> = s\<lparr>mem := x\<rparr>" for x using s3(2) unfolding clone_inv_def by (metis kernel_state_same_mem)
  have "clone_table ?p ?s1 = Inr (clone_pde g t 0, s3)"
    using m2(1) s3(1) by (simp add: clone_table_def clone_page_pointer_id clone_pde_def)
  moreover have "entry_at m1 (table_frame 0) 0 = ?p" using kernel_entry [OF m1(3), of 0] by simp
  moreover have "contains_user_pages ?p m1" using kernel_user_pages [OF m1(3), of 0] by simp
  ultimately have w: "clone_directory_walk (table_frame 0) (table_frame t) 1 ?s1 = Inr ((), s\<lparr>mem := m\<rparr>)"
    by (simp add: Let_def map_pde_flags set_entry_def e3 m_def)
  have "cloned g t b s 0 (mem s3)"
  proof (rule clone_inv_cloned [OF ready s3(2) es m2(4)])
    show "load32 m2 (table_frame t + 4 * of_nat j) = 0" if "j < 1024" for j
    proof -
      have "m2 x = m1 x" if "0x100000 + 4096 * t \<le> unat x" "unat x < 0x101000 + 4096 * t" for x
        using that f(4) [of x] t by (intro m2(7)) (auto simp: in_table_frame)
      then show ?thesis using m1(6) [OF that] that unat_table_entry [of t j] t by (subst load32_untouched [of _ _ m1]) simp_all
    qed
    show "m2 x = mem s x" if "clone_keeps t b s x" for x
      using that m2(7) [of x] m1(7) [of x] t by (auto simp: in_table_frame clone_keeps_def)
  qed
  then have "cloned g t b s 1 m"
    using cloned_entry [OF _ pools _ t(4) b, of g 0 "mem s3" m] by (simp add: m_def)
  with m1(1) w show thesis by (rule that)
qed

lemma clone_directory_kernel:
  fixes s :: "'a kernel_state_scheme"
  assumes ready: "clone_ready g t b s bs"
  obtains m where "clone_directory (table_frame 0) s = Inr (table_frame t, s\<lparr>mem := m\<rparr>)" and "cloned g t b s 1024 m"
    and "pools_at (s\<lparr>mem := m\<rparr>) bs" and "heap_area (s\<lparr>mem := m\<rparr>) = heap_area s"
proof -
  have pools: "pools_at s bs" using ready by (simp add: clone_ready_def)
  obtain m1 m where m1: "allocate_page_folder s = Inr (table_frame t, s\<lparr>mem := m1\<rparr>)"
    "clone_directory_walk (table_frame 0) (table_frame t) 1 (s\<lparr>mem := m1\<rparr>) = Inr ((), s\<lparr>mem := m\<rparr>)" "cloned g t b s 1 m"
    by (rule clone_first_table [OF ready])
  from clone_directory_rest [OF ready m1(2,3), of 1024] obtain m' where
    m': "clone_directory_walk (table_frame 0) (table_frame t) 1024 (s\<lparr>mem := m1\<rparr>) = Inr ((), s\<lparr>mem := m'\<rparr>)" "cloned g t b s 1024 m'"
    by auto
  have low: "m' x = mem s x" if "\<not> in_pools s x" "unat x < 0x100000" for x
    using m'(2) clone_keeps_low [OF that(2,1)] unfolding cloned_def clone_tables_def by blast
  show thesis
    using that [OF _ m'(2) pools_at_write [OF pools low]] m1(1) m'(1) by (simp add: clone_directory_def)
qed

section \<open>The child's view of memory\<close>

lemma clone_tables_frame:
  assumes c: "clone_tables g t b s i m" and t: "Suc t < table_frames" and b: "b + 5 \<le> user_frames"
    and same: "\<And>x. 0x100000 \<le> unat x \<Longrightarrow> m' x = m x"
  shows "clone_tables g t b s i m'"
proof -
  have "load32 m' (table_frame u + 4 * of_nat j) = load32 m (table_frame u + 4 * of_nat j)" if "u < table_frames" "j < 1024" for u j
    using that same unat_table_entry [OF that] by (intro load32_untouched) simp_all
  moreover have "m' (user_frame (b + (j - 2)) + of_nat n) = m (user_frame (b + (j - 2)) + of_nat n)" if "2 \<le> j" "j < 7" "n < 4096" for j n
    using that b unat_user_frame [of "b + (j - 2)"] by (intro same) (subst unat_plus_small; simp add: unat_of_nat32)
  ultimately show ?thesis using c t unfolding clone_tables_def by simp
qed

lemma clone_entries:
  assumes c: "clone_tables g t b s 1024 m" and map: "kernel_mapped g m" and t: "Suc t < table_frames"
  shows "i < 1024 \<Longrightarrow> entry_at m (table_frame t) (of_nat i) = clone_pde g t i"
    and "i < 4 \<Longrightarrow> j < 1024 \<Longrightarrow> entry_at m (get_contents_as_page (clone_pde g t i)) (of_nat j) =
      (if i = 0 then clone_pte g b j else map_pte g (1024 * i + j))"
proof -
  note c = c [unfolded clone_tables_def]
  show "i < 1024 \<Longrightarrow> entry_at m (table_frame t) (of_nat i) = clone_pde g t i" using c by (simp add: entry_at_def)
  have "unat (table_frame (Suc t)) mod 4096 = 0" using unat_table_frame [OF t] by simp
  then have "get_contents_as_page (clone_pde g t 0) = table_frame (Suc t)" by (simp add: clone_pde_def set_frame_contents)
  then show "i < 4 \<Longrightarrow> j < 1024 \<Longrightarrow> entry_at m (get_contents_as_page (clone_pde g t i)) (of_nat j) =
      (if i = 0 then clone_pte g b j else map_pte g (1024 * i + j))"
    using c kernel_table_entry [OF map, of i j] by (auto simp: entry_at_def clone_pde_def)
qed

lemma map_pte_frame: "k < 4096 \<Longrightarrow> unat (get_contents_as_page (map_pte g k)) = 4096 * k"
  by (simp only: map_pte_flags(4) page_number)

lemma set_frame_flags:
  "page_present (set_frame f p) = page_present p" "page_user (set_frame f p) = page_user p" "page_rw (set_frame f p) = page_rw p"
  by (simp_all add: page_present_def page_user_def page_rw_def set_frame_bits)

lemma clone_pde_flags:
  assumes "i < 4"
  shows "page_present (clone_pde g t i)" and "\<not> page_user (clone_pde g t i)" and "page_rw (clone_pde g t i)"
  using assms by (simp_all add: clone_pde_def set_frame_flags map_pde_flags)

lemma clone_pte_flags:
  assumes "j < 1024" and b: "b + 5 \<le> user_frames"
  shows "page_present (clone_pte g b j)" and "page_rw (clone_pte g b j) \<longleftrightarrow> 2 \<le> j \<and> j < 7"
    and "unat (get_contents_as_page (clone_pte g b j)) = 4096 * (if 2 \<le> j \<and> j < 7 then 4094 + b + j else j)"
proof -
  have k: "j < 4096" using assms by simp
  show "page_present (clone_pte g b j)" "page_rw (clone_pte g b j) \<longleftrightarrow> 2 \<le> j \<and> j < 7"
    using map_pte_flags [OF k] by (auto simp: clone_pte_def set_frame_flags)
  show "unat (get_contents_as_page (clone_pte g b j)) = 4096 * (if 2 \<le> j \<and> j < 7 then 4094 + b + j else j)"
  proof (cases "2 \<le> j \<and> j < 7")
    case True
    then have "unat (user_frame (b + (j - 2))) = 4096 * (4094 + b + j)" using b unat_user_frame [of "b + (j - 2)"] by auto
    then show ?thesis using True by (simp add: clone_pte_def set_frame_contents)
  next
    case False
    then show ?thesis using map_pte_frame [OF k] by (auto simp: clone_pte_def)
  qed
qed

text \<open>The frames of child number \<open>b\<close> are reached from the stack by a constant distance.\<close>

definition stack_shift :: "nat \<Rightarrow> addr" where
  "stack_shift b = of_nat (0xffe000 + 4096 * b)"

lemma translate_clone:
  assumes c: "clone_tables g t b s 1024 m" and map: "kernel_mapped g m" and t: "Suc t < table_frames" and b: "b + 5 \<le> user_frames"
  shows "translate m (table_frame t) va =
    (if unat va < 0x1000000
     then if 0x2000 \<le> unat va \<and> unat va < 0x7000 then Some (va + stack_shift b, False, True) else Some (va, False, False)
     else None)"
proof (cases "unat va < 0x1000000")
  case True
  define k where "k = unat va div 4096"
  note p = kernel_page [OF True, folded k_def]
  have d: "k div 1024 < 4" using p(1) by (simp add: less_mult_imp_div_less)
  define pte where "pte = (if k div 1024 = 0 then clone_pte g b (k mod 1024) else map_pte g (1024 * (k div 1024) + k mod 1024))"
  have e: "entry_at m (table_frame t) (of_nat (k div 1024)) = clone_pde g t (k div 1024)"
    "entry_at m (get_contents_as_page (clone_pde g t (k div 1024))) (of_nat (k mod 1024)) = pte"
    using clone_entries [OF c map t] d by (simp_all add: pte_def)
  define f where "f = (if 2 \<le> k \<and> k < 7 then 4094 + b + k else k)"
  have pte: "page_present pte" "page_rw pte \<longleftrightarrow> 2 \<le> k \<and> k < 7" "unat (get_contents_as_page pte) = 4096 * f"
  proof -
    have "pte = (if k < 1024 then clone_pte g b k else map_pte g k)" unfolding pte_def mult_div_mod_eq by (simp add: div_eq_0_iff)
    then show "page_present pte" "page_rw pte \<longleftrightarrow> 2 \<le> k \<and> k < 7" "unat (get_contents_as_page pte) = 4096 * f"
      using clone_pte_flags [of k b g] b map_pte_flags(1,3) [OF p(1), of g] map_pte_frame [OF p(1), of g]
      by (auto simp: f_def split: if_splits)
  qed
  from translate_entries [OF k_def p(1) e(1) clone_pde_flags(1) [OF d] e(2) pte(1,3)]
  have "translate m (table_frame t) va = Some (of_nat (4096 * f + unat va mod 4096), False, 2 \<le> k \<and> k < 7)"
    using clone_pde_flags [OF d, of g t] pte(2) by simp
  moreover have "of_nat (4096 * f + unat va mod 4096) = (if 2 \<le> k \<and> k < 7 then va + stack_shift b else va)"
  proof (cases "2 \<le> k \<and> k < 7")
    case True
    then have "4096 * f + unat va mod 4096 = (4096 * k + unat va mod 4096) + (0xffe000 + 4096 * b)" by (simp add: f_def)
    then have "(of_nat (4096 * f + unat va mod 4096) :: addr) = of_nat (4096 * k + unat va mod 4096) + of_nat (0xffe000 + 4096 * b)"
      by (metis of_nat_add)
    then show ?thesis unfolding p(3) using True by (simp add: stack_shift_def)
  next
    case False
    then have "f = k" by (simp add: f_def)
    then show ?thesis unfolding \<open>f = k\<close> p(3) using False by auto
  qed
  ultimately show ?thesis using True p(2) by auto
next
  case False
  then show ?thesis
    using translate_absent [of m "table_frame t" va] clone_entries(1) [OF c map t] by (simp add: clone_pde_def)
qed

lemma clone_stack:
  assumes c: "clone_tables g t b s 1024 m" and va: "0x2000 \<le> unat va" "unat va < 0x7000" and b: "b + 5 \<le> user_frames"
  shows "m (va + stack_shift b) = mem s va"
proof -
  define k n where "k = unat va div 4096" and "n = unat va mod 4096"
  have k: "2 \<le> k" "k < 7" "n < 4096" using va by (auto simp: k_def n_def)
  have "unat (user_frame (b + (k - 2)) + of_nat n) = 0x1000000 + 4096 * (b + (k - 2)) + n"
    using k b unat_user_frame [of "b + (k - 2)"] by (subst unat_plus_small) (simp_all add: unat_of_nat32)
  moreover have "4096 * k + n = unat va" by (simp add: k_def n_def)
  moreover have "unat (stack_shift b) = 0xffe000 + 4096 * b" using b by (simp add: stack_shift_def unat_of_nat32 del: of_nat_add)
  then have "unat (va + stack_shift b) = unat va + (0xffe000 + 4096 * b)" using va b by (subst unat_plus_small) simp_all
  ultimately have "user_frame (b + (k - 2)) + of_nat n = va + stack_shift b" using k by (intro word_eq_unatI) simp
  moreover have "of_nat k * page_size + of_nat n = va"
    using stack_byte [OF k] by (intro word_eq_unatI) (simp add: k_def n_def)
  ultimately show ?thesis using c k unfolding clone_tables_def by metis
qed

end
