(* ===== verification/Tasks.thy ===== *)
theory Tasks
  imports Kernel
begin

text \<open>
  The task structures that \<^verbatim>\<open>core/kernel/task.c\<close> creates, and the end of the ready queue where \<^verbatim>\<open>fork\<close> enters a new
  one.
\<close>

section \<open>A new task structure\<close>

definition task_write :: "u_dword \<Rightarrow> addr \<Rightarrow> addr \<Rightarrow> memory \<Rightarrow> memory" where
  "task_write pid directory t m =
     set_task_next t 0 (set_task_directory t directory (set_task_eip t 0 (set_task_esp t 0 (set_task_ebp t 0 (set_task_id t pid m)))))"

lemma fill_task_eq: "fill_task t d s = s\<lparr>next_pid := next_pid s + 1, mem := task_write (next_pid s) d t (mem s)\<rparr>"
  by (simp add: fill_task_def task_write_def Let_def)

lemma task_slot_other:
  "4 \<le> unat (b - a) \<Longrightarrow> 4 \<le> unat (a - b) \<Longrightarrow> load32 (store32 m (t + a) v) (t + b) = load32 m (t + b)"
  by (intro load32_store32_other disjoint_by_distance) simp_all

lemma task_write_fields:
  "task_id (task_write pid d t m) t = pid" "task_next (task_write pid d t m) t = nullptr"
  "context_of (task_write pid d t m) t = \<lparr>ctx_esp = 0, ctx_ebp = 0, ctx_eip = 0, ctx_dir = d\<rparr>"
  using task_slot_other [where b = 0]
  by (simp_all add: task_write_def context_of_def task_fields task_updates task_slot_other)

lemma task_write_outside:
  assumes "\<not> in_range t 24 x"
  shows "task_write pid d t m x = m x"
proof -
  have "\<not> in_range (t + of_nat k) 4 x" if "k \<le> 20" for k
    using that task_field_in assms by blast
  from this [of 0] this [of 4] this [of 8] this [of 12] this [of 16] this [of 20]
  show ?thesis by (simp add: task_write_def task_updates store32_outside)
qed

section \<open>The end of the queue\<close>

lemma queue_end_last:
  assumes q: "task_queue s ts" and "i < length ts" and "length ts - i \<le> fuel"
  shows "queue_end fuel (ts ! i) (mem s) = Some (last ts)"
  using assms(2,3)
proof (induction fuel arbitrary: i)
  case (Suc fuel)
  note n = task_queueD(4) [OF q Suc.prems(1)] and nz = task_queueD(3) [OF q]
  show ?case
  proof (cases "Suc i < length ts")
    case True
    then show ?thesis using Suc.IH [OF True] Suc.prems(2) n nz [OF True] by simp
  next
    case False
    then have "ts ! i = last ts" using Suc.prems(1) by (metis One_nat_def Suc_lessI diff_Suc_1' last_conv_nth task_queueD(1) [OF q])
    then show ?thesis using False n by simp
  qed
qed simp

lemma task_queue_fits:
  assumes "task_queue s ts"
  shows "length ts \<le> walk_fuel"
proof -
  have "length ts = card (set ts)" using task_queue_distinct [OF assms] by (simp add: distinct_card)
  also have "\<dots> \<le> CARD(addr)" by (rule card_mono) simp_all
  finally show ?thesis by (simp add: card_word walk_fuel_def)
qed

lemma queue_end_queue: "task_queue s ts \<Longrightarrow> queue_end walk_fuel (ready_queue s) (mem s) = Some (last ts)"
  using queue_end_last [of s ts 0 walk_fuel] task_queue_fits [of s ts] task_queueD(1,2) [of s ts] by simp

text \<open>Appending a task at the end of the list, as \<^verbatim>\<open>fork\<close> does.\<close>

definition enter_task :: "u_dword \<Rightarrow> u_dword \<Rightarrow> addr \<Rightarrow> addr \<Rightarrow> addr \<Rightarrow> memory \<Rightarrow> memory" where
  "enter_task esp ebp eip final t m =
     set_task_eip t eip (set_task_ebp t ebp (set_task_esp t esp (set_task_next final t m)))"

lemma enter_task_outside:
  assumes "\<not> in_range t 24 x" and "\<not> in_range (final + 20) 4 x"
  shows "enter_task esp ebp eip final t m x = m x"
proof -
  have "\<not> in_range (t + of_nat k) 4 x" if "k \<le> 20" for k
    using that task_field_in assms(1) by blast
  from this [of 4] this [of 8] this [of 12] assms(2)
  show ?thesis by (simp add: enter_task_def task_updates store32_outside)
qed

lemma enter_task_new:
  assumes "disjoint_ranges t 24 final 24"
  shows "task_id (enter_task esp ebp eip final t m) t = task_id m t" and "task_next (enter_task esp ebp eip final t m) t = task_next m t"
    and "context_of (enter_task esp ebp eip final t m) t = (context_of m t)\<lparr>ctx_esp := esp, ctx_ebp := ebp, ctx_eip := eip\<rparr>"
proof -
  define m1 where "m1 = set_task_next final t m"
  have "m1 x = m x" if "in_range t 24 x" for x
  proof -
    have "\<not> in_range (final + of_nat 20) 4 x" using that assms task_field_in [of final 20 x] by (auto dest: disjoint_rangesD)
    then show ?thesis by (simp add: m1_def set_task_next_def store32_outside)
  qed
  note f = task_field_frame [of t m1 m, OF this]
  note o = task_slot_other [where b = 0 and t = t, simplified] task_slot_other [of _ _ _ t]
  show "task_id (enter_task esp ebp eip final t m) t = task_id m t" "task_next (enter_task esp ebp eip final t m) t = task_next m t"
    "context_of (enter_task esp ebp eip final t m) t = (context_of m t)\<lparr>ctx_esp := esp, ctx_ebp := ebp, ctx_eip := eip\<rparr>"
    unfolding enter_task_def m1_def [symmetric] context_of_def using f
    by (simp_all add: task_fields task_updates o)
qed

lemma enter_task_last:
  assumes "disjoint_ranges t 24 final 24"
  shows "task_id (enter_task esp ebp eip final t m) final = task_id m final" and "task_next (enter_task esp ebp eip final t m) final = t"
    and "context_of (enter_task esp ebp eip final t m) final = context_of m final"
proof -
  define m1 where "m1 = set_task_next final t m"
  have "enter_task esp ebp eip final t m x = m1 x" if "in_range final 24 x" for x
  proof -
    have "\<not> in_range (t + of_nat k) 4 x" if "k \<le> 20" for k
      using that assms \<open>in_range final 24 x\<close> task_field_in [of t k x] by (auto dest: disjoint_rangesD)
    from this [of 4] this [of 8] this [of 12]
    show ?thesis by (simp add: enter_task_def m1_def task_updates store32_outside)
  qed
  note f = task_field_frame [of final "enter_task esp ebp eip final t m" m1, OF this]
  note o = task_slot_other [where b = 0 and t = final, simplified] task_slot_other [of _ _ _ final]
  show "task_id (enter_task esp ebp eip final t m) final = task_id m final" "task_next (enter_task esp ebp eip final t m) final = t"
    "context_of (enter_task esp ebp eip final t m) final = context_of m final"
    using f by (simp_all add: context_of_def) (simp_all add: m1_def task_fields task_updates o)
qed

lemma enter_task_other:
  assumes "disjoint_ranges t 24 u 24" and "disjoint_ranges final 24 u 24"
  shows "task_id (enter_task esp ebp eip final t m) u = task_id m u" and "task_next (enter_task esp ebp eip final t m) u = task_next m u"
    and "context_of (enter_task esp ebp eip final t m) u = context_of m u"
proof -
  have "enter_task esp ebp eip final t m x = m x" if "in_range u 24 x" for x
    using that assms task_field_in [of final 20 x] by (intro enter_task_outside) (auto dest: disjoint_rangesD)
  note f = task_field_frame [of u "enter_task esp ebp eip final t m" m, OF this]
  show "task_id (enter_task esp ebp eip final t m) u = task_id m u" "task_next (enter_task esp ebp eip final t m) u = task_next m u"
    "context_of (enter_task esp ebp eip final t m) u = context_of m u"
    using f by (simp_all add: context_of_def)
qed

lemma task_queue_append:
  fixes s s' :: "'a kernel_state_scheme"
  assumes q: "task_queue s ts" and t: "t \<noteq> nullptr" "\<And>u. u \<in> set ts \<Longrightarrow> disjoint_ranges t 24 u 24"
    and m: "\<And>x. in_task ts x \<Longrightarrow> m x = mem s x" and nt: "task_next m t = nullptr"
    and s': "mem s' = enter_task esp ebp eip (last ts) t m" "ready_queue s' = ready_queue s"
  shows "task_queue s' (ts @ [t])" and "u \<in> set ts \<Longrightarrow> context_of (mem s') u = context_of (mem s) u \<and> task_id (mem s') u = task_id (mem s) u"
    and "context_of (mem s') t = (context_of m t)\<lparr>ctx_esp := esp, ctx_ebp := ebp, ctx_eip := eip\<rparr>" and "task_id (mem s') t = task_id m t"
proof -
  note d = task_queueD [OF q]
  have fin: "last ts \<in> set ts" "last ts = ts ! (length ts - 1)" using d(1) by (simp_all add: last_conv_nth)
  have same: "task_next m u = task_next (mem s) u" "task_id m u = task_id (mem s) u" "context_of m u = context_of (mem s) u" if "u \<in> set ts" for u
    using m that task_field_frame [of u m "mem s"] by (auto simp: in_task_def context_of_def)
  note new = enter_task_new [OF t(2) [OF fin(1)]] and lst = enter_task_last [OF t(2) [OF fin(1)]]
  have other: "task_next (mem s') (ts ! i) = task_next m (ts ! i)" "context_of (mem s') (ts ! i) = context_of m (ts ! i)"
    "task_id (mem s') (ts ! i) = task_id m (ts ! i)" if "Suc i < length ts" for i
    using that d(5) [of "length ts - 1" i] t(2) [of "ts ! i"] enter_task_other [of t "ts ! i" "last ts"] by (simp_all add: s'(1) fin(2))
  show u: "u \<in> set ts \<Longrightarrow> context_of (mem s') u = context_of (mem s) u \<and> task_id (mem s') u = task_id (mem s) u" for u
  proof -
    assume "u \<in> set ts"
    then obtain i where i: "i < length ts" "u = ts ! i" by (auto simp: in_set_conv_nth)
    show ?thesis
    proof (cases "Suc i < length ts")
      case False
      then have "u = last ts" using i fin(2) by (metis Suc_lessI diff_Suc_1)
      then show ?thesis using lst same [OF \<open>u \<in> set ts\<close>] by (simp add: s'(1))
    qed (use other same [OF \<open>u \<in> set ts\<close>] i in simp)
  qed
  show "context_of (mem s') t = (context_of m t)\<lparr>ctx_esp := esp, ctx_ebp := ebp, ctx_eip := eip\<rparr>" "task_id (mem s') t = task_id m t"
    using new by (simp_all add: s'(1))
  show "task_queue s' (ts @ [t])"
    unfolding task_queue_def
  proof (intro conjI allI impI)
    show "ready_queue s' = (ts @ [t]) ! 0" using d(1,2) s'(2) by (simp add: nth_append)
    fix i
    assume i: "i < length (ts @ [t])"
    show "(ts @ [t]) ! i \<noteq> nullptr" using i t(1) d(3) by (cases "i < length ts") (auto simp: nth_append less_Suc_eq)
    show "task_next (mem s') ((ts @ [t]) ! i) = (if Suc i < length (ts @ [t]) then (ts @ [t]) ! Suc i else nullptr)"
    proof (cases "Suc i < length ts")
      case True
      then show ?thesis using other(1) [OF True] same(1) [of "ts ! i"] d(4) [of i] by (simp add: nth_append)
    next
      case False
      then have "i = length ts - 1 \<and> i < length ts \<or> i = length ts" using i by auto
      then show ?thesis using lst(2) new(2) nt d(1) fin(2) by (auto simp: nth_append s'(1))
    qed
    fix j
    assume "j < length (ts @ [t])" "i \<noteq> j"
    then show "disjoint_ranges ((ts @ [t]) ! i) 24 ((ts @ [t]) ! j) 24"
      using i t(2) d(5) [of i j] nth_mem [of i ts] nth_mem [of j ts]
      by (auto simp: nth_append less_Suc_eq disjoint_ranges_commute [of _ _ t])
  qed simp
qed

end
