(* ===== verification/Boot.thy ===== *)
theory Boot
  imports KernelProps CloneDir Tasks
begin

text \<open>
  The second half of \<^verbatim>\<open>_start\<close>: paging, the first task, the first \<^verbatim>\<open>fork\<close> and the message about it.
\<close>

section \<open>The state between the steps\<close>

text \<open>
  The console works with \<open>N\<close> bytes of heap to spare, the heap is where the kernel put it, and the
  literals and stack frames lie below it.
\<close>

definition console_fields :: "'a kernel_state_scheme \<Rightarrow> _" where
  "console_fields s = (literal s, device s, stack_slot s, format_frame s, extract_frame s, system_frame s,
     io_trace s, interruption_handlers s 48)"

definition below_heap :: "'a kernel_state_scheme \<Rightarrow> string set \<Rightarrow> bool" where
  "below_heap s L \<longleftrightarrow>
     (\<forall>x. in_range (format_frame s + 8) 12 x \<or> call_bytes s 5 x \<or> in_range (stack_slot s) 2 x \<longrightarrow> unat x < 0x50000) \<and>
     (\<forall>l \<in> L \<union> set format_literals. \<forall>i \<le> length l. unat (literal s l + of_nat i) < 0x50000)"

lemma below_heap_cong: "boot_fields s' = boot_fields s \<Longrightarrow> below_heap s' L \<longleftrightarrow> below_heap s L"
  by (simp add: boot_fields_def below_heap_def call_bytes_def)

definition running :: "'a kernel_state_scheme \<Rightarrow> blocks \<Rightarrow> nat \<Rightarrow> string set \<Rightarrow> cell list \<times> nat \<Rightarrow> bool" where
  "running s bs N L v \<longleftrightarrow> ready s bs 2 N L v \<and> heap_area s = (0x50000, 0x5000c, 0xd0000) \<and> below_heap s L"

lemma runningD:
  assumes "running s bs N L v"
  shows "ready s bs 2 N L v" and "heap_area s = (0x50000, 0x5000c, 0xd0000)" and "below_heap s L" and "heap_ok s bs"
    and "reserve s bs N" and "unat (heap_end s) = 0xd0000" and "unat (header s) = 0x50000"
  using assms console_okD(1) by (auto simp: running_def ready_def heap_area_def)

lemma video_range: "n \<le> 5000 \<Longrightarrow> in_range VIDEO_MEMORY n x \<longleftrightarrow> 0xb8000 \<le> unat x \<and> unat x < 0xb8000 + n"
  by (simp add: in_range_linear VIDEO_MEMORY_def)

lemma held_outside:
  assumes "heap_area s = (0x50000, 0x5000c, 0xd0000)"
  shows "held_byte s bs x \<longleftrightarrow> in_payload bs x \<or> unat x < 0x50000 \<or> 0xb8000 \<le> unat x"
  using assms by (auto simp: held_byte_def usable_end_def heap_area_def VIDEO_MEMORY_def)

lemma running_transfer:
  fixes s s' :: "'a kernel_state_scheme"
  assumes run: "running s bs N L v" and heap: "heap_ok s' bs'" "reserve s' bs' N'" "heap_area s' = heap_area s"
    and same: "console_fields s' = console_fields s"
    and bytes: "\<And>x. unat x < 0x50000 \<or> in_range VIDEO_MEMORY 4000 x \<Longrightarrow> mem s' x = mem s x"
  shows "running s' bs' N' L v"
proof -
  have f: "literal s' = literal s" "device s' = device s" "stack_slot s' = stack_slot s" "format_frame s' = format_frame s"
    "extract_frame s' = extract_frame s" "system_frame s' = system_frame s" "io_trace s' = io_trace s"
    "interruption_handlers s' 48 = interruption_handlers s 48"
    using same by (simp_all add: console_fields_def)
  note r = runningD [OF run]
  have area: "heap_area s' = (0x50000, 0x5000c, 0xd0000)" using heap(3) r(2) by simp
  have held: "held_byte s' bs' x" if "unat x < 0x50000 \<or> 0xb8000 \<le> unat x" for x using that held_outside [OF area] by blast
  have g: "call_bytes s' n x \<longleftrightarrow> call_bytes s n x" "screen_bytes s' x \<longleftrightarrow> screen_bytes s x"
    "console_bytes s' k x \<longleftrightarrow> console_bytes s k x" for n k x
    by (simp_all add: call_bytes_def screen_bytes_def console_bytes_def f)
  have low: "below_heap s' L" using r(3) by (simp add: below_heap_def f g)
  have strs: "text_at s' bs' 2 (literal s l) (chars l)" if "text_at s bs 2 (literal s l) (chars l)" "l \<in> L \<union> set format_literals" for l
  proof -
    have len: "length (chars l) = length l" by (simp add: chars_def)
    have "unat (literal s l + of_nat i) < 0x50000" if "i \<le> length l" for i
      using r(3) that \<open>l \<in> L \<union> set format_literals\<close> unfolding below_heap_def by blast
    then show ?thesis
      using that(1) bytes held cstring_cong [of "chars l" "mem s'" "literal s l" "mem s"]
      by (simp add: text_at_def held_string_def len g)
  qed
  have "console_bytes s 2 x \<Longrightarrow> unat x < 0x50000 \<or> 0xb8000 \<le> unat x" for x
    using r(3) video_range [of 4006 x] by (auto simp: console_bytes_def screen_bytes_def below_heap_def)
  moreover have "ready s bs 2 N L v" by (rule r(1))
  ultimately have "console_ok s' bs' 2"
    using heap(1) held strs unfolding ready_def console_ok_def g f by (auto simp: slot_ok_def f)
  moreover have "cells_of (mem s') = cells_of (mem s)" using bytes by (intro cells_of_cong) blast
  then have "displays s' v" using r(1) by (simp add: ready_def displays_def cursor_is_def f)
  ultimately show ?thesis
    using r(1) heap(2) strs area low unfolding running_def ready_def f by blast
qed

section \<open>Paging\<close>

definition task_part :: "'a kernel_state_scheme \<Rightarrow> _" where
  "task_part s = (current_task s, ready_queue s, next_pid s, cpu_esp s, cpu_ebp s, switch_eip s, fork_eip s)"

lemma more_fields:
  fixes s s' :: "'a kernel_state_scheme"
  assumes "int_state.more s' = int_state.more s"
  shows "kernel_directory s' = kernel_directory s" and "current_directory s' = current_directory s" and "paging_pool s' = paging_pool s"
    and "user_space_pool s' = user_space_pool s" and "current_task s' = current_task s" and "ready_queue s' = ready_queue s"
    and "next_pid s' = next_pid s" and "cpu_esp s' = cpu_esp s" and "cpu_ebp s' = cpu_ebp s" and "cr3 s' = cr3 s"
    and "paging_enabled s' = paging_enabled s" and "switch_eip s' = switch_eip s" and "fork_eip s' = fork_eip s"
  using assms by (cases s; cases s'; simp)+

lemma pools_at_view:
  fixes s s' :: "'a kernel_state_scheme"
  assumes "pools_at s bs" and "mem s' = mem s" and "header s' = header s"
    and "paging_pool s' = paging_pool s" and "user_space_pool s' = user_space_pool s"
  shows "pools_at s' bs"
  using assms heap_view(1,5) [OF assms(2,3)] by (simp add: pools_at_def heap_area_def)

lemma create_pools_running:
  fixes s :: "'a kernel_state_scheme"
  assumes run: "running s bs N L v" and N: "8152 \<le> N"
  obtains s1 bs' where "create_pools s = Inr ((), s1)" and "running s1 bs' (N - 8152) L v" and "pools_at s1 bs'"
    and "mset bs' = {#(paging_pool s1, 448), (user_space_pool s1, 7680)#} + mset bs"
    and "\<And>j. j < table_frames \<Longrightarrow> \<not> pool_bit (mem s1) (paging_pool s1) j"
    and "\<And>j. j < user_frames \<Longrightarrow> \<not> pool_bit (mem s1) (user_space_pool s1) j"
    and "\<And>x. in_pools s1 x \<Longrightarrow> \<not> held_byte s bs x" and "\<And>x. held_byte s bs x \<Longrightarrow> mem s1 x = mem s x"
    and "task_part s1 = task_part s" and "interruption_handlers s1 = interruption_handlers s"
proof -
  note r = runningD [OF run]
  have e: "unat (heap_end s) \<le> 0x100000" using r(6) by simp
  obtain p q m bs' where c: "create_pools s = Inr ((), s\<lparr>paging_pool := p, user_space_pool := q, mem := m\<rparr>)"
    "grown s bs {#(p, 448), (q, 7680)#} (s\<lparr>mem := m\<rparr>) bs'" "reserve (s\<lparr>mem := m\<rparr>) bs' (N - 8152)"
    "\<And>j. j < 3584 \<Longrightarrow> \<not> pool_bit m p j" "\<And>j. j < 61440 \<Longrightarrow> \<not> pool_bit m q j"
    by (rule create_pools_made [OF r(4,5) N e]) blast
  define s1 where "s1 = s\<lparr>paging_pool := p, user_space_pool := q, mem := m\<rparr>"
  have v: "mem s1 = mem (s\<lparr>mem := m\<rparr>)" "header s1 = header (s\<lparr>mem := m\<rparr>)" by (simp_all add: s1_def)
  note g = grownD [OF c(2)] and hv = heap_view [OF v]
  have fields: "console_fields s1 = console_fields s" by (simp add: s1_def console_fields_def)
  have area: "heap_area s1 = heap_area s" using hv(5) g(7) by simp
  have keep: "mem s1 x = mem s x" if "held_byte s bs x" for x using g(4) [OF that] v(1) by simp
  have bytes: "mem s1 x = mem s x" if "unat x < 0x50000 \<or> in_range VIDEO_MEMORY 4000 x" for x
    using that keep held_outside [OF r(2), of bs x] video_range [of 4000 x] by auto
  have run1: "running s1 bs' (N - 8152) L v"
    by (rule running_transfer [OF run _ _ area fields bytes]) (use g(1) c(3) hv in simp_all)
  have mset: "mset bs' = {#(p, 448), (q, 7680)#} + mset bs" by (rule g(2))
  then have "(p, 448) \<in> set bs'" "(q, 7680) \<in> set bs'" by (metis add_mset_add_single set_mset_mset union_iff union_single_eq_member insert_iff set_mset_add_mset_insert)+
  then have pools: "pools_at s1 bs'"
    using run1 g(1) hv(1) e area by (simp add: pools_at_def heap_area_def s1_def)
  show thesis
  proof (rule that [OF c(1) [folded s1_def] run1 pools _ _ _ _ keep])
    show "\<not> held_byte s bs x" if "in_pools s1 x" for x
      by (rule g(5)) (use that in \<open>auto simp: in_blocks_def s1_def\<close>)
  qed (use c(4,5) mset in \<open>simp_all add: s1_def task_part_def\<close>)
qed

lemma build_kernel_map_running:
  fixes s :: "'a kernel_state_scheme"
  assumes run: "running s bs N L v" and pools: "pools_at s bs" and high: "\<And>x. in_pools s x \<Longrightarrow> 0x50000 \<le> unat x \<and> unat x < 0xb8000"
    and free: "\<And>j. j < table_frames \<Longrightarrow> \<not> pool_bit (mem s) (paging_pool s) j"
  obtains s2 and g :: "'a kernel_state_scheme" where "build_kernel_map s = Inr ((), s2)" and "running s2 bs N L v"
    and "pools_at s2 bs" and "kernel_mapped g (mem s2)" and "kernel_directory s2 = table_frame 0"
    and "paging_pool s2 = paging_pool s" and "user_space_pool s2 = user_space_pool s"
    and "\<And>j. j < table_frames \<Longrightarrow> pool_bit (mem s2) (paging_pool s) j \<longleftrightarrow> j < 5"
    and "\<And>x. unat x < 0x100000 \<Longrightarrow> \<not> in_range (paging_pool s) 448 x \<Longrightarrow> mem s2 x = mem s x"
    and "task_part s2 = task_part s" and "interruption_handlers s2 = interruption_handlers s"
proof -
  note f = pools_at_facts [OF pools]
  obtain g s2 where b: "build_kernel_map s = Inr ((), s2)" "map_inv g 4 4096 s2" "\<exists>m. s2 = s\<lparr>mem := m, kernel_directory := table_frame 0\<rparr>"
    "\<And>x. \<not> in_range 0x100000 0x5000 x \<Longrightarrow> \<not> in_range (paging_pool s) 448 x \<Longrightarrow> mem s2 x = mem s x"
    by (rule build_kernel_map_inv [OF f(5) free]) blast+
  from b(3) obtain m where m: "s2 = s\<lparr>mem := m, kernel_directory := table_frame 0\<rparr>" by blast
  have low: "m x = mem s x" if "unat x < 0x100000" "\<not> in_range (paging_pool s) 448 x" for x
    using b(4) [OF _ that(2)] that(1) by (simp add: in_range_linear m)
  have "m x = mem s x" if "\<not> in_pools s x" "unat x < 0x100000" for x using that low by blast
  note w = pools_at_write [OF pools, of m, OF this]
  have pools2: "pools_at s2 bs" by (rule pools_at_view [OF w(1)]) (simp_all add: m)
  have area: "heap_area s2 = heap_area s" using w(2) by (simp add: m heap_area_def heap_start_def heap_end_def)
  have run2: "running s2 bs N L v"
  proof (rule running_transfer [OF run _ _ area])
    show "heap_ok s2 bs" using pools2 by (simp add: pools_at_def)
    show "reserve s2 bs N" using runningD(5) [OF run] low_heap.budget_area [OF area] by blast
    show "mem s2 x = mem s x" if "unat x < 0x50000 \<or> in_range VIDEO_MEMORY 4000 x" for x
    proof -
      have "unat x < 0x100000" "\<not> in_range (paging_pool s) 448 x" using that high [of x] video_range [of 4000 x] by auto
      then show ?thesis using low by (simp add: m)
    qed
  qed (simp add: m console_fields_def)
  have "paging_pool s2 = paging_pool g" using map_invD(1) [OF b(2)] by auto
  then have pp: "paging_pool g = paging_pool s" by (simp add: m)
  show thesis
  proof (rule that [OF b(1) run2 pools2 map_inv_mapped [OF b(2)]])
    show "pool_bit (mem s2) (paging_pool s) j \<longleftrightarrow> j < 5" if "j < table_frames" for j
      using map_invD(3) [OF b(2) that] by (auto simp: pp)
  qed (use low in \<open>simp_all add: m task_part_def\<close>)
qed

text \<open>A print changes nothing the paging code reads.\<close>

lemma printed_pools:
  fixes s s' :: "'a kernel_state_scheme"
  assumes pools: "pools_at s bs" and low: "below_heap s L" and high: "\<And>x. in_pools s x \<Longrightarrow> 0x50000 \<le> unat x \<and> unat x < 0xb8000"
    and heap: "heap_ok s' bs" "heap_area s' = heap_area s"
    and out: "\<And>x. held_byte s bs x \<Longrightarrow> \<not> console_bytes s 2 x \<Longrightarrow> mem s' x = mem s x"
    and same: "paging_pool s' = paging_pool s" "user_space_pool s' = user_space_pool s"
  shows "pools_at s' bs" and "kernel_mapped g (mem s) \<Longrightarrow> kernel_mapped g (mem s')"
    and "j < table_frames \<Longrightarrow> pool_bit (mem s') (paging_pool s) j \<longleftrightarrow> pool_bit (mem s) (paging_pool s) j"
    and "j < user_frames \<Longrightarrow> pool_bit (mem s') (user_space_pool s) j \<longleftrightarrow> pool_bit (mem s) (user_space_pool s) j"
proof -
  note f = pools_at_facts [OF pools]
  show "pools_at s' bs" using pools heap same by (simp add: pools_at_def heap_area_def)
  have c: "console_bytes s 2 x \<Longrightarrow> unat x < 0x50000 \<or> 0xb8000 \<le> unat x \<and> unat x < 0x100000" for x
    using low video_range [of 4006 x] by (auto simp: console_bytes_def screen_bytes_def below_heap_def)
  have "mem s' x = mem s x" if "0x100000 \<le> unat x" for x using out [OF f(2) [OF that]] c [of x] that by auto
  then show "kernel_mapped g (mem s')" if "kernel_mapped g (mem s)" by (intro kernel_mapped_frame [OF that]) simp
  have p: "mem s' x = mem s x" if "in_pools s x" for x using out [OF f(3) [OF that]] c [of x] high [OF that] by auto
  show "pool_bit (mem s') (paging_pool s) j \<longleftrightarrow> pool_bit (mem s) (paging_pool s) j" if "j < table_frames"
    by (rule pool_bit_cong(1) [OF that]) (use p in blast)
  show "pool_bit (mem s') (user_space_pool s) j \<longleftrightarrow> pool_bit (mem s) (user_space_pool s) j" if "j < user_frames"
    by (rule pool_bit_cong(2) [OF that]) (use p in blast)
qed

lemma vector_14: "number_chars DECIMAL 14 = chars ''14''" "8 \<notin> set (chars ''14'')"
  by (simp_all add: number_chars_def magnitude_chars_def numeral_chars_def base_def two_digits chars_def of_char_def)

lemma initialise_paging_running:
  fixes s :: "'a kernel_state_scheme"
  assumes run: "running s bs N L v" and N: "50000 \<le> N" and L: "handler_message \<in> L"
  obtains s' bs' and g :: "'a kernel_state_scheme" where "initialise_paging s = Inr ((), s')"
    and "running s' bs' (N - 8152) L (spec_show HIGH_BLUE BLACK (handler_text ''14'') v)" and "clone_ready g 5 0 s' bs'"
    and "mset bs' = {#(paging_pool s', 448), (user_space_pool s', 7680)#} + mset bs"
    and "kernel_directory s' = table_frame 0" and "current_directory s' = table_frame 0" and "cr3 s' = table_frame 0"
    and "task_part s' = task_part s" and "interruption_handlers s' = (interruption_handlers s)(14 \<mapsto> Page_fault)"
proof -
  obtain s1 bs' where s1: "create_pools s = Inr ((), s1)" "running s1 bs' (N - 8152) L v" "pools_at s1 bs'"
      "mset bs' = {#(paging_pool s1, 448), (user_space_pool s1, 7680)#} + mset bs"
    and free: "\<And>j. j < table_frames \<Longrightarrow> \<not> pool_bit (mem s1) (paging_pool s1) j"
      "\<And>j. j < user_frames \<Longrightarrow> \<not> pool_bit (mem s1) (user_space_pool s1) j"
    and pools: "\<And>x. in_pools s1 x \<Longrightarrow> \<not> held_byte s bs x" and same1: "task_part s1 = task_part s" "interruption_handlers s1 = interruption_handlers s"
    by (rule create_pools_running [OF run]) (use N in auto)
  have high: "0x50000 \<le> unat x \<and> unat x < 0xb8000" if "in_pools s1 x" for x
    using pools [OF that] held_outside [OF runningD(2) [OF run], of bs x] by auto
  obtain s2 and g :: "'a kernel_state_scheme" where s2: "build_kernel_map s1 = Inr ((), s2)" "running s2 bs' (N - 8152) L v" "pools_at s2 bs'"
      "kernel_mapped g (mem s2)" "kernel_directory s2 = table_frame 0"
    and pool: "paging_pool s2 = paging_pool s1" "user_space_pool s2 = user_space_pool s1"
    and bits2: "\<And>j. j < table_frames \<Longrightarrow> pool_bit (mem s2) (paging_pool s1) j \<longleftrightarrow> j < 5"
    and low2: "\<And>x. unat x < 0x100000 \<Longrightarrow> \<not> in_range (paging_pool s1) 448 x \<Longrightarrow> mem s2 x = mem s1 x"
    and same2: "task_part s2 = task_part s1" "interruption_handlers s2 = interruption_handlers s1"
    by (rule build_kernel_map_running [OF s1(2,3) high free(1)]) blast+
  note f1 = pools_at_facts [OF s1(3)] and r2 = runningD [OF s2(2)]
  have user2: "\<not> pool_bit (mem s2) (user_space_pool s1) j" if "j < user_frames" for j
  proof -
    have "mem s2 x = mem s1 x" if "in_range (user_space_pool s1) 7680 x" for x
      using that f1(4,7) unfolding disjoint_ranges_def by (intro low2) blast+
    then show ?thesis using free(2) [OF that] pool_bit_cong(2) [OF that] by blast
  qed
  have r3: "ready (put_handler 14 Page_fault s2) bs' 2 (N - 8152) L v" by (rule ready_put_handler [OF r2(1)]) simp
  have N3: "40000 \<le> N - 8152" using N by simp
  obtain s3 where s3: "set_interrupt_handler 14 Page_fault s2 = Inr ((), s3)"
    "ready s3 bs' 2 (N - 8152) L (spec_show HIGH_BLUE BLACK (handler_text ''14'') v)" "output_only (put_handler 14 Page_fault s2) s3"
    "heap_area s3 = heap_area s2" "\<And>x. held_byte s2 bs' x \<Longrightarrow> \<not> console_bytes s2 2 x \<Longrightarrow> mem s3 x = mem s2 x"
    by (rule register_line [OF r3 L N3, where num = "''14''"]) (simp_all add: vector_14)
  have h3: "heap_ok s3 bs'" using s3(2) console_okD(1) by (auto simp: ready_def)
  have more: "int_state.more s3 = int_state.more s2" using output_only_more [OF s3(3)] put_handler_view(5) by metis
  have m3: "kernel_directory s3 = kernel_directory s2" "paging_pool s3 = paging_pool s2" "user_space_pool s3 = user_space_pool s2"
    "task_part s3 = task_part s2" using more_fields [OF more] by (simp_all add: task_part_def)
  have high2: "in_pools s2 x \<Longrightarrow> 0x50000 \<le> unat x \<and> unat x < 0xb8000" for x using high pool by simp
  have pp: "pools_at s3 bs'" "kernel_mapped g (mem s3)"
    "\<And>j. j < table_frames \<Longrightarrow> pool_bit (mem s3) (paging_pool s2) j \<longleftrightarrow> pool_bit (mem s2) (paging_pool s2) j"
    "\<And>j. j < user_frames \<Longrightarrow> pool_bit (mem s3) (user_space_pool s2) j \<longleftrightarrow> pool_bit (mem s2) (user_space_pool s2) j"
    by (rule printed_pools [OF s2(3) r2(3) high2 h3 s3(4,5) m3(2,3)]; (assumption | rule s2(4)))+
  define s' where "s' = enable_paging s3"
  have v: "mem s' = mem s3" "header s' = header s3" by (simp_all add: s'_def enable_paging_def)
  have fields: "console_fields s' = console_fields s3" by (simp add: s'_def enable_paging_def console_fields_def)
  note b = output_only_boot [OF s3(3)]
  have "below_heap s3 L" using r2(3) below_heap_cong [OF b(1) [unfolded put_handler_boot]] by blast
  then have run3: "running s3 bs' (N - 8152) L (spec_show HIGH_BLUE BLACK (handler_text ''14'') v)"
    using s3(2,4) r2(2) by (simp add: running_def)
  show thesis
  proof (rule that [of s' bs' g])
    show "initialise_paging s = Inr ((), s')" using s1(1) s2(1) s3(1) by (simp add: initialise_paging_def s'_def)
    show "running s' bs' (N - 8152) L (spec_show HIGH_BLUE BLACK (handler_text ''14'') v)"
      by (rule running_transfer [OF run3 _ _ _ fields]) (use v heap_view [OF v] runningD [OF run3] in simp_all)
    have "pools_at s' bs'" by (rule pools_at_view [OF pp(1) v]) (simp_all add: s'_def enable_paging_def)
    moreover have "0x50000 \<le> unat (paging_pool s1)" "0x50000 \<le> unat (user_space_pool s1)"
      using high [of "paging_pool s1"] high [of "user_space_pool s1"] by (simp_all add: in_range_def)
    ultimately show "clone_ready g 5 0 s' bs'"
      using pp(2-4) bits2 user2 m3 pool by (simp add: clone_ready_def v) (simp add: s'_def enable_paging_def)
  qed (use s1(4) s2(5) m3 pool same1 same2 b(2) in \<open>simp_all add: s'_def enable_paging_def task_part_def put_handler_def\<close>)
qed

section \<open>The first task\<close>

lemma clone_ready_transfer:
  fixes s s' :: "'a kernel_state_scheme"
  assumes ready: "clone_ready g t b s bs" and heap: "heap_ok s' bs'" "heap_area s' = heap_area s" "set bs \<subseteq> set bs'"
    and same: "paging_pool s' = paging_pool s" "user_space_pool s' = user_space_pool s" "paging_enabled s' = paging_enabled s"
    and bytes: "\<And>x. held_byte s bs x \<Longrightarrow> mem s' x = mem s x"
  shows "clone_ready g t b s' bs'"
proof -
  note r = ready [unfolded clone_ready_def]
  note f = pools_at_facts [OF conjunct1 [OF r]]
  have "pools_at s' bs'" 
    using conjunct1 [OF r] heap same unfolding pools_at_def heap_area_def by auto
  moreover have "kernel_mapped g (mem s')" 
    by (rule kernel_mapped_frame [of g "mem s"]) (use r bytes f(2) in blast)+
  moreover have "pool_bit (mem s') (paging_pool s) j \<longleftrightarrow> pool_bit (mem s) (paging_pool s) j" if "j < table_frames" for j
    using pool_bit_cong(1) [OF that] bytes f(3) by blast
  moreover have "pool_bit (mem s') (user_space_pool s) j \<longleftrightarrow> pool_bit (mem s) (user_space_pool s) j" if "j < user_frames" for j
    using pool_bit_cong(2) [OF that] bytes f(3) by blast
  ultimately show ?thesis using r same unfolding clone_ready_def by simp
qed

text \<open>A new task structure on the heap.\<close>

lemma fresh_task:
  fixes s :: "'a kernel_state_scheme"
  assumes run: "running s bs N L v" and N: "36 \<le> N"
  obtains t m1 bs' where "ralloc task_size s = Inr (t, s\<lparr>mem := m1\<rparr>)" and "t \<noteq> nullptr" and "mset bs' = add_mset (t, 24) (mset bs)"
    and "\<And>x. in_range t 24 x \<Longrightarrow> \<not> held_byte s bs x" and "\<And>x. held_byte s bs x \<Longrightarrow> m1 x = mem s x"
    and "\<And>s' :: 'a kernel_state_scheme. header s' = header s \<Longrightarrow> (\<And>x. \<not> in_range t 24 x \<Longrightarrow> mem s' x = m1 x) \<Longrightarrow> console_fields s' = console_fields s \<Longrightarrow>
      running s' bs' (N - 36) L v \<and> heap_area s' = heap_area s"
proof -
  note r = runningD [OF run]
  have "unat (24 :: u_dword) + 12 \<le> N" using N by simp
  from made_alloc [OF r(4,5) this] obtain t s1 bs' where a: "ralloc 24 s = Inr (t, s1)" "made s bs t 24 s1 bs'" "reserve s1 bs' (N - 36)"
    by auto
  note d = madeD [OF a(2)]
  from d(5) obtain m1 where m1: "s1 = s\<lparr>mem := m1\<rparr>" by blast
  show thesis
  proof (rule that [of t m1 bs'])
    fix s' :: "'a kernel_state_scheme"
    assume s': "header s' = header s" "\<And>x. \<not> in_range t 24 x \<Longrightarrow> mem s' x = m1 x" "console_fields s' = console_fields s"
    have "made s bs t 24 (s1\<lparr>mem := mem s'\<rparr>) bs'" and N': "reserve (s1\<lparr>mem := mem s'\<rparr>) bs' (N - 36)"
      using made_write [OF a(2), of "mem s'"] a(3) s'(2) by (simp_all add: m1)
    note w = madeD [OF this(1)]
    have v: "mem s' = mem (s1\<lparr>mem := mem s'\<rparr>)" "header s' = header (s1\<lparr>mem := mem s'\<rparr>)" using s'(1) by (simp_all add: m1)
    note hv = heap_view [OF v]
    have area: "heap_area s' = heap_area s" using hv(5) w(10) by simp
    have "mem s' x = mem s x" if "unat x < 0x50000 \<or> in_range VIDEO_MEMORY 4000 x" for x
      using w(6) [of x] that held_outside [OF r(2), of bs x] video_range [of 4000 x] by auto
    then show "running s' bs' (N - 36) L v \<and> heap_area s' = heap_area s"
      using running_transfer [OF run _ _ area s'(3)] w(1) N' hv area by simp
  qed (use a(1) d m1 in auto)
qed

lemma initialise_tasking_running:
  fixes s :: "'a kernel_state_scheme"
  assumes run: "running s bs N L v" and N: "36 \<le> N" and ready: "clone_ready g k b s bs"
  obtains s' bs' t where "initialise_tasking s = Inr ((), s')" and "running s' bs' (N - 36) L v" and "clone_ready g k b s' bs'"
    and "mset bs' = add_mset (t, 24) (mset bs)" and "task_queue s' [t]" and "current_task s' = t"
    and "task_id (mem s') t = next_pid s" and "context_of (mem s') t = \<lparr>ctx_esp = 0, ctx_ebp = 0, ctx_eip = 0, ctx_dir = current_directory s\<rparr>"
    and "next_pid s' = next_pid s + 1" and "int_flag s'" and "current_directory s' = current_directory s" and "cr3 s' = cr3 s"
    and "cpu_esp s' = cpu_esp s" and "cpu_ebp s' = cpu_ebp s" and "switch_eip s' = switch_eip s" and "fork_eip s' = fork_eip s"
    and "interruption_handlers s' = interruption_handlers s"
proof -
  have run0: "running (s\<lparr>int_flag := False\<rparr>) bs N L v"
    by (rule running_transfer [OF run]) (use runningD [OF run] heap_view [of "s\<lparr>int_flag := False\<rparr>" s] in \<open>simp_all add: console_fields_def\<close>)
  obtain t m1 bs' where a: "ralloc task_size (s\<lparr>int_flag := False\<rparr>) = Inr (t, s\<lparr>int_flag := False, mem := m1\<rparr>)" "t \<noteq> nullptr"
      "mset bs' = add_mset (t, 24) (mset bs)" "\<And>x. in_range t 24 x \<Longrightarrow> \<not> held_byte s bs x" "\<And>x. held_byte s bs x \<Longrightarrow> m1 x = mem s x"
    and w: "\<And>s' :: 'a kernel_state_scheme. header s' = header s \<Longrightarrow> (\<And>x. \<not> in_range t 24 x \<Longrightarrow> mem s' x = m1 x) \<Longrightarrow> console_fields s' = console_fields s \<Longrightarrow>
      running s' bs' (N - 36) L v \<and> heap_area s' = heap_area s"
    by (rule fresh_task [OF run0 N])
      (use heap_view(2,5) [of "s\<lparr>int_flag := False\<rparr>" s] in \<open>simp add: console_fields_def\<close>)
  define m where "m = task_write (next_pid s) (current_directory s) t m1"
  define s' where "s' = s\<lparr>int_flag := True, mem := m, current_task := t, ready_queue := t, next_pid := next_pid s + 1\<rparr>"
  have f: "mem s' = m" "header s' = header s" "console_fields s' = console_fields s" by (simp_all add: s'_def console_fields_def)
  have out: "mem s' x = m1 x" if "\<not> in_range t 24 x" for x using task_write_outside [OF that] by (simp add: f m_def)
  note run' = w [OF f(2) out f(3)]
  show thesis
  proof (rule that [of s' bs' t])
    show "initialise_tasking s = Inr ((), s')"
      using a(1) by (simp add: initialise_tasking_def Let_def fill_task_eq s'_def m_def)
    show "running s' bs' (N - 36) L v" using run' by blast
    show "clone_ready g k b s' bs'"
    proof (rule clone_ready_transfer [OF ready])
      show "heap_ok s' bs'" "heap_area s' = heap_area s" using run' runningD(4) by blast+
      show "set bs \<subseteq> set bs'" using a(3) by (metis set_mset_add_mset_insert set_mset_mset subset_insertI)
      show "mem s' x = mem s x" if "held_byte s bs x" for x using that a(4,5) [of x] out [of x] by auto
    qed (simp_all add: s'_def)
    show "task_queue s' [t]" using a(2) by (simp add: task_queue_def f m_def task_write_fields) (simp add: s'_def)
    show "task_id (mem s') t = next_pid s" "context_of (mem s') t = \<lparr>ctx_esp = 0, ctx_ebp = 0, ctx_eip = 0, ctx_dir = current_directory s\<rparr>"
      by (simp_all add: f m_def task_write_fields)
  qed (use a(3) in \<open>simp_all add: s'_def\<close>)
qed

section \<open>Forking\<close>

text \<open>The blocks of the kernel's heap lie between its start and the video memory, apart from each other.\<close>

lemma block_place:
  assumes run: "running s bs N L v" and "in_payload bs x"
  shows "0x50000 \<le> unat x" and "unat x < 0xb8000"
proof -
  note r = runningD [OF run] and ok = heap_okD [OF runningD(4) [OF run]]
  note lay = heap_invD(2) [OF ok(1)]
  from assms(2) obtain i where i: "i < length bs" "in_range (fst (bs ! i)) (unat (snd (bs ! i))) x"
    by (auto simp: in_payload_def in_set_conv_nth)
  have x: "unat (fst (bs ! i)) \<le> unat x" "unat x < unat (fst (bs ! i)) + unat (snd (bs ! i))"
    using payload_linear [OF lay i(1)] i(2) by auto
  have "heap_start s = 0x5000c" "usable_end s = 0xb8000" using r(2) by (simp_all add: heap_area_def usable_end_def VIDEO_MEMORY_def)
  then show "0x50000 \<le> unat x" "unat x < 0xb8000"
    using x ok(2) layout_bounds(1) [OF lay i(1)] block_below_last [OF lay i(1)] by auto
qed

lemma blocks_apart:
  assumes ok: "heap_ok s bs" and b: "(p, n) \<in> set bs" "(q, k) \<in> set bs" "(p, n) \<noteq> (q, k)"
  shows "disjoint_ranges p (unat n) q (unat k)"
proof -
  from b obtain i j where ij: "i < length bs" "bs ! i = (p, n)" "j < length bs" "bs ! j = (q, k)"
    by (auto simp: in_set_conv_nth)
  then have "i \<noteq> j" using b(3) by auto
  with ij show ?thesis using payloads_disjoint [OF heap_okD(1) [OF ok], of i j] by (auto simp: disjoint_ranges_def)
qed

lemma pool_place:
  assumes run: "running s bs N L v" and pools: "pools_at s bs" and "in_pools s x"
  shows "0x50000 \<le> unat x" and "unat x < 0xb8000"
proof -
  have "in_payload bs x" using pools assms(3) unfolding pools_at_def in_payload_def by force
  then show "0x50000 \<le> unat x" "unat x < 0xb8000" by (rule block_place [OF run])+
qed

text \<open>Cloning an address space leaves the console and the task structures alone.\<close>

lemma clone_running:
  fixes s :: "'a kernel_state_scheme"
  assumes run: "running s bs N L v" and ready: "clone_ready g k b s bs" and dir: "current_directory s = table_frame 0"
    and q: "task_queue s ts" and blocks: "\<And>u. u \<in> set ts \<Longrightarrow> (u, 24) \<in> set bs"
  obtains m where "clone_directory (current_directory s) s = Inr (table_frame k, s\<lparr>mem := m\<rparr>)" and "cloned g k b s 1024 m"
    and "running (s\<lparr>mem := m\<rparr>) bs N L v" and "pools_at (s\<lparr>mem := m\<rparr>) bs" and "\<And>x. in_task ts x \<Longrightarrow> m x = mem s x"
proof -
  have pools: "pools_at s bs" using ready by (simp add: clone_ready_def)
  obtain m where m: "clone_directory (table_frame 0) s = Inr (table_frame k, s\<lparr>mem := m\<rparr>)" "cloned g k b s 1024 m"
    "pools_at (s\<lparr>mem := m\<rparr>) bs" "heap_area (s\<lparr>mem := m\<rparr>) = heap_area s" by (rule clone_directory_kernel [OF ready])
  have keep: "m x = mem s x" if "unat x < 0x100000" "\<not> in_pools s x" for x
    using m(2) clone_keeps_low [OF that] unfolding cloned_def by blast
  show thesis
  proof (rule that [OF m(1) [folded dir] m(2) _ m(3)])
    show "running (s\<lparr>mem := m\<rparr>) bs N L v"
    proof (rule running_transfer [OF run _ _ m(4)])
      show "heap_ok (s\<lparr>mem := m\<rparr>) bs" using m(3) by (simp add: pools_at_def)
      show "reserve (s\<lparr>mem := m\<rparr>) bs N" using runningD(5) [OF run] low_heap.budget_area [OF m(4)] by blast
      show "mem (s\<lparr>mem := m\<rparr>) x = mem s x" if "unat x < 0x50000 \<or> in_range VIDEO_MEMORY 4000 x" for x
      proof -
        have "unat x < 0x100000" "\<not> in_pools s x" using that pool_place [OF run pools, of x] video_range [of 4000 x] by auto
        then show ?thesis using keep by simp
      qed
    qed (simp add: console_fields_def)
    show "m x = mem s x" if x: "in_task ts x" for x
    proof -
      from x obtain u where u: "u \<in> set ts" "in_range u 24 x" by (auto simp: in_task_def)
      have "in_payload bs x" using blocks [OF u(1)] u(2) by (force simp: in_payload_def)
      then have "unat x < 0x100000" using block_place [OF run, of x] by simp
      moreover have "disjoint_ranges u 24 (paging_pool s) 448" "disjoint_ranges u 24 (user_space_pool s) 7680"
        using pools blocks [OF u(1)] blocks_apart [of s bs u 24 "paging_pool s" 448] blocks_apart [of s bs u 24 "user_space_pool s" 7680]
        by (simp_all add: pools_at_def)
      then have "\<not> in_pools s x" using u(2) by (auto dest: disjoint_rangesD)
      ultimately show ?thesis by (rule keep)
    qed
  qed
qed

lemma running_write:
  fixes s s' :: "'a kernel_state_scheme"
  assumes run: "running s bs N L v" and out: "\<And>x. \<not> in_payload bs x \<Longrightarrow> mem s' x = mem s x"
    and same: "header s' = header s" "console_fields s' = console_fields s"
  shows "running s' bs N L v"
proof -
  note r = runningD [OF run]
  have "mem s' x = mem s x" if "\<not> held_byte s bs x" for x using that out by (auto simp: held_byte_def)
  note w = held_write [OF r(4), of "mem s'", OF this]
  have v: "mem s' = mem (s\<lparr>mem := mem s'\<rparr>)" "header s' = header (s\<lparr>mem := mem s'\<rparr>)" using same(1) by simp_all
  note hv = heap_view [OF v]
  have area: "heap_area s' = heap_area s" using hv(5) w(3,4) by (simp add: heap_area_def)
  have "mem s' x = mem s x" if "unat x < 0x50000 \<or> in_range VIDEO_MEMORY 4000 x" for x
    using that block_place [OF run, of x] video_range [of 4000 x] by (intro out) auto
  then show ?thesis using running_transfer [OF run _ _ area same(2)] w(1,5) hv r(5) by simp
qed

text \<open>
  \<^verbatim>\<open>fork\<close> by a task that runs in the kernel's address space: the memory it leaves, and the state around it.
\<close>

lemma fork_memory:
  fixes s :: "'a kernel_state_scheme"
  assumes run: "running s bs N L v" and N: "36 \<le> N" and ready: "clone_ready g k b s bs" and dir: "current_directory s = table_frame 0"
    and q: "task_queue s ts" and blocks: "\<And>u. u \<in> set ts \<Longrightarrow> (u, 24) \<in> set bs"
  obtains m bs' t where "fork s = Inr (next_pid s, s\<lparr>mem := m, next_pid := next_pid s + 1, int_flag := True\<rparr>)"
    and "running (s\<lparr>mem := m, next_pid := next_pid s + 1, int_flag := True\<rparr>) bs' (N - 36) L v"
    and "mset bs' = add_mset (t, 24) (mset bs)" and "t \<noteq> nullptr" and "\<And>u. u \<in> set ts \<Longrightarrow> disjoint_ranges t 24 u 24"
    and "\<exists>mc m2. cloned g k b s 1024 mc \<and> (\<forall>x. in_task ts x \<longrightarrow> m2 x = mem s x) \<and> task_next m2 t = nullptr \<and> task_id m2 t = next_pid s \<and>
      context_of m2 t = \<lparr>ctx_esp = 0, ctx_ebp = 0, ctx_eip = 0, ctx_dir = table_frame k\<rparr> \<and>
      m = enter_task (cpu_esp s) (cpu_ebp s) (fork_eip s) (last ts) t m2 \<and>
      (\<forall>x. in_pools s x \<or> 0x100000 \<le> unat x \<longrightarrow> m x = mc x)"
proof -
  define s0 where "s0 = s\<lparr>int_flag := False\<rparr>"
  have f0: "mem s0 = mem s" "header s0 = header s" "console_fields s0 = console_fields s" by (simp_all add: s0_def console_fields_def)
  have run0: "running s0 bs N L v" by (rule running_write [OF run]) (simp_all add: f0)
  have ready0: "clone_ready g k b s0 bs"
    by (rule clone_ready_transfer [OF ready runningD(4) [OF run0]]) (use heap_view(5) [OF f0(1,2)] in \<open>simp_all add: f0 s0_def\<close>)
  have q0: "task_queue s0 ts" using q by (simp add: task_queue_def f0) (simp add: s0_def)
  have dir0: "current_directory s0 = table_frame 0" using dir by (simp add: s0_def)
  obtain mc where mc: "clone_directory (current_directory s0) s0 = Inr (table_frame k, s0\<lparr>mem := mc\<rparr>)" "cloned g k b s0 1024 mc"
    "running (s0\<lparr>mem := mc\<rparr>) bs N L v" "pools_at (s0\<lparr>mem := mc\<rparr>) bs" "\<And>x. in_task ts x \<Longrightarrow> mc x = mem s0 x"
    by (rule clone_running [OF run0 ready0 dir0 q0 blocks]) blast+
  let ?sc = "s0\<lparr>mem := mc\<rparr>"
  obtain t m1 bs' where a: "ralloc task_size ?sc = Inr (t, ?sc\<lparr>mem := m1\<rparr>)" "t \<noteq> nullptr" "mset bs' = add_mset (t, 24) (mset bs)"
      "\<And>x. in_range t 24 x \<Longrightarrow> \<not> held_byte ?sc bs x" "\<And>x. held_byte ?sc bs x \<Longrightarrow> m1 x = mem ?sc x"
    and w: "\<And>s' :: 'a kernel_state_scheme. header s' = header ?sc \<Longrightarrow> (\<And>x. \<not> in_range t 24 x \<Longrightarrow> mem s' x = m1 x) \<Longrightarrow>
      console_fields s' = console_fields ?sc \<Longrightarrow> running s' bs' (N - 36) L v \<and> heap_area s' = heap_area ?sc"
    by (rule fresh_task [OF mc(3) N]) simp
  have pay: "in_payload bs x" if "in_task ts x" for x using that blocks by (force simp: in_task_def in_payload_def)
  have held: "held_byte ?sc bs x" if "in_task ts x \<or> in_pools s x \<or> 0x100000 \<le> unat x" for x
    using that pay [of x] pools_at_facts(2,3) [OF mc(4), of x] by (auto simp: held_byte_def s0_def)
  define m2 where "m2 = task_write (next_pid s) (table_frame k) t m1"
  have keep: "m2 x = mc x" if "in_task ts x \<or> in_pools s x \<or> 0x100000 \<le> unat x" for x
  proof -
    have "\<not> in_range t 24 x" using a(4) [of x] held [OF that] by blast
    then show ?thesis using a(5) [OF held [OF that]] task_write_outside by (simp add: m2_def)
  qed
  have tasks: "m2 x = mem s x" if "in_task ts x" for x using keep mc(5) that f0 by simp
  define s2 where "s2 = s0\<lparr>mem := m2, next_pid := next_pid s + 1\<rparr>"
  have f2: "mem s2 = m2" "header s2 = header ?sc" "console_fields s2 = console_fields ?sc" by (simp_all add: s2_def console_fields_def)
  have run2: "running s2 bs' (N - 36) L v"
    using w [OF f2(2) _ f2(3)] task_write_outside [of t _ "next_pid s" "table_frame k" m1] by (simp add: f2(1) m2_def)
  have q2: "task_queue s2 ts" by (rule task_queue_frame [OF q]) (simp_all add: f2 tasks, simp add: s2_def s0_def)
  define m where "m = enter_task (cpu_esp s) (cpu_ebp s) (fork_eip s) (last ts) t m2"
  define s' where "s' = s\<lparr>mem := m, next_pid := next_pid s + 1, int_flag := True\<rparr>"
  have lst: "last ts \<in> set ts" using task_queueD(1) [OF q] by simp
  have sub: "set bs' = insert (t, 24) (set bs)" using a(3) by (metis set_mset_add_mset_insert set_mset_mset)
  have out: "m x = m2 x" if "\<not> in_range t 24 x" "\<not> in_range (last ts) 24 x" for x
    unfolding m_def using that task_field_in [of "last ts" 20 x] by (intro enter_task_outside) auto
  have apart: "disjoint_ranges t 24 u 24" if "u \<in> set ts" for u
    unfolding disjoint_ranges_def using a(4) held that by (auto simp: in_task_def)
  show thesis
  proof (rule that [of m bs' t])
    have "task_id m t = next_pid s"
      unfolding m_def using enter_task_new(1) [OF apart [OF lst]] by (simp add: m2_def task_write_fields)
    then show "fork s = Inr (next_pid s, s\<lparr>mem := m, next_pid := next_pid s + 1, int_flag := True\<rparr>)"
      using mc(1) a(1) queue_end_queue [OF q2]
      by (simp add: fork_def Let_def fill_task_eq s0_def s2_def m2_def m_def enter_task_def) (simp add: fork_return_def Let_def)
    show "running (s\<lparr>mem := m, next_pid := next_pid s + 1, int_flag := True\<rparr>) bs' (N - 36) L v"
      unfolding s'_def [symmetric]
    proof (rule running_write [OF run2])
      show "mem s' x = mem s2 x" if "\<not> in_payload bs' x" for x
        using that blocks [OF lst] sub out [of x] by (force simp: in_payload_def f2(1) s'_def)
    qed (simp_all add: s'_def s2_def s0_def console_fields_def)
    have "m x = mc x" if x: "in_pools s x \<or> 0x100000 \<le> unat x" for x
    proof -
      have "\<not> in_range t 24 x" using a(4) [of x] held [of x] x by blast
      moreover have "\<not> in_range (last ts) 24 x"
      proof
        assume l: "in_range (last ts) 24 x"
        then have "unat x < 0xb8000" using block_place(2) [OF run, of x] blocks [OF lst] by (force simp: in_payload_def)
        then have "in_pools s x" using x by auto
        moreover have "(paging_pool s, 448) \<in> set bs" "(user_space_pool s, 7680) \<in> set bs" using ready by (simp_all add: clone_ready_def pools_at_def)
        ultimately show False
          using l blocks_apart [OF runningD(4) [OF run] blocks [OF lst], of "paging_pool s" 448]
            blocks_apart [OF runningD(4) [OF run] blocks [OF lst], of "user_space_pool s" 7680] by (auto dest: disjoint_rangesD)
      qed
      ultimately show ?thesis using out keep x by simp
    qed
    moreover have "cloned g k b s 1024 mc" using mc(2) by (simp add: cloned_def clone_tables_def clone_keeps_def f0) (simp add: s0_def)
    ultimately show "\<exists>mc m2. cloned g k b s 1024 mc \<and> (\<forall>x. in_task ts x \<longrightarrow> m2 x = mem s x) \<and> task_next m2 t = nullptr \<and> task_id m2 t = next_pid s \<and>
      context_of m2 t = \<lparr>ctx_esp = 0, ctx_ebp = 0, ctx_eip = 0, ctx_dir = table_frame k\<rparr> \<and>
      m = enter_task (cpu_esp s) (cpu_ebp s) (fork_eip s) (last ts) t m2 \<and>
      (\<forall>x. in_pools s x \<or> 0x100000 \<le> unat x \<longrightarrow> m x = mc x)"
      using tasks by (intro exI [of _ mc] exI [of _ m2]) (simp add: m_def m2_def task_write_fields)
  qed (use a(2,3) apart in auto)
qed

lemma fork_running:
  fixes s :: "'a kernel_state_scheme"
  assumes run: "running s bs N L v" and N: "36 \<le> N" and ready: "clone_ready g k b s bs" and dir: "current_directory s = table_frame 0"
    and q: "task_queue s ts" and blocks: "\<And>u. u \<in> set ts \<Longrightarrow> (u, 24) \<in> set bs"
  obtains s' bs' t where "fork s = Inr (next_pid s, s')" and "running s' bs' (N - 36) L v" and "mset bs' = add_mset (t, 24) (mset bs)"
    and "task_queue s' (ts @ [t])" and "task_id (mem s') t = next_pid s"
    and "context_of (mem s') t = \<lparr>ctx_esp = cpu_esp s, ctx_ebp = cpu_ebp s, ctx_eip = fork_eip s, ctx_dir = table_frame k\<rparr>"
    and "\<And>u. u \<in> set ts \<Longrightarrow> context_of (mem s') u = context_of (mem s) u \<and> task_id (mem s') u = task_id (mem s) u"
    and "clone_tables g k b s 1024 (mem s')" and "kernel_mapped g (mem s')"
    and "s' = s\<lparr>mem := mem s', next_pid := next_pid s + 1, int_flag := True\<rparr>"
    and "k + 4 \<le> table_frames \<Longrightarrow> b + 10 \<le> user_frames \<Longrightarrow> clone_ready g (k + 2) (b + 5) s' bs'"
proof -
  note r = ready [unfolded clone_ready_def]
  obtain m bs' t mc m2 where f: "fork s = Inr (next_pid s, s\<lparr>mem := m, next_pid := next_pid s + 1, int_flag := True\<rparr>)"
      "running (s\<lparr>mem := m, next_pid := next_pid s + 1, int_flag := True\<rparr>) bs' (N - 36) L v"
      "mset bs' = add_mset (t, 24) (mset bs)" "t \<noteq> nullptr" "\<And>u. u \<in> set ts \<Longrightarrow> disjoint_ranges t 24 u 24"
    and mc: "cloned g k b s 1024 mc" and m2: "\<And>x. in_task ts x \<Longrightarrow> m2 x = mem s x" "task_next m2 t = nullptr" "task_id m2 t = next_pid s"
      "context_of m2 t = \<lparr>ctx_esp = 0, ctx_ebp = 0, ctx_eip = 0, ctx_dir = table_frame k\<rparr>"
    and m: "m = enter_task (cpu_esp s) (cpu_ebp s) (fork_eip s) (last ts) t m2" "\<And>x. in_pools s x \<or> 0x100000 \<le> unat x \<Longrightarrow> m x = mc x"
    by (rule fork_memory [OF run N ready dir q blocks]) blast+
  define s' where "s' = s\<lparr>mem := m, next_pid := next_pid s + 1, int_flag := True\<rparr>"
  have f': "mem s' = m" "ready_queue s' = ready_queue s" by (simp_all add: s'_def)
  have tab: "clone_tables g k b s 1024 (mem s')"
    unfolding f' by (rule clone_tables_frame [of g k b s 1024 mc]) (use mc r m(2) in \<open>auto simp: cloned_def\<close>)
  have pools: "pools_at s bs" and k: "5 \<le> k" using r by blast+
  have "kernel_mapped g mc" using cloned_kernel [OF mc pools k] r by blast
  then have map: "kernel_mapped g (mem s')" unfolding f' by (rule kernel_mapped_frame) (use m(2) in blast)
  have same: "mem s' = enter_task (cpu_esp s) (cpu_ebp s) (fork_eip s) (last ts) t m2" using m(1) f'(1) by simp
  have tasks: "task_queue s' (ts @ [t])"
    "\<And>u. u \<in> set ts \<Longrightarrow> context_of (mem s') u = context_of (mem s) u \<and> task_id (mem s') u = task_id (mem s) u"
    "context_of (mem s') t = (context_of m2 t)\<lparr>ctx_esp := cpu_esp s, ctx_ebp := cpu_ebp s, ctx_eip := fork_eip s\<rparr>"
    "task_id (mem s') t = task_id m2 t"
    by (rule task_queue_append [OF q f(4,5) m2(1,2) same f'(2)]; assumption)+
  have ready': "clone_ready g (k + 2) (b + 5) s' bs'" if room: "k + 4 \<le> table_frames" "b + 10 \<le> user_frames"
  proof -
    have "set bs \<subseteq> set bs'" using f(3) by (metis set_mset_add_mset_insert set_mset_mset subset_insertI)
    moreover have "heap_end s' = heap_end s" using runningD(2) [OF run] runningD(2) [OF f(2) [folded s'_def]] by (simp add: heap_area_def)
    ultimately have "pools_at s' bs'"
      using pools runningD(4) [OF f(2) [folded s'_def]] by (auto simp: pools_at_def s'_def)
    moreover have "pool_bit m (paging_pool s) j \<longleftrightarrow> pool_bit mc (paging_pool s) j" if "j < table_frames" for j
      using pool_bit_cong(1) [OF that] m(2) by blast
    moreover have "pool_bit m (user_space_pool s) j \<longleftrightarrow> pool_bit mc (user_space_pool s) j" if "j < user_frames" for j
      using pool_bit_cong(2) [OF that] m(2) by blast
    ultimately show ?thesis using r room map mc unfolding clone_ready_def cloned_def f' by (simp add: s'_def)
  qed
  show thesis
    by (rule that [OF f(1-3) [folded s'_def] tasks(1) _ _ tasks(2) tab map _ ready'])
      (use tasks(3,4) m2(3,4) in \<open>simp_all add: s'_def\<close>)
qed

end
