(* ===== verification/BootProps.thy ===== *)
theory BootProps
  imports Boot
begin

text \<open>
  The kernel from its entry point to the end of \<^verbatim>\<open>_start\<close>, and the properties of \<^verbatim>\<open>fork\<close>.
\<close>

section \<open>The last message\<close>

definition fork_text :: "string \<Rightarrow> string \<Rightarrow> u_byte list" where
  "fork_text ret pid = chars (''fork() returned '' @ ret @ '', and getpid() returned '' @ pid @ newline)"

lemma small_numbers: "number_chars DECIMAL 0 = chars ''0''" "number_chars DECIMAL 1 = chars ''1''"
  by (simp_all add: number_chars_def magnitude_chars_def numeral_chars_def base_def chars_def of_char_def digits.simps)

lemma fork_line:
  fixes s :: "'a kernel_state_scheme"
  assumes r: "ready s bs 2 N L v" and L: "fork_message \<in> L" and N: "40000 \<le> N"
  obtains s' where "info raise fork_message [1, 0] s = Inr ((), s')" and "output_only s s'"
    and "ready s' bs 2 N L (spec_show HIGH_BLUE BLACK (fork_text ''1'' ''0'') v)" and "heap_area s' = heap_area s"
    and "\<And>x. held_byte s bs x \<Longrightarrow> \<not> console_bytes s 2 x \<Longrightarrow> mem s' x = mem s x"
proof -
  let ?args = "[1, 0] :: u_dword list"
  have c: "chars fork_message = chars ''fork() returned '' @ [37, 100] @ chars '', and getpid() returned '' @ [37, 100, 10]"
    by (simp add: chars_def of_char_def)
  have p: "37 \<notin> set (chars ''fork() returned '')" "37 \<notin> set (chars '', and getpid() returned '')"
    by (simp_all add: chars_def of_char_def)
  have d: "render txt 100 n = Some (number_chars DECIMAL n)" for "txt" n by (simp add: render_def of_char_def)
  have out: "message_text (fp_unit s) (\<lambda>_. []) ?args (chars fork_message) = fork_text ''1'' ''0''"
    unfolding message_text_def c fork_text_def using p
    by (simp add: spec_format_prefix chars_append) (simp add: d small_numbers chars_def of_char_def)
  have msg: "message_ok (\<lambda>_. []) s bs ?args (chars fork_message) 0"
    unfolding c using p by (simp add: message_ok_prefix directive_letters of_char_def)
  have len: "length fork_message = 45" "length (fork_text ''1'' ''0'') = 43" "8 \<notin> set (fork_text ''1'' ''0'')"
    by (simp_all add: fork_text_def chars_def of_char_def)
  have "format_budget (length fork_message) (length (fork_text ''1'' ''0'')) \<le> format_budget 50 70"
    unfolding len by (rule format_budget_mono) simp_all
  then have budget: "32 + format_budget (length fork_message) (length (fork_text ''1'' ''0'')) \<le> N" using N small_budget by linarith
  have short: "length fork_message + 3 < 2 ^ 31" "length (fork_text ''1'' ''0'') + 1 < 2 ^ 31" unfolding len by simp_all
  have two: "length ?args \<le> 2" by simp
  show thesis
    by (rule print_literal_ready [OF r L two msg short(1), unfolded out, OF short(2) len(3) budget, of HIGH_BLUE 169])
      (use that [unfolded raise_eq] in blast)
qed

section \<open>The whole of start-up\<close>

text \<open>What printing cannot reach: the blocks of the heap and everything from one megabyte on.\<close>

lemma quiet_byte:
  assumes run: "running s bs N L v" and x: "in_payload bs x \<or> 0x100000 \<le> unat x"
  shows "held_byte s bs x" and "\<not> console_bytes s 2 x"
proof -
  note r = runningD [OF run]
  show "held_byte s bs x" using x held_outside [OF r(2), of bs x] by auto
  have "unat x < 0x50000 \<or> 0xb8000 \<le> unat x \<and> unat x < 0x100000" if "console_bytes s 2 x"
    using that r(3) video_range [of 4006 x] by (auto simp: console_bytes_def screen_bytes_def below_heap_def)
  then show "\<not> console_bytes s 2 x" using x block_place [OF run, of x] by auto
qed

lemma int_flag_output:
  fixes s s' :: "'a kernel_state_scheme"
  assumes "output_only s s'"
  shows "int_flag s' = int_flag s"
  by (subst assms [THEN output_io_only, unfolded io_only_def]) simp

definition setup_handlers :: "(u_byte \<rightharpoonup> interruption_handler) \<Rightarrow> (u_byte \<rightharpoonup> interruption_handler)" where
  "setup_handlers hs = hs(32 \<mapsto> Timer_callback, 48 \<mapsto> Screen_callback, 49 \<mapsto> Debug_handler, 33 \<mapsto> Keyboard_callback,
     46 \<mapsto> Silent_handler)"

lemma setup_running:
  fixes s :: "'a kernel_state_scheme"
  assumes "boot_layout s" and "displays s v" and lits: "\<And>l. l \<in> L \<union> set format_literals \<Longrightarrow> boot_text s l"
    and "boot_literals build_date build_time \<subseteq> L"
    and "length build_date \<le> 20" and "length build_time \<le> 20" and "8 \<notin> set (chars (build_date @ build_time))"
  obtains s' where "kernel_setup build_date build_time s = Inr ((), s')" and "running s' [] 0x60000 L (boot_screen build_date build_time v)"
    and "int_state.more s' = int_state.more s" and "interruption_handlers s' = setup_handlers (interruption_handlers s)"
proof -
  obtain s' where s': "kernel_setup build_date build_time s = Inr ((), s')" "ready s' [] 2 0x60000 L (boot_screen build_date build_time v)"
    "heap_area s' = (0x50000, 0x5000c, 0xd0000)" "boot_fields s' = boot_fields s"
    and h: "interruption_handlers s' = setup_handlers (interruption_handlers s)"
    unfolding setup_handlers_def by (rule kernel_setup_ready [OF assms]) blast+
  have "unat (literal s l + of_nat i) < 0x50000" if "l \<in> L \<union> set format_literals" "i \<le> length l" for l i
    using lits [OF that(1)] that(2) unfolding boot_text_def by blast
  then have "below_heap s L" using assms(1) unfolding below_heap_def boot_layout_def by blast
  then have "running s' [] 0x60000 L (boot_screen build_date build_time v)"
    using s'(2,3) below_heap_cong [OF s'(4)] by (simp add: running_def)
  then show thesis using that s'(1,4) h by (simp add: boot_fields_def)
qed

text \<open>The kernel task, about to fork.\<close>

definition boot_until_fork :: "string \<Rightarrow> string \<Rightarrow> 'a kernel_state_scheme \<Rightarrow> ('a kernel_state_scheme, unit) result" where
  "boot_until_fork build_date build_time s =
     and_then (kernel_setup build_date build_time s) (\<lambda>_ s. and_then (initialise_paging s) (\<lambda>_ s. initialise_tasking s))"

lemma boot_until_fork_running:
  fixes s :: "'a kernel_state_scheme"
  assumes boot: "boot_layout s" "displays s v" and lits: "\<And>l. l \<in> L \<union> set format_literals \<Longrightarrow> boot_text s l"
    and L: "boot_literals build_date build_time \<subseteq> L"
    and build: "length build_date \<le> 20" "length build_time \<le> 20" "8 \<notin> set (chars (build_date @ build_time))"
  obtains s' bs t and g :: "'a kernel_state_scheme" where "boot_until_fork build_date build_time s = Inr ((), s')"
    and "running s' bs (0x60000 - 8152 - 36) L (spec_show HIGH_BLUE BLACK (handler_text ''14'') (boot_screen build_date build_time v))"
    and "clone_ready g 5 0 s' bs" and "(t, 24) \<in> set bs" and "task_queue s' [t]" and "current_task s' = t"
    and "task_id (mem s') t = next_pid s" and "next_pid s' = next_pid s + 1" and "current_directory s' = table_frame 0"
    and "cr3 s' = table_frame 0" and "cpu_esp s' = cpu_esp s" and "cpu_ebp s' = cpu_ebp s" and "switch_eip s' = switch_eip s"
    and "fork_eip s' = fork_eip s" and "interruption_handlers s' = (setup_handlers (interruption_handlers s))(14 \<mapsto> Page_fault)"
proof -
  have hl: "handler_message \<in> L" using L(1) by (simp only: boot_literals_def insert_subset)
  obtain s1 where s1: "kernel_setup build_date build_time s = Inr ((), s1)" "running s1 [] 0x60000 L (boot_screen build_date build_time v)"
    "int_state.more s1 = int_state.more s" "interruption_handlers s1 = setup_handlers (interruption_handlers s)"
    by (rule setup_running [OF boot lits L(1) build]) blast+
  have N1: "50000 \<le> (0x60000 :: nat)" by simp
  let ?v = "spec_show HIGH_BLUE BLACK (handler_text ''14'') (boot_screen build_date build_time v)"
  obtain s2 bs2 and g :: "'a kernel_state_scheme" where s2: "initialise_paging s1 = Inr ((), s2)" "running s2 bs2 (0x60000 - 8152) L ?v" "clone_ready g 5 0 s2 bs2"
    and d2: "current_directory s2 = table_frame 0" "cr3 s2 = table_frame 0" "task_part s2 = task_part s1"
      "interruption_handlers s2 = (interruption_handlers s1)(14 \<mapsto> Page_fault)"
    by (rule initialise_paging_running [OF s1(2) N1 hl]) blast
  obtain s3 bs3 t where s3: "initialise_tasking s2 = Inr ((), s3)" "running s3 bs3 (0x60000 - 8152 - 36) L ?v" "clone_ready g 5 0 s3 bs3"
      "mset bs3 = add_mset (t, 24) (mset bs2)" "task_queue s3 [t]" "current_task s3 = t" "task_id (mem s3) t = next_pid s2"
    and d3: "next_pid s3 = next_pid s2 + 1" "current_directory s3 = current_directory s2" "cr3 s3 = cr3 s2" "cpu_esp s3 = cpu_esp s2"
      "cpu_ebp s3 = cpu_ebp s2" "switch_eip s3 = switch_eip s2" "fork_eip s3 = fork_eip s2"
      "interruption_handlers s3 = interruption_handlers s2"
    by (rule initialise_tasking_running [OF s2(2) _ s2(3)]) auto
  have blk: "(t, 24) \<in> set bs3" using s3(4) by (metis set_mset_mset union_single_eq_member)
  note tp = d2(3) [unfolded task_part_def] and m1 = more_fields [OF s1(3)]
  show thesis
    by (rule that [OF _ s3(2,3) blk s3(5,6)])
      (use s1(1,4) s2(1) s3(1,7) d2 d3 tp m1 in \<open>simp_all add: boot_until_fork_def\<close>)
qed

lemma kernel_start_eq:
  "kernel_start build_date build_time s = and_then (boot_until_fork build_date build_time s) (\<lambda>_ s. and_then (fork s) (\<lambda>ret s.
     info raise fork_message [ret, getpid s] s))"
  by (simp add: kernel_start_def boot_until_fork_def and_then_assoc)

lemma kernel_start_state:
  fixes s :: "'a kernel_state_scheme"
  assumes boot: "boot_layout s" "displays s v" and lits: "\<And>l. l \<in> L \<union> set format_literals \<Longrightarrow> boot_text s l"
    and L: "boot_literals build_date build_time \<subseteq> L" "fork_message \<in> L"
    and build: "length build_date \<le> 20" "length build_time \<le> 20" "8 \<notin> set (chars (build_date @ build_time))"
    and pid: "next_pid s = 0"
  obtains s' t u and g s4 :: "'a kernel_state_scheme" where "kernel_start build_date build_time s = Inr ((), s')"
    and "displays s' (spec_show HIGH_BLUE BLACK (fork_text ''1'' ''0'')
      (spec_show HIGH_BLUE BLACK (handler_text ''14'') (boot_screen build_date build_time v)))"
    and "task_queue s' [t, u]" and "current_task s' = t" and "task_id (mem s') t = 0" and "task_id (mem s') u = 1"
    and "context_of (mem s') u = \<lparr>ctx_esp = cpu_esp s, ctx_ebp = cpu_ebp s, ctx_eip = fork_eip s, ctx_dir = table_frame 5\<rparr>"
    and "clone_tables g 5 0 s4 1024 (mem s')" and "kernel_mapped g (mem s')" and "cr3 s' = table_frame 0" and "paging_enabled s'"
    and "int_flag s'" and "switch_eip s' = switch_eip s"
    and "interruption_handlers s' = (setup_handlers (interruption_handlers s))(14 \<mapsto> Page_fault)"
proof -
  let ?v = "spec_show HIGH_BLUE BLACK (handler_text ''14'') (boot_screen build_date build_time v)"
  obtain s3 bs3 t and g :: "'a kernel_state_scheme" where s3: "boot_until_fork build_date build_time s = Inr ((), s3)"
      "running s3 bs3 (0x60000 - 8152 - 36) L ?v" "clone_ready g 5 0 s3 bs3" "(t, 24) \<in> set bs3" "task_queue s3 [t]" "current_task s3 = t"
      "task_id (mem s3) t = next_pid s"
    and d3: "next_pid s3 = next_pid s + 1" "current_directory s3 = table_frame 0" "cr3 s3 = table_frame 0" "cpu_esp s3 = cpu_esp s"
      "cpu_ebp s3 = cpu_ebp s" "switch_eip s3 = switch_eip s" "fork_eip s3 = fork_eip s"
      "interruption_handlers s3 = (setup_handlers (interruption_handlers s))(14 \<mapsto> Page_fault)"
    by (rule boot_until_fork_running [OF boot lits L(1) build]) blast+
  have blk: "(x, 24) \<in> set bs3" if "x \<in> set [t]" for x using that s3(4) by simp
  have N3: "36 \<le> (0x60000 - 8152 - 36 :: nat)" by simp
  obtain s4 bs4 u where s4: "fork s3 = Inr (next_pid s3, s4)" "running s4 bs4 (0x60000 - 8152 - 36 - 36) L ?v" "mset bs4 = add_mset (u, 24) (mset bs3)"
      "task_queue s4 ([t] @ [u])" "task_id (mem s4) u = next_pid s3"
      "context_of (mem s4) u = \<lparr>ctx_esp = cpu_esp s3, ctx_ebp = cpu_ebp s3, ctx_eip = fork_eip s3, ctx_dir = table_frame 5\<rparr>"
      "\<And>x. x \<in> set [t] \<Longrightarrow> context_of (mem s4) x = context_of (mem s3) x \<and> task_id (mem s4) x = task_id (mem s3) x"
      "clone_tables g 5 0 s3 1024 (mem s4)" "kernel_mapped g (mem s4)" "s4 = s3\<lparr>mem := mem s4, next_pid := next_pid s3 + 1, int_flag := True\<rparr>"
    by (rule fork_running [OF s3(2) _ s3(3) d3(2) s3(5) blk]) (simp_all only: list.set N3)
  have ids: "next_pid s = 0" "next_pid s3 = 1" using pid d3(1) by simp_all
  have f4: "cr3 s4 = table_frame 0" "paging_enabled s4" "int_flag s4" "switch_eip s4 = switch_eip s" "current_task s4 = t" "getpid s4 = 0"
  proof -
    have "paging_enabled s3" using s3(3) by (simp add: clone_ready_def)
    then show "cr3 s4 = table_frame 0" "paging_enabled s4" "int_flag s4" "switch_eip s4 = switch_eip s" "current_task s4 = t"
      using d3(3,6) s3(6) by (subst s4(10), simp)+
    then show "getpid s4 = 0" using s4(7) [of t] s3(7) ids by (simp add: getpid_def)
  qed
  have N4: "40000 \<le> (0x60000 - 8152 - 36 - 36 :: nat)" by simp
  obtain s' where s': "info raise fork_message [1, 0] s4 = Inr ((), s')" "output_only s4 s'"
    "ready s' bs4 2 (0x60000 - 8152 - 36 - 36) L (spec_show HIGH_BLUE BLACK (fork_text ''1'' ''0'') ?v)"
    "\<And>x. held_byte s4 bs4 x \<Longrightarrow> \<not> console_bytes s4 2 x \<Longrightarrow> mem s' x = mem s4 x"
    by (rule fork_line [OF runningD(1) [OF s4(2)] L(2) N4]) blast
  have keep: "mem s' x = mem s4 x" if "in_payload bs4 x \<or> 0x100000 \<le> unat x" for x
    using s'(4) quiet_byte [OF s4(2) that] by blast
  note f' = more_fields [OF output_only_more [OF s'(2)]]
  have "interruption_handlers s4 = interruption_handlers s3" by (subst s4(10)) simp
  then have h': "interruption_handlers s' = (setup_handlers (interruption_handlers s))(14 \<mapsto> Page_fault)"
    using output_only_fields(8) [OF s'(2)] d3(8) by simp
  have "{(t, 24), (u, 24)} \<subseteq> set bs4" using s3(4) s4(3)
    by (metis empty_subsetI insert_subset set_mset_add_mset_insert set_mset_mset insertCI)
  then have pay: "in_payload bs4 x" if "in_task [t, u] x" for x using that by (force simp: in_task_def in_payload_def)
  have q: "task_queue s' [t, u]" by (rule task_queue_frame [of s4]) (use s4(4) keep pay f' in simp_all)
  have same: "task_id (mem s') x = task_id (mem s4) x" "context_of (mem s') x = context_of (mem s4) x" if "x \<in> {t, u}" for x
    using task_field_frame [of x "mem s'" "mem s4"] keep pay that by (auto simp: in_task_def context_of_def)
  show thesis
  proof (rule that [of s' t u g s3])
    show "kernel_start build_date build_time s = Inr ((), s')"
      using s3(1) s4(1) s'(1) f4(6) ids by (simp add: kernel_start_eq)
    show "displays s' (spec_show HIGH_BLUE BLACK (fork_text ''1'' ''0'') ?v)" using s'(3) by (simp only: ready_def)
    show "int_flag s'" using f4(3) s'(2) by (metis int_flag_output)
    show "clone_tables g 5 0 s3 1024 (mem s')" by (rule clone_tables_frame [OF s4(8)]) (use keep in simp_all)
    show "kernel_mapped g (mem s')" by (rule kernel_mapped_frame [OF s4(9)]) (use keep in simp)
    show "context_of (mem s') u = \<lparr>ctx_esp = cpu_esp s, ctx_ebp = cpu_ebp s, ctx_eip = fork_eip s, ctx_dir = table_frame 5\<rparr>"
      using same(2) [of u] s4(6) d3 by simp
    show "task_id (mem s') t = 0" "task_id (mem s') u = 1" using same(1) s4(5) s4(7) [of t] s3(7) ids by simp_all
  qed (use q f' f4 h' in simp_all)
qed

section \<open>Properties\<close>

lemma first_frames: "table_frame 0 = 0x100000" "table_frame 5 = 0x105000" "stack_shift 0 = 0xffe000"
  by (simp_all add: table_frame_def paging_pool_start_def page_size_def stack_shift_def)

text \<open>
  (C1) The kernel boots: from a machine whose image is in place, \<^verbatim>\<open>_start\<close> runs to its end. The seven messages
  are on the screen, in order and colour; six handlers are registered; paging is on, with the identity map of the first 16
  megabytes; there are two tasks in the queue, the kernel task (process 0, running) and its child (process 1),
  which will continue behind \<^verbatim>\<open>get_instruction_pointer\<close> in \<^verbatim>\<open>fork\<close> with the registers of its parent and in an address space
  that differs from the kernel's in the five pages of the stack only; and the state is one from
  which the scheduler's runs start.
\<close>

theorem kernel_start_boots:
  fixes s :: "'a kernel_state_scheme"
  assumes "boot_layout s" and "displays s v"
    and "\<And>l. l \<in> insert fork_message (boot_literals build_date build_time) \<union> set format_literals \<Longrightarrow> boot_text s l"
    and "length build_date \<le> 20" and "length build_time \<le> 20" and "8 \<notin> set (chars (build_date @ build_time))"
    and "next_pid s = 0" and "switch_eip s \<noteq> switched_mark"
  shows "\<exists>s' t u. kernel_start build_date build_time s = Inr ((), s') \<and>
    displays s' (spec_show HIGH_BLUE BLACK (fork_text ''1'' ''0'')
      (spec_show HIGH_BLUE BLACK (handler_text ''14'') (boot_screen build_date build_time v))) \<and>
    sched_run [t, u] 0 (context_of (mem s')) s' \<and> current_task s' = t \<and>
    task_id (mem s') t = 0 \<and> task_id (mem s') u = 1 \<and>
    context_of (mem s') u = \<lparr>ctx_esp = cpu_esp s, ctx_ebp = cpu_ebp s, ctx_eip = fork_eip s, ctx_dir = 0x105000\<rparr> \<and>
    interruption_handlers s' = (setup_handlers (interruption_handlers s))(14 \<mapsto> Page_fault) \<and>
    int_flag s' \<and> paging_enabled s' \<and> cr3 s' = 0x100000 \<and>
    (\<forall>va. translate (mem s') 0x100000 va =
      (if unat va < 0x1000000 then Some (va, False, 0x2000 \<le> unat va \<and> unat va < 0x7000) else None)) \<and>
    (\<forall>va. translate (mem s') 0x105000 va =
      (if unat va < 0x1000000
       then if 0x2000 \<le> unat va \<and> unat va < 0x7000 then Some (va + 0xffe000, False, True) else Some (va, False, False)
       else None))"
proof -
  obtain s' t u and g s4 :: "'a kernel_state_scheme" where k: "kernel_start build_date build_time s = Inr ((), s')"
      "displays s' (spec_show HIGH_BLUE BLACK (fork_text ''1'' ''0'')
        (spec_show HIGH_BLUE BLACK (handler_text ''14'') (boot_screen build_date build_time v)))"
    and q: "task_queue s' [t, u]" "current_task s' = t" "task_id (mem s') t = 0" "task_id (mem s') u = 1"
      "context_of (mem s') u = \<lparr>ctx_esp = cpu_esp s, ctx_ebp = cpu_ebp s, ctx_eip = fork_eip s, ctx_dir = table_frame 5\<rparr>"
    and m: "clone_tables g 5 0 s4 1024 (mem s')" "kernel_mapped g (mem s')"
    and f: "cr3 s' = table_frame 0" "paging_enabled s'" "int_flag s'" "switch_eip s' = switch_eip s"
      "interruption_handlers s' = (setup_handlers (interruption_handlers s))(14 \<mapsto> Page_fault)"
    by (rule kernel_start_state [OF assms(1-3) subset_insertI insertI1 assms(4-7)]) blast+
  have "sched_run [t, u] 0 (context_of (mem s')) s'"
    using task_queueD(2) [OF q(1)] q(2) f(4) assms(8) by (intro sched_run.started q(1)) simp_all
  then show ?thesis
    using k q f translate_kernel [OF m(2)] translate_clone [OF m] unfolding first_frames by (intro exI [of _ s'] exI [of _ t] exI [of _ u]) simp
qed

lemma boot_demo_start:
  "l \<in> insert fork_message (boot_literals ''Jan 01 2021'' ''12:00:00'') \<union> set format_literals \<Longrightarrow> boot_text boot_demo l"
  by (rule boot_demo_text) (auto simp: boot_literals_def image_texts_def)

lemma boot_demo_registers: "next_pid boot_demo = 0" "switch_eip boot_demo \<noteq> switched_mark"
  by (simp_all add: boot_demo_def set_cursor_offset_def port_byte_out_def demo_tasks_def switched_mark_def)

theorem kernel_start_boots_witness:
  "\<exists>s' t u. kernel_start ''Jan 01 2021'' ''12:00:00'' boot_demo = Inr ((), s') \<and>
    displays s' (spec_show HIGH_BLUE BLACK (fork_text ''1'' ''0'') (spec_show HIGH_BLUE BLACK (handler_text ''14'')
      (boot_screen ''Jan 01 2021'' ''12:00:00'' (replicate 2000 (0, 0), 0)))) \<and>
    task_id (mem s') t = 0 \<and> task_id (mem s') u = 1 \<and> translate (mem s') 0x105000 0x6000 = Some (0x1004000, False, True)"
proof -
  from kernel_start_boots [OF boot_demo_layout boot_demo_displays boot_demo_start demo_dates boot_demo_registers]
  obtain s' t u where k: "kernel_start ''Jan 01 2021'' ''12:00:00'' boot_demo = Inr ((), s')"
    "displays s' (spec_show HIGH_BLUE BLACK (fork_text ''1'' ''0'') (spec_show HIGH_BLUE BLACK (handler_text ''14'')
      (boot_screen ''Jan 01 2021'' ''12:00:00'' (replicate 2000 (0, 0), 0))))"
    "task_id (mem s') t = 0" "task_id (mem s') u = 1"
    and tr: "\<And>va. translate (mem s') 0x105000 va = (if unat va < 0x1000000
       then if 0x2000 \<le> unat va \<and> unat va < 0x7000 then Some (va + 0xffe000, False, True) else Some (va, False, False) else None)"
    by blast
  from tr [of "0x6000"] have "translate (mem s') 0x105000 0x6000 = Some (0x1004000, False, True)" by simp
  with k show ?thesis by blast
qed

text \<open>
  (C2) A task that runs in the kernel's address space can fork as long as there are frames: \<^verbatim>\<open>fork\<close> returns the identifier of
  the child, a fresh one; the child stands at the end of the queue with the parent's stack registers,
  nothing else in the queue has changed, and its directory maps every page like the kernel's, except that the
  five stack pages lead to five new frames, which hold what the parent's stack held. When the child runs, the same
  call of \<^verbatim>\<open>fork\<close> returns 0.
\<close>

theorem fork_separates_child:
  fixes s :: "'a kernel_state_scheme" and g :: "'b kernel_state_scheme"
  assumes "running s bs N L v" and "36 \<le> N" and "clone_ready g k b s bs" and "current_directory s = 0x100000"
    and "task_queue s ts" and "\<And>u. u \<in> set ts \<Longrightarrow> (u, 24) \<in> set bs" and "current_task s \<in> set ts"
  shows "\<exists>s' t. fork s = Inr (next_pid s, s') \<and> task_queue s' (ts @ [t]) \<and> current_task s' = current_task s \<and>
    task_id (mem s') t = next_pid s \<and> next_pid s' = next_pid s + 1 \<and>
    context_of (mem s') t = \<lparr>ctx_esp = cpu_esp s, ctx_ebp = cpu_ebp s, ctx_eip = fork_eip s, ctx_dir = table_frame k\<rparr> \<and>
    (\<forall>u \<in> set ts. context_of (mem s') u = context_of (mem s) u \<and> task_id (mem s') u = task_id (mem s) u) \<and>
    (\<forall>va. translate (mem s') (table_frame k) va =
      (if unat va < 0x1000000
       then if 0x2000 \<le> unat va \<and> unat va < 0x7000 then Some (va + stack_shift b, False, True) else Some (va, False, False)
       else None)) \<and>
    (\<forall>va. 0x2000 \<le> unat va \<and> unat va < 0x7000 \<longrightarrow> mem s' (va + stack_shift b) = mem s va) \<and>
    (\<forall>eip. fork_return (current_task s) t eip (s'\<lparr>current_task := t\<rparr>) = (0, s'\<lparr>current_task := t\<rparr>))"
proof -
  have dir: "current_directory s = table_frame 0" using assms(4) by (simp add: first_frames)
  obtain s' bs' t where f: "fork s = Inr (next_pid s, s')" "task_queue s' (ts @ [t])" "task_id (mem s') t = next_pid s"
      "context_of (mem s') t = \<lparr>ctx_esp = cpu_esp s, ctx_ebp = cpu_ebp s, ctx_eip = fork_eip s, ctx_dir = table_frame k\<rparr>"
      "\<And>u. u \<in> set ts \<Longrightarrow> context_of (mem s') u = context_of (mem s) u \<and> task_id (mem s') u = task_id (mem s) u"
    and m: "clone_tables g k b s 1024 (mem s')" "kernel_mapped g (mem s')"
    and s': "s' = s\<lparr>mem := mem s', next_pid := next_pid s + 1, int_flag := True\<rparr>"
    by (rule fork_running [OF assms(1-3) dir assms(5,6)]) blast+
  have room: "Suc k < table_frames" "b + 5 \<le> user_frames" using assms(3) by (simp_all add: clone_ready_def)
  have "t \<notin> set ts" using task_queue_distinct [OF f(2)] by simp
  then have "t \<noteq> current_task s" using assms(7) by blast
  then have "\<forall>eip. fork_return (current_task s) t eip (s'\<lparr>current_task := t\<rparr>) = (0, s'\<lparr>current_task := t\<rparr>)"
    by (simp add: fork_return_def)
  moreover have "current_task s' = current_task s" "next_pid s' = next_pid s + 1" by (subst s', simp)+
  ultimately show ?thesis
    using f translate_clone [OF m room] clone_stack [OF m(1) _ _ room(2)] by (intro exI [of _ s'] exI [of _ t]) blast
qed

text \<open>The kernel task of the boot image, about to fork.\<close>

theorem fork_separates_child_witness:
  "\<exists>s s' t u. boot_until_fork ''Jan 01 2021'' ''12:00:00'' boot_demo = Inr ((), s) \<and> fork s = Inr (1, s') \<and>
    task_queue s' [t, u] \<and> task_directory (mem s') u = 0x105000 \<and> mem s' 0x1004000 = mem s 0x6000"
proof -
  obtain s bs t and g :: kernel_state where b: "boot_until_fork ''Jan 01 2021'' ''12:00:00'' boot_demo = Inr ((), s)"
      "running s bs (0x60000 - 8152 - 36) (boot_literals ''Jan 01 2021'' ''12:00:00'')
        (spec_show HIGH_BLUE BLACK (handler_text ''14'') (boot_screen ''Jan 01 2021'' ''12:00:00'' (replicate 2000 (0, 0), 0)))"
      "clone_ready g 5 0 s bs" "(t, 24) \<in> set bs" "task_queue s [t]" "current_task s = t" "next_pid s = next_pid boot_demo + 1"
      "current_directory s = table_frame 0"
    by (rule boot_until_fork_running [OF boot_demo_layout boot_demo_displays boot_demo_literals order_refl demo_dates]) blast+
  have N: "36 \<le> (0x60000 - 8152 - 36 :: nat)" by simp
  have d: "current_directory s = 0x100000" using b(8) by (simp add: first_frames)
  have blk: "(u, 24) \<in> set bs" if "u \<in> set [t]" for u using that b(4) by simp
  have c: "current_task s \<in> set [t]" using b(6) by simp
  have pid: "next_pid s = 1" using b(7) boot_demo_registers(1) by simp
  from fork_separates_child [OF b(2) N b(3) d b(5) blk c] obtain s' u where f: "fork s = Inr (1, s')" "task_queue s' ([t] @ [u])"
    "context_of (mem s') u = \<lparr>ctx_esp = cpu_esp s, ctx_ebp = cpu_ebp s, ctx_eip = fork_eip s, ctx_dir = table_frame 5\<rparr>"
    and st: "\<And>va. 0x2000 \<le> unat va \<and> unat va < 0x7000 \<Longrightarrow> mem s' (va + stack_shift 0) = mem s va" unfolding pid by auto
  from st [of "0x6000"] have "mem s' 0x1004000 = mem s 0x6000" by (simp add: first_frames)
  moreover have "task_directory (mem s') u = 0x105000" using f(3) by (simp add: context_of_def first_frames)
  ultimately show ?thesis using b(1) f(1,2) by auto
qed

end
