(* ===== verification/Dispatch.thy ===== *)
theory Dispatch
  imports BootProps
begin

text \<open>
  Interrupts on the running system: the timer interrupt as the way from one task to the next, and the report of a
  panic, to which an interrupt without handler and a page fault lead.
\<close>

section \<open>The timer interrupt\<close>

lemma int_32:
  fixes s :: "'a kernel_state_scheme"
  assumes "interruption_handlers s 32 = Some Timer_callback"
  shows "interrupt (Suc d) 32 regs s = Inr (timer_callback (port_byte_out 0x20 0x20 s))"
  using assms by (simp add: gate_stub_def irq_handler_def acknowledge_def port_byte_out_def call_handler_def)

lemma timer_callback_switches:
  fixes s :: "'a kernel_state_scheme"
  assumes q: "task_queue s ts" and i: "i < length ts" and cur: "current_task s = ts ! i" and eip: "switch_eip s \<noteq> switched_mark"
    and sp: "spec_switch (cpu_esp s) (cpu_ebp s) (switch_eip s) (map (context_of (mem s)) ts, i) = (cs, k)"
  obtains s' where "timer_callback s = (Jump (ctx_eip (cs ! k)), s')" and "task_queue s' ts"
    and "map (context_of (mem s')) ts = cs" and "current_task s' = ts ! k" and "io_trace s' = io_trace s"
    and "tick s' = tick s + 1" and "cpu_esp s' = ctx_esp (cs ! k)" and "cpu_ebp s' = ctx_ebp (cs ! k)" and "cr3 s' = ctx_dir (cs ! k)"
    and "int_flag s'" and "\<And>x. \<not> in_task ts x \<Longrightarrow> mem s' x = mem s x"
proof -
  define m where "m = save_context (cpu_esp s) (cpu_ebp s) (switch_eip s) (ts ! i) (mem s)"
  let ?s = "s\<lparr>tick := tick s + 1\<rparr>"
  have f: "current_task ?s = ts ! i" "switch_eip ?s \<noteq> switched_mark" using cur eip by simp_all
  have q': "task_queue ?s ts" by (rule task_queue_frame [OF q]) simp_all
  have cs: "map (context_of m) ts = cs" and k: "k = Suc i mod length ts"
    using save_context_others [OF q i] sp by (auto simp: spec_switch_def m_def)
  have "k < length ts" using i k by (cases ts) simp_all
  then have at: "context_of m (ts ! k) = cs ! k" using cs by auto
  have m': "m = save_context (cpu_esp ?s) (cpu_ebp ?s) (switch_eip ?s) (ts ! i) (mem ?s)" by (simp add: m_def)
  note sw = switch_task_eq [OF q' i f, folded m' k]
  have step: "timer_callback s = (Jump (ctx_eip (cs ! k)), snd (switch_task ?s))"
    unfolding timer_callback_def sw by (simp add: at [symmetric] context_of_def)
  have mem: "mem (snd (switch_task ?s)) = m" by (simp add: sw)
  show thesis
  proof (rule that [OF step])
    show "task_queue (snd (switch_task ?s)) ts"
      by (rule task_queue_frame [OF task_queue_save [OF q i, of "cpu_esp s" "cpu_ebp s" "switch_eip s"]]) (simp_all add: sw m_def)
    show "mem (snd (switch_task ?s)) x = mem s x" if "\<not> in_task ts x" for x
      unfolding mem m_def using that nth_mem [OF i] by (intro save_context_outside) (auto simp: in_task_def)
  qed (simp_all add: mem cs, simp_all add: sw at [symmetric] context_of_def)
qed

section \<open>Vectors without an entry point of their own\<close>

lemma output_only_kernel:
  fixes s s' :: "'a kernel_state_scheme"
  assumes "output_only s s'"
  shows "ready_queue s' = ready_queue s" and "current_task s' = current_task s" and "switch_eip s' = switch_eip s"
    and "cpu_esp s' = cpu_esp s" and "cpu_ebp s' = cpu_ebp s" and "tick s' = tick s"
  by (subst assms [THEN output_io_only, unfolded io_only_def], simp)+

lemma unknown_vector_eq:
  fixes s :: "'a kernel_state_scheme"
  assumes "52 < n"
  shows "interrupt (Suc d) n regs s = isr_handler (interrupt d) (regs\<lparr>regs_int_no := 32\<rparr>) s"
  using assms by (simp add: gate_stub_def)

lemma unknown_line:
  fixes s :: "'a kernel_state_scheme"
  assumes r: "ready s bs k N L v" and L: "unknown_message \<in> L" and N: "40000 \<le> N"
  obtains s' where "bad (interrupt (Suc d)) unknown_message [] s = Inr ((), s')" and "output_only s s'"
    and "ready s' bs k N L (spec_show HIGH_RED BLACK (chars unknown_message) v)"
    and "\<And>x. held_byte s bs x \<Longrightarrow> \<not> console_bytes s k x \<Longrightarrow> mem s' x = mem s x"
proof -
  have plain: "37 \<notin> set (chars unknown_message)" "8 \<notin> set (chars unknown_message)" "length (chars unknown_message) = 34"
    by (simp_all add: chars_def of_char_def)
  have out: "message_text (fp_unit s) (\<lambda>_. []) [] (chars unknown_message) = chars unknown_message"
    and msg: "message_ok (\<lambda>_. []) s bs [] (chars unknown_message) 0"
    using spec_format_prefix [OF plain(1), of _ _ _ "[]"] message_ok_prefix [OF plain(1), of _ s bs _ "[]"] by (simp_all add: message_text_def)
  have "format_budget (length unknown_message) (length (chars unknown_message)) \<le> format_budget 50 70"
    by (rule format_budget_mono) (simp_all add: plain(3))
  then have "32 + format_budget (length unknown_message) (length (chars unknown_message)) \<le> N" using N small_budget by linarith
  then show thesis
    using plain by (rule_tac print_literal_ready [OF r L _ msg, of HIGH_RED d, unfolded out]) (use that in auto)
qed

lemma unknown_vector_switch:
  fixes s :: "'a kernel_state_scheme"
  assumes r: "ready s bs k N L v" and L: "unknown_message \<in> L" and N: "40000 \<le> N" and n: "52 < n"
    and q: "task_queue s ts" and i: "i < length ts" and cur: "current_task s = ts ! i" and eip: "switch_eip s \<noteq> switched_mark"
    and h: "interruption_handlers s 32 = Some Timer_callback"
    and apart: "\<And>x. in_task ts x \<Longrightarrow> held_byte s bs x \<and> \<not> console_bytes s k x"
    and sp: "spec_switch (cpu_esp s) (cpu_ebp s) (switch_eip s) (map (context_of (mem s)) ts, i) = (cs, j)"
  obtains s' where "interrupt (Suc (Suc d)) n regs s = Inr (Jump (ctx_eip (cs ! j)), s')"
    and "displays s' (spec_show HIGH_RED BLACK (chars unknown_message) v)"
    and "task_queue s' ts" and "map (context_of (mem s')) ts = cs" and "current_task s' = ts ! j" and "tick s' = tick s + 1"
proof -
  obtain s1 where s1: "bad (interrupt (Suc d)) unknown_message [] s = Inr ((), s1)" "output_only s s1"
    "ready s1 bs k N L (spec_show HIGH_RED BLACK (chars unknown_message) v)"
    "\<And>x. held_byte s bs x \<Longrightarrow> \<not> console_bytes s k x \<Longrightarrow> mem s1 x = mem s x"
    by (rule unknown_line [OF r L N, of d]) blast
  note f = output_only_kernel [OF s1(2)]
  have same: "mem s1 x = mem s x" if "in_task ts x" for x using apart [OF that] s1(4) by blast
  have q1: "task_queue s1 ts" by (rule task_queue_frame [OF q]) (simp_all add: same f)
  have "context_of (mem s1) t = context_of (mem s) t" if "t \<in> set ts" for t
    using task_field_frame [of t "mem s1" "mem s"] same that by (auto simp: in_task_def context_of_def)
  then have sp1: "spec_switch (cpu_esp s1) (cpu_ebp s1) (switch_eip s1) (map (context_of (mem s1)) ts, i) = (cs, j)"
    using sp by (simp add: f cong: map_cong)
  have cur1: "current_task s1 = ts ! i" "switch_eip s1 \<noteq> switched_mark" using cur eip by (simp_all add: f)
  obtain s' where s': "timer_callback s1 = (Jump (ctx_eip (cs ! j)), s')" "task_queue s' ts" "map (context_of (mem s')) ts = cs"
    "current_task s' = ts ! j" "io_trace s' = io_trace s1" "tick s' = tick s1 + 1" "\<And>x. \<not> in_task ts x \<Longrightarrow> mem s' x = mem s1 x"
    by (rule timer_callback_switches [OF q1 i cur1 sp1]) blast
  have "interruption_handlers s1 32 = Some Timer_callback" using h output_only_fields(8) [OF s1(2)] by simp
  then have "interrupt (Suc (Suc d)) n regs s = Inr (Jump (ctx_eip (cs ! j)), s')"
    unfolding unknown_vector_eq [OF n] isr_handler_def using s1(1) s'(1) by (simp add: call_handler_def del: interrupt.simps)
  moreover have "\<not> in_task ts x" if "in_range VIDEO_MEMORY 4000 x" for x
    using that apart [of x] by (auto simp: console_bytes_def screen_bytes_def in_range_def)
  then have "cells_of (mem s') = cells_of (mem s1)" using s'(7) by (intro cells_of_cong) blast
  then have "displays s' (spec_show HIGH_RED BLACK (chars unknown_message) v)"
    using s1(3) s'(5) by (simp add: ready_def displays_def cursor_is_def)
  ultimately show thesis using that s'(2-4,6) f(6) by simp
qed

section \<open>The report of a panic\<close>

text \<open>
  What a step outside of the console may do to it: the heap may grow, and bytes of an area \<open>W\<close> away from the screen and the
  literals may change.
\<close>

lemma ready_transfer:
  fixes s s' :: "'a kernel_state_scheme"
  assumes r: "ready s bs k N L v" and only: "io_only s s'" "\<And>q. crtc_reg q (io_trace s') = crtc_reg q (io_trace s)"
    and heap: "heap_ok s' bs'" "reserve s' bs' N'" "\<And>x. held_byte s bs x \<Longrightarrow> held_byte s' bs' x"
    and keep: "\<And>x. held_byte s bs x \<Longrightarrow> \<not> W x \<Longrightarrow> mem s' x = mem s x" and video: "\<And>x. W x \<Longrightarrow> \<not> in_range VIDEO_MEMORY 4000 x"
    and lits: "\<And>l i. l \<in> L \<union> set format_literals \<Longrightarrow> i \<le> length l \<Longrightarrow> \<not> W (literal s l + of_nat i)"
  shows "ready s' bs' k N' L v"
proof -
  have r': "console_ok s bs k" "displays s v" "interruption_handlers s 48 = Some Screen_callback"
    "\<And>l. l \<in> L \<Longrightarrow> text_at s bs k (literal s l) (chars l)" using r by (auto simp: ready_def)
  note c = console_okD [OF r'(1)] and f = io_only_fields [OF only(1)]
  have cb: "console_bytes s' k x \<longleftrightarrow> console_bytes s k x" "call_bytes s' 5 x \<longleftrightarrow> call_bytes s 5 x" for x
    by (simp_all add: console_bytes_def call_bytes_def screen_bytes_def f)
  have len: "length (chars l) = length l" for l by (simp add: chars_def)
  have strs: "text_at s' bs' k (literal s l) (chars l)" if "l \<in> L \<union> set format_literals" for l
  proof -
    have "text_at s bs k (literal s l) (chars l)" using that r'(4) c(8) by blast
    then show ?thesis
      using lits [OF that] heap(3) keep cstring_cong [of "chars l" "mem s'" "literal s l" "mem s"]
      by (simp add: text_at_def held_string_def cb len)
  qed
  have "held_byte s bs x" if "in_range VIDEO_MEMORY 4000 x" for x
    using that c(2) by (simp add: console_bytes_def screen_bytes_def in_range_def)
  then have "cells_of (mem s') = cells_of (mem s)" using keep video by (intro cells_of_cong) blast
  then have "displays s' v" using r'(2) only(2) by (simp add: displays_def cursor_is_def)
  moreover have "console_ok s' bs' k" unfolding console_ok_def cb f using heap c strs by (simp add: f slot_ok_def)
  ultimately show ?thesis using heap(2) r'(3) strs by (simp add: ready_def f)
qed

text \<open>Formatting into a string that is kept: the console stays ready, with less heap.\<close>

lemma call_format_ready:
  fixes s :: "'a kernel_state_scheme"
  assumes r: "ready s bs k (N + format_budget (length l) n) L v" and l: "l \<in> L" and k: "length args \<le> k"
    and msg: "message_ok txt s bs args (chars l) 0" and xs: "length l + 3 < 2 ^ 31"
  defines "out \<equiv> message_text (fp_unit s) txt args (chars l)"
  assumes out: "length out + 1 < 2 ^ 31" "length out \<le> n"
  obtains p s' bs' where "call_format (literal s l) args s = Inr (p, s')" and "p \<noteq> nullptr" and "s' = s\<lparr>mem := mem s'\<rparr>"
    and "ready s' bs' k N L v" and "text_at s' bs' k p out"
proof -
  have r': "console_ok s bs k" "reserve s bs (N + format_budget (length l) n)" "displays s v"
    "interruption_handlers s 48 = Some Screen_callback" "\<And>l. l \<in> L \<Longrightarrow> text_at s bs k (literal s l) (chars l)"
    using r by (auto simp: ready_def)
  note c = console_okD [OF r'(1)]
  have len: "length (chars l) = length l" by (simp add: chars_def)
  have "reserve s bs (N + format_budget (length (chars l)) (length out))"
    by (rule reserve_mono [OF r'(2)]) (use format_budget_mono [OF order_refl out(2), of "length l"] in \<open>simp add: len\<close>)
  then obtain p s0 s1 bs1 where f: "call_format (literal s l) args s = Inr (p, s1)" "heap_ok s0 bs" "s0 = s\<lparr>mem := mem s0\<rparr>"
    "\<And>x. held_byte s0 bs x \<longleftrightarrow> held_byte s bs x"
    "\<And>x. \<not> in_range (format_frame s + 8) (4 * (length args + 1)) x \<Longrightarrow> mem s0 x = mem s x"
    and made: "made s0 bs p (of_nat (length out + 1)) s1 bs1" and N1: "reserve s1 bs1 N" and str: "cstring (mem s1) p out"
    by (rule_tac call_format_made [OF console_ok_mono [OF r'(1) k] text_at_mono [OF r'(5) [OF l] k] msg, of N])
      (use xs out len in \<open>auto simp: out_def\<close>)
  note md = madeD [OF made]
  have s1: "s1 = s\<lparr>mem := mem s1\<rparr>" by (rule mem_only_trans [OF f(3) md(5)])
  note f1 = output_only_fields [OF mem_only [OF s1]]
  have sz: "unat (of_nat (length out + 1) :: u_dword) = length out + 1" using out(1) by (intro unat_of_nat32) simp
  have cb: "console_bytes s1 k x \<longleftrightarrow> console_bytes s k x" for x by (simp add: console_bytes_def call_bytes_def screen_bytes_def f1)
  let ?W = "in_range (format_frame s + 8) (4 * (length args + 1))"
  have frame: "console_bytes s k x" "\<not> in_range VIDEO_MEMORY 4000 x" if "?W x" for x
    using that k c(3) by (fastforce simp: console_bytes_def in_range_def)+
  have "\<not> ?W (literal s l' + of_nat i)" if "l' \<in> L \<union> set format_literals" "i \<le> length l'" for l' i
  proof -
    have "text_at s bs k (literal s l') (chars l')" using that(1) r'(5) c(8) by blast
    then show ?thesis using that(2) frame(1) by (fastforce simp: text_at_def chars_def)
  qed
  moreover have "io_trace s1 = io_trace s" by (subst s1) simp
  ultimately have "ready s1 bs1 k N L v"
    using md(1,6,8) N1 f(4,5) frame(2) by (intro ready_transfer [OF r output_io_only [OF mem_only [OF s1]], where W = ?W]) simp_all
  moreover have "text_at s1 bs1 k p out"
  proof -
    have "in_range p (length out + 1) (p + of_nat i)" if "i \<le> length out" for i
      using that out(1) by (subst in_range_offset) simp_all
    then have "\<not> console_bytes s k (p + of_nat i)" if "i \<le> length out" for i
      using that md(7) f(4) c(2) unfolding sz by blast
    then show ?thesis using made_holds [OF made str, unfolded sz] by (simp add: text_at_def cb)
  qed
  ultimately show thesis using that [OF f(1) md(3) s1] by blast
qed

text \<open>One line of output; the strings in memory survive it.\<close>

lemma text_line:
  fixes s :: "'a kernel_state_scheme"
  assumes r: "ready s bs k N L v" and l: "l \<in> L" "length l \<le> w" and k: "length args \<le> k"
    and msg: "message_ok txt s bs args (chars l) 0" and out: "message_text (fp_unit s) txt args (chars l) = out" "length out \<le> n" "8 \<notin> set out"
    and n: "n < 2 ^ 30" "w < 2 ^ 30" and N: "32 + format_budget w n \<le> N"
  obtains s' where "print_literal font (interrupt (Suc d)) l args s = Inr ((), s')" and "output_only s s'"
    and "ready s' bs k N L (spec_show font BLACK out v)" and "\<And>p xs. text_at s bs k p xs \<Longrightarrow> text_at s' bs k p xs"
    and "\<And>x. held_byte s bs x \<Longrightarrow> \<not> console_bytes s k x \<Longrightarrow> mem s' x = mem s x"
    and "\<And>x. held_byte s' bs x \<longleftrightarrow> held_byte s bs x"
proof -
  have "32 + format_budget (length l) (length out) \<le> N"
    using N format_budget_mono [OF l(2) out(2)] by simp
  then obtain s' where s': "print_literal font (interrupt (Suc d)) l args s = Inr ((), s')" "output_only s s'"
    "ready s' bs k N L (spec_show font BLACK out v)" "heap_area s' = heap_area s"
    "\<And>x. held_byte s bs x \<Longrightarrow> \<not> console_bytes s k x \<Longrightarrow> mem s' x = mem s x"
    using l n out by (rule_tac print_literal_ready [OF r l(1) k msg, of font d, unfolded out(1)]) auto
  have ok: "console_ok s bs k" "heap_ok s' bs" using r s'(3) by (auto simp: ready_def console_ok_def)
  have held: "held_byte s' bs x \<longleftrightarrow> held_byte s bs x" for x
    using s'(4) by (simp add: held_byte_def usable_end_def heap_area_def)
  then have "text_at s' bs k p xs" if "text_at s bs k p xs" for p xs
    using ok console_ok_frame(2) [OF _ s'(2)] s'(5) that by blast
  then show thesis using that s'(1-3,5) held by blast
qed

lemma report_line:
  fixes s :: "'a kernel_state_scheme"
  assumes "ready s bs k N L v" and "l \<in> L" and "length l \<le> 50" and "length args \<le> k" and "message_ok txt s bs args (chars l) 0"
    and "message_text (fp_unit s) txt args (chars l) = out" and "length out \<le> n" and "8 \<notin> set out" and "n < 2 ^ 30" and "32 + format_budget 50 n \<le> N"
  obtains s' where "bad (interrupt (Suc d)) l args s = Inr ((), s')" and "output_only s s'"
    and "ready s' bs k N L (spec_show HIGH_RED BLACK out v)" and "\<And>p xs. text_at s bs k p xs \<Longrightarrow> text_at s' bs k p xs"
  by (rule text_line [OF assms(1-9) _ assms(10), of HIGH_RED d]) (use that in simp_all)

lemma string_message:
  assumes "37 \<notin> set (chars pre)" and "37 \<notin> set (chars post)"
  shows "message_text fp txt [p] (chars (pre @ ''%s'' @ post)) = chars pre @ txt p @ chars post"
    and "text_at s bs 1 p (txt p) \<Longrightarrow> length (txt p) + 1 < 2 ^ 31 \<Longrightarrow> message_ok txt s bs [p] (chars (pre @ ''%s'' @ post)) 0"
proof -
  have d: "chars ''%s'' = [37, 115]" by (simp add: chars_def of_char_def)
  have post: "spec_format fp txt arg (chars post) k = chars post" "message_ok txt s bs args (chars post) k" for arg k args
    using spec_format_prefix [of "chars post" fp "txt" arg "[]" k] message_ok_prefix [of "chars post" "txt" s bs args "[]" k] assms(2)
    by simp_all
  have r: "render txt 115 p = Some (txt p)" by (simp add: render_def of_char_def)
  show "message_text fp txt [p] (chars (pre @ ''%s'' @ post)) = chars pre @ txt p @ chars post"
    unfolding message_text_def chars_append d using assms(1) r post by (simp add: spec_format_prefix)
  show "message_ok txt s bs [p] (chars (pre @ ''%s'' @ post)) 0" if "text_at s bs 1 p (txt p)" "length (txt p) + 1 < 2 ^ 31"
    unfolding chars_append d using assms(1) post that by (simp add: message_ok_prefix directive_letters of_char_def)
qed

lemma location_message:
  shows "message_text fp (\<lambda>_. src) [p, line] (chars (''Code location: %s:%d'' @ newline)) =
      chars ''Code location: '' @ src @ chars '':'' @ number_chars DECIMAL line @ chars newline"
    and "text_at s bs 2 p src \<Longrightarrow> length src + 1 < 2 ^ 31 \<Longrightarrow> line \<noteq> 0x80000000 \<Longrightarrow>
      message_ok (\<lambda>_. src) s bs [p, line] (chars (''Code location: %s:%d'' @ newline)) 0"
proof -
  have c: "chars (''Code location: %s:%d'' @ newline) = chars ''Code location: '' @ [37, 115, 58, 37, 100, 10]"
    by (simp add: chars_def of_char_def)
  have p: "37 \<notin> set (chars ''Code location: '')" by (simp add: chars_def of_char_def)
  have d: "render txt 100 n = Some (number_chars DECIMAL n)" "render txt 115 q = Some (txt q)" for "txt" n q
    by (simp_all add: render_def of_char_def)
  show "message_text fp (\<lambda>_. src) [p, line] (chars (''Code location: %s:%d'' @ newline)) =
      chars ''Code location: '' @ src @ chars '':'' @ number_chars DECIMAL line @ chars newline"
    unfolding message_text_def c using p by (simp add: spec_format_prefix d) (simp add: chars_def of_char_def)
  show "message_ok (\<lambda>_. src) s bs [p, line] (chars (''Code location: %s:%d'' @ newline)) 0"
    if "text_at s bs 2 p src" "length src + 1 < 2 ^ 31" "line \<noteq> 0x80000000"
    unfolding c using p that(1) [unfolded numeral_2_eq_2] that(2,3) by (simp add: message_ok_prefix directive_letters of_char_def)
qed

abbreviation panic_type :: string where "panic_type \<equiv> ''KERNEL PANIC''"

definition report_literals :: "string set" where
  "report_literals = {''Exception #%d!'', '' Type: %s.'' @ newline, ''Message: %s'' @ newline, ''Code location: %s:%d'' @ newline, panic_type}"

text \<open>What a panic leaves on the screen.\<close>

definition panic_text :: "u_byte list \<Rightarrow> string \<Rightarrow> u_dword \<Rightarrow> u_byte list" where
  "panic_text message src line = chars ''Exception #0!'' @ chars ('' Type: '' @ panic_type @ ''.'' @ newline) @
     (chars ''Message: '' @ message @ chars newline) @
     chars ''Code location: '' @ chars src @ chars '':'' @ number_chars DECIMAL line @ chars newline"

lemma report_templates:
  "37 \<notin> set (chars ''Exception #'')" "37 \<notin> set (chars ''!'')" "37 \<notin> set (chars '' Type: '')" "37 \<notin> set (chars (''.'' @ newline))"
  "37 \<notin> set (chars ''Message: '')" "37 \<notin> set (chars newline)"
  by (simp_all add: chars_def of_char_def)

lemma report_exception_prints:
  fixes s :: "'a kernel_state_scheme"
  assumes r: "ready s bs k N L v" and L: "report_literals \<subseteq> L" and k: "2 \<le> k"
    and exc: "exc_id e = 0" "exc_type e \<noteq> nullptr" "exc_message e \<noteq> nullptr"
      "text_at s bs k (exc_type e) (chars panic_type)" "text_at s bs k (exc_message e) out" "text_at s bs k (exc_file e) (chars src)"
      "exc_line e \<noteq> 0x80000000"
    and n: "length (panic_text out src (exc_line e)) \<le> n" "8 \<notin> set (panic_text out src (exc_line e))" "n < 2 ^ 30"
    and N: "32 + format_budget 50 n \<le> N"
  obtains s' where "report_exception (interrupt (Suc d)) e s = Inr ((), s')" and "output_only s s'"
    and "ready s' bs k N L (spec_show HIGH_RED BLACK (panic_text out src (exc_line e)) v)"
proof -
  note lits = L [unfolded report_literals_def insert_subset]
  have k1: "length [x :: u_dword] \<le> k" and k2: "length [x, y :: u_dword] \<le> k" for x y using k by simp_all
  have small: "1 \<le> k" using k by simp
  note pt = n(1,2) [unfolded panic_text_def]
  have len: "length (chars l) = length l" for l by (simp add: chars_def)
  let ?v1 = "spec_show HIGH_RED BLACK (chars ''Exception #0!'') v"
  obtain s1 where s1: "bad (interrupt (Suc d)) ''Exception #%d!'' [0] s = Inr ((), s1)" "output_only s s1" "ready s1 bs k N L ?v1"
    "\<And>p xs. text_at s bs k p xs \<Longrightarrow> text_at s1 bs k p xs"
  proof (rule report_line [OF r _ _ k1 _ _ _ _ n(3) N, of "''Exception #%d!''" "\<lambda>_. []" 0 "chars ''Exception #0!''" d])
    show "message_ok (\<lambda>_. []) s bs [0] (chars ''Exception #%d!'') 0" "message_text (fp_unit s) (\<lambda>_. []) [0] (chars ''Exception #%d!'') = chars ''Exception #0!''"
      using decimal_message(1) [OF report_templates(1,2), of "fp_unit s" "\<lambda>_. []" 0] decimal_message(2) [OF report_templates(1,2), of 0 "\<lambda>_. []" s bs] by (simp_all add: small_numbers chars_def)
  qed (use lits pt in \<open>auto simp: len\<close>)
  let ?t2 = "chars ('' Type: '' @ panic_type @ ''.'' @ newline)"
  let ?v2 = "spec_show HIGH_RED BLACK ?t2 ?v1"
  obtain s2 where s2: "bad (interrupt (Suc d)) ('' Type: %s.'' @ newline) [exc_type e] s1 = Inr ((), s2)" "output_only s1 s2" "ready s2 bs k N L ?v2"
    "\<And>p xs. text_at s1 bs k p xs \<Longrightarrow> text_at s2 bs k p xs"
  proof (rule report_line [OF s1(3) _ _ k1 _ _ _ _ n(3) N, of "'' Type: %s.'' @ newline" "\<lambda>_. chars panic_type" "exc_type e" ?t2 d])
    show "message_ok (\<lambda>_. chars panic_type) s1 bs [exc_type e] (chars ('' Type: %s.'' @ newline)) 0"
      "message_text (fp_unit s1) (\<lambda>_. chars panic_type) [exc_type e] (chars ('' Type: %s.'' @ newline)) = ?t2"
      using string_message(1) [OF report_templates(3,4), of "fp_unit s1" "\<lambda>_. chars panic_type" "exc_type e"] string_message(2) [OF report_templates(3,4), of s1 bs "exc_type e" "\<lambda>_. chars panic_type"] text_at_mono [OF s1(4) [OF exc(4)] small]
      by (simp_all add: len) (simp add: chars_def)
  qed (use lits pt in \<open>auto simp: len\<close>)
  let ?t3 = "chars ''Message: '' @ out @ chars newline"
  let ?v3 = "spec_show HIGH_RED BLACK ?t3 ?v2"
  obtain s3 where s3: "bad (interrupt (Suc d)) (''Message: %s'' @ newline) [exc_message e] s2 = Inr ((), s3)" "output_only s2 s3" "ready s3 bs k N L ?v3"
    "\<And>p xs. text_at s2 bs k p xs \<Longrightarrow> text_at s3 bs k p xs"
  proof (rule report_line [OF s2(3) _ _ k1 _ _ _ _ n(3) N, of "''Message: %s'' @ newline" "\<lambda>_. out" "exc_message e" ?t3 d])
    show "message_ok (\<lambda>_. out) s2 bs [exc_message e] (chars (''Message: %s'' @ newline)) 0"
      "message_text (fp_unit s2) (\<lambda>_. out) [exc_message e] (chars (''Message: %s'' @ newline)) = ?t3"
      using string_message(1) [OF report_templates(5,6), of "fp_unit s2" "\<lambda>_. out" "exc_message e"] string_message(2) [OF report_templates(5,6), of s2 bs "exc_message e" "\<lambda>_. out"] text_at_mono [OF s2(4) [OF s1(4) [OF exc(5)]] small] pt n(3)
      by (simp_all add: len)
  qed (use lits pt in \<open>auto simp: len\<close>)
  let ?t4 = "chars ''Code location: '' @ chars src @ chars '':'' @ number_chars DECIMAL (exc_line e) @ chars newline"
  let ?v4 = "spec_show HIGH_RED BLACK ?t4 ?v3"
  obtain s4 where s4: "bad (interrupt (Suc d)) (''Code location: %s:%d'' @ newline) [exc_file e, exc_line e] s3 = Inr ((), s4)"
    "output_only s3 s4" "ready s4 bs k N L ?v4" "\<And>p xs. text_at s3 bs k p xs \<Longrightarrow> text_at s4 bs k p xs"
  proof (rule report_line [OF s3(3) _ _ k2 _ _ _ _ n(3) N, of "''Code location: %s:%d'' @ newline" "\<lambda>_. chars src" "exc_file e" "exc_line e" ?t4 d])
    show "message_ok (\<lambda>_. chars src) s3 bs [exc_file e, exc_line e] (chars (''Code location: %s:%d'' @ newline)) 0"
      by (rule location_message(2) [OF text_at_mono [OF s3(4) [OF s2(4) [OF s1(4) [OF exc(6)]]] k]]) (use pt n(3) exc(7) in simp_all)
    show "message_text (fp_unit s3) (\<lambda>_. chars src) [exc_file e, exc_line e] (chars (''Code location: %s:%d'' @ newline)) = ?t4" by (rule location_message(1))
  qed (use lits pt in \<open>auto simp: len\<close>)
  have "report_exception (interrupt (Suc d)) e s = Inr ((), s4)"
    using s1(1) s2(1) s3(1) s4(1) exc(1-3) unfolding report_exception_def by (simp add: terminate_def del: interrupt.simps)
  moreover have "output_only s s4" using s1(2) s2(2) s3(2) s4(2) by (blast intro: output_only_trans)
  ultimately show thesis using that s4(3) by (simp add: panic_text_def)
qed

lemma panic_prints:
  fixes s :: "'a kernel_state_scheme" and line :: u_dword
  assumes r: "ready s bs k (32 + format_budget 50 n + format_budget (length message) n) L v" and L: "report_literals \<union> {message, src} \<subseteq> L"
    and k: "2 \<le> k" "length args \<le> k" and handler: "handlers s 0 = None" and type: "literal s panic_type \<noteq> nullptr"
    and msg: "message_ok txt s bs args (chars message) 0" "length message + 3 < 2 ^ 31"
  defines "out \<equiv> panic_text (message_text (fp_unit s) txt args (chars message)) src line"
  assumes n: "length out \<le> n" "8 \<notin> set out" "n < 2 ^ 30" "line \<noteq> 0x80000000"
  obtains s' where "panic (interrupt (Suc d)) src line message args s = Inl (Hang s')" and "output_only s s'"
    and "displays s' (spec_show HIGH_RED BLACK out v)"
proof -
  let ?m = "message_text (fp_unit s) txt args (chars message)"
  have m: "length ?m \<le> n" "length ?m + 1 < 2 ^ 31" using n by (simp_all add: out_def panic_text_def)
  have in_L: "message \<in> L" "src \<in> L" "panic_type \<in> L" using L by (auto simp: report_literals_def)
  obtain p s1 bs1 where f: "call_format (literal s message) args s = Inr (p, s1)" "p \<noteq> nullptr" "s1 = s\<lparr>mem := mem s1\<rparr>"
    "ready s1 bs1 k (32 + format_budget 50 n) L v" "text_at s1 bs1 k p ?m"
    by (rule call_format_ready [OF r in_L(1) k(2) msg m(2,1)])
  have lit: "literal s1 = literal s" "handlers s1 = handlers s" by (subst f(3), simp)+
  have texts: "text_at s1 bs1 k (literal s l) (chars l)" if "l \<in> L" for l using f(4) that by (simp add: ready_def lit)
  let ?e = "\<lparr>exc_id = 0, exc_type = literal s panic_type, exc_message = p, exc_file = literal s src, exc_line = line\<rparr>"
  obtain s2 where s2: "report_exception (interrupt (Suc d)) ?e s1 = Inr ((), s2)" "output_only s1 s2"
    "ready s2 bs1 k (32 + format_budget 50 n) L (spec_show HIGH_RED BLACK out v)"
    unfolding out_def
    by (rule report_exception_prints [OF f(4) _ k(1), where e = ?e and out = ?m and src = src and n = n and d = d])
      (use L type f(2,5) texts in_L n in \<open>simp_all add: out_def\<close>)
  have "panic (interrupt (Suc d)) src line message args s = Inl (Hang s2)"
    unfolding panic_def using f(1) s2(1) handler by (simp add: throw_reporting_def lit del: interrupt.simps)
  moreover have "output_only s s2" by (rule output_only_trans [OF mem_only [OF f(3)] s2(2)])
  ultimately show thesis using that s2(3) by (simp add: ready_def)
qed

section \<open>Page faults\<close>

lemma length_number_chars: "length (number_chars sys num) \<le> 35"
proof -
  have "length (chars (system_prefix sys)) \<le> 2" by (cases sys) (simp_all add: chars_def)
  then show ?thesis using length_magnitude(1) [of sys num] by (simp add: number_chars_def chars_def)
qed

lemma number_chars_plain: "8 \<notin> set (number_chars sys num)"
proof -
  have "8 \<notin> set (numeral_chars sys n)" for n
  proof
    assume "8 \<in> set (numeral_chars sys n)"
    then obtain d where d: "d \<in> set (digits (base sys) n)" "(8 :: u_byte) = (if d < 10 then of_nat (48 + d) else of_nat (55 + d))"
      by (auto simp: numeral_chars_def)
    have "d < 16" using digits_less [OF base_bounds(1) d(1)] base_bounds(2) [of sys] by simp
    then have u: "unat (of_nat (48 + d) :: u_byte) = 48 + d" "unat (of_nat (55 + d) :: u_byte) = 55 + d"
      by (simp_all add: unat_of_nat del: of_nat_add)
    have "unat (8 :: u_byte) = unat (if d < 10 then of_nat (48 + d) else of_nat (55 + d) :: u_byte)" by (rule arg_cong [OF d(2)])
    then show False using u by (simp split: if_splits del: of_nat_add)
  qed
  moreover have "8 \<notin> set (chars (system_prefix sys))" by (cases sys) (simp_all add: chars_def of_char_def)
  ultimately show ?thesis by (simp add: number_chars_def magnitude_chars_def chars_def of_char_def)
qed

definition fault_text :: "u_dword \<Rightarrow> addr \<Rightarrow> u_dword \<Rightarrow> u_byte list" where
  "fault_text err address eip = chars ''Page fault! (p: '' @ number_chars DECIMAL (err AND 1) @ chars '', w: '' @
     number_chars DECIMAL (err AND 2) @ chars '', u: '' @ number_chars DECIMAL (err AND 4) @ chars '', r: '' @
     number_chars DECIMAL (err AND 8) @ chars '') at '' @ number_chars HEXADECIMAL address @ chars '' (EIP: '' @
     number_chars HEXADECIMAL eip @ chars '')''"

lemma fault_message_text:
  "message_text fp (\<lambda>_. []) [err AND 1, err AND 2, err AND 4, err AND 8, address, eip] (chars fault_message) = fault_text err address eip"
  "address \<noteq> 0x80000000 \<Longrightarrow> eip \<noteq> 0x80000000 \<Longrightarrow>
    message_ok (\<lambda>_. []) s bs [err AND 1, err AND 2, err AND 4, err AND 8, address, eip] (chars fault_message) 0"
proof -
  let ?args = "[err AND 1, err AND 2, err AND 4, err AND 8, address, eip]"
  have c: "chars fault_message = chars ''Page fault! (p: '' @ 37 # 100 # chars '', w: '' @ 37 # 100 # chars '', u: '' @ 37 # 100 #
      chars '', r: '' @ 37 # 100 # chars '') at '' @ 37 # 104 # chars '' (EIP: '' @ 37 # 104 # chars '')''"
    by (simp add: chars_def of_char_def)
  have p: "37 \<notin> set (chars ''Page fault! (p: '')" "37 \<notin> set (chars '', w: '')" "37 \<notin> set (chars '', u: '')" "37 \<notin> set (chars '', r: '')"
    "37 \<notin> set (chars '') at '')" "37 \<notin> set (chars '' (EIP: '')"
    by (simp_all add: chars_def of_char_def)
  have d: "render txt 100 n = Some (number_chars DECIMAL n)" "render txt 104 n = Some (number_chars HEXADECIMAL n)" "directive 104" for "txt" n
    by (simp_all add: render_def directive_def chars_def of_char_def)
  have e: "spec_format fp txt arg (chars '')'') k = chars '')''" "message_ok txt s bs args (chars '')'') k" for "txt" arg args k
    by (simp_all add: chars_def)
  show "message_text fp (\<lambda>_. []) ?args (chars fault_message) = fault_text err address eip"
    unfolding message_text_def c fault_text_def by (simp add: spec_format_prefix p d e)
  have mask: "x AND k \<noteq> 0x80000000" if "0x80000000 AND k = 0" for x k :: u_dword
  proof
    assume x: "x AND k = 0x80000000"
    have "(x AND k) AND k = x AND k" by (simp add: and.assoc)
    with that show False unfolding x by simp
  qed
  show "message_ok (\<lambda>_. []) s bs ?args (chars fault_message) 0" if "address \<noteq> 0x80000000" "eip \<noteq> 0x80000000"
    unfolding c using that by (simp add: message_ok_prefix p d directive_letters e of_char_def mask)
qed

lemma fault_report:
  fixes err address eip :: u_dword
  defines "r \<equiv> panic_text (fault_text err address eip) ''./core/kernel/pages.c'' 189"
  shows "length r \<le> 500" and "8 \<notin> set r"
proof -
  note l = length_number_chars [of DECIMAL "err AND 1"] length_number_chars [of DECIMAL "err AND 2"] length_number_chars [of DECIMAL "err AND 4"]
    length_number_chars [of DECIMAL "err AND 8"] length_number_chars [of HEXADECIMAL address] length_number_chars [of HEXADECIMAL eip]
    length_number_chars [of DECIMAL 189]
  have len: "length (chars x) = length x" for x by (simp add: chars_def)
  show "length r \<le> 500" unfolding r_def panic_text_def fault_text_def using l by (simp add: len)
  show "8 \<notin> set r"
    unfolding r_def panic_text_def fault_text_def set_append by (simp add: number_chars_plain) (simp add: chars_def of_char_def)
qed

lemma page_fault_prints:
  fixes s :: "'a kernel_state_scheme"
  assumes r: "ready s bs 6 N L v" and N: "300000 \<le> N" and L: "report_literals \<union> {fault_message, ''./core/kernel/pages.c''} \<subseteq> L"
    and h: "handlers s 0 = None" and type: "literal s panic_type \<noteq> nullptr" and min: "cr2 s \<noteq> 0x80000000" "regs_eip regs \<noteq> 0x80000000"
  obtains s' where "page_fault (interrupt (Suc d)) regs s = Inl (Hang s')" and "output_only s s'"
    and "displays s' (spec_show HIGH_RED BLACK
      (panic_text (fault_text (regs_err_code regs) (cr2 s) (regs_eip regs)) ''./core/kernel/pages.c'' 189) v)"
proof -
  let ?e = "regs_err_code regs"
  have "32 + format_budget 50 500 + format_budget (length fault_message) 500 \<le> N" using N by (simp add: format_budget_def)
  then have r': "ready s bs 6 (32 + format_budget 50 500 + format_budget (length fault_message) 500) L v"
    using r reserve_mono unfolding ready_def by blast
  have six: "length [?e AND 1, ?e AND 2, ?e AND 4, ?e AND 8, cr2 s, regs_eip regs] \<le> 6" "length fault_message + 3 < 2 ^ 31" "500 < (2 :: nat) ^ 30" "2 \<le> (6 :: nat)" "189 \<noteq> (0x80000000 :: u_dword)"
    by simp_all
  show thesis
    by (rule panic_prints [OF r' L six(4,1) h type fault_message_text(2) [OF min] six(2), unfolded fault_message_text(1), OF fault_report six(3,5), of d])
      (use that in \<open>simp add: page_fault_def Let_def del: interrupt.simps\<close>)
qed

section \<open>Properties of dispatch\<close>

text \<open>
  (C12) The timer interrupt is the switch of the abstract scheduler: through its gate, entry point and handler, it
  acknowledges the controller, counts the tick, saves the registers of the running task in its context,
  leaves all other contexts and all other memory alone, and continues at the saved instruction of the next
  task in cyclic order, with its registers and its address space.
\<close>

theorem timer_interrupt_switches:
  fixes s :: "'a kernel_state_scheme"
  assumes "task_queue s ts" and "i < length ts" and "current_task s = ts ! i" and "switch_eip s \<noteq> switched_mark"
    and "interruption_handlers s 32 = Some Timer_callback"
    and "spec_switch (cpu_esp s) (cpu_ebp s) (switch_eip s) (map (context_of (mem s)) ts, i) = (cs, k)"
  shows "\<exists>s'. interrupt (Suc d) 32 regs s = Inr (Jump (ctx_eip (cs ! k)), s') \<and> task_queue s' ts \<and>
    map (context_of (mem s')) ts = cs \<and> current_task s' = ts ! k \<and> io_trace s' = Out 0x20 0x20 # io_trace s \<and>
    tick s' = tick s + 1 \<and> cpu_esp s' = ctx_esp (cs ! k) \<and> cpu_ebp s' = ctx_ebp (cs ! k) \<and> cr3 s' = ctx_dir (cs ! k) \<and>
    int_flag s' \<and> (\<forall>x. \<not> in_task ts x \<longrightarrow> mem s' x = mem s x)"
proof -
  let ?s = "port_byte_out 0x20 0x20 s"
  have f: "mem ?s = mem s" "ready_queue ?s = ready_queue s" "io_trace ?s = Out 0x20 0x20 # io_trace s" "tick ?s = tick s"
    by (simp_all add: port_byte_out_def)
  have q: "task_queue ?s ts" by (rule task_queue_frame [OF assms(1)]) (simp_all add: f)
  show ?thesis
    unfolding int_32 [OF assms(5)]
    by (rule timer_callback_switches [OF q assms(2), of cs k, unfolded f]) (use assms(3,4,6) in \<open>auto simp: port_byte_out_def\<close>)
qed

text \<open>The first tick after start-up: the child continues in \<^verbatim>\<open>fork\<close>, in its own address space.\<close>

theorem timer_interrupt_switches_witness:
  "\<exists>s s' t u. kernel_start ''Jan 01 2021'' ''12:00:00'' boot_demo = Inr ((), s) \<and> current_task s = t \<and> task_id (mem s) t = 0 \<and>
    interrupt (Suc 0) 32 (cpu s) s = Inr (Jump 0x9000, s') \<and> current_task s' = u \<and> cr3 s' = 0x105000 \<and>
    cpu_esp s' = 0x6e00 \<and> cpu_ebp s' = 0x6e80"
proof -
  obtain s t u where k: "kernel_start ''Jan 01 2021'' ''12:00:00'' boot_demo = Inr ((), s)" "task_queue s [t, u]" "current_task s = t"
    "task_id (mem s) t = 0"
    "context_of (mem s) u = \<lparr>ctx_esp = cpu_esp boot_demo, ctx_ebp = cpu_ebp boot_demo, ctx_eip = fork_eip boot_demo, ctx_dir = table_frame 5\<rparr>"
    "switch_eip s = switch_eip boot_demo"
    "interruption_handlers s = (setup_handlers (interruption_handlers boot_demo))(14 \<mapsto> Page_fault)"
    by (rule kernel_start_state [OF boot_demo_layout boot_demo_displays boot_demo_start subset_insertI insertI1 demo_dates boot_demo_registers(1)]) blast+
  have f: "cpu_esp boot_demo = 0x6e00" "cpu_ebp boot_demo = 0x6e80" "fork_eip boot_demo = 0x9000"
    by (simp_all add: boot_demo_def set_cursor_offset_def port_byte_out_def demo_tasks_def)
  have h: "interruption_handlers s 32 = Some Timer_callback" by (simp add: k(7) setup_handlers_def)
  have e: "switch_eip s \<noteq> switched_mark" using k(6) boot_demo_registers(2) by simp
  have i: "0 < length [t, u]" "current_task s = [t, u] ! 0" using k(3) by simp_all
  define cs where "cs = [(context_of (mem s) t)\<lparr>ctx_esp := cpu_esp s, ctx_ebp := cpu_ebp s, ctx_eip := switch_eip s\<rparr>, context_of (mem s) u]"
  have sp: "spec_switch (cpu_esp s) (cpu_ebp s) (switch_eip s) (map (context_of (mem s)) [t, u], 0) = (cs, 1)"
    by (simp add: spec_switch_def cs_def)
  have u: "cs ! 1 = \<lparr>ctx_esp = 0x6e00, ctx_ebp = 0x6e80, ctx_eip = 0x9000, ctx_dir = 0x105000\<rparr>"
    by (simp add: cs_def k(5) f first_frames)
  from timer_interrupt_switches [OF k(2) i e h sp, of 0 "cpu s", unfolded u] show ?thesis using k(1,3,4) by auto
qed

text \<open>
  (C14) A vector without an entry point of its own is not harmless: each of the vectors 53 to 255 prints the message for an
  undefined interrupt and then, as its entry point pushes the number 32, runs the timer's handler: the tick is
  counted and the running task switched out, just as if the timer had struck.
\<close>

theorem unknown_vector_runs_timer:
  fixes s :: "'a kernel_state_scheme"
  assumes "running s bs N L v" and "40000 \<le> N" and "unknown_message \<in> L" and "52 < n"
    and "task_queue s ts" and "\<And>u. u \<in> set ts \<Longrightarrow> (u, 24) \<in> set bs" and "i < length ts" and "current_task s = ts ! i"
    and "switch_eip s \<noteq> switched_mark" and "interruption_handlers s 32 = Some Timer_callback"
    and "spec_switch (cpu_esp s) (cpu_ebp s) (switch_eip s) (map (context_of (mem s)) ts, i) = (cs, k)"
  shows "\<exists>s'. interrupt (Suc (Suc d)) n regs s = Inr (Jump (ctx_eip (cs ! k)), s') \<and>
    displays s' (spec_show HIGH_RED BLACK (chars unknown_message) v) \<and> tick s' = tick s + 1 \<and>
    task_queue s' ts \<and> map (context_of (mem s')) ts = cs \<and> current_task s' = ts ! k"
proof -
  have "in_payload bs x" if "in_task ts x" for x
  proof -
    from that obtain u where "u \<in> set ts" "in_range u 24 x" by (auto simp: in_task_def)
    then show ?thesis using assms(6) [of u] by (force simp: in_payload_def)
  qed
  then have apart: "held_byte s bs x \<and> \<not> console_bytes s 2 x" if "in_task ts x" for x using that quiet_byte [OF assms(1)] by blast
  show ?thesis
    by (rule unknown_vector_switch [OF runningD(1) [OF assms(1)] assms(3,2,4,5,7-10) apart assms(11), of d regs]) blast+
qed

text \<open>The kernel task of the boot image, alone in the queue, hit by vector 200.\<close>

theorem unknown_vector_runs_timer_witness:
  "\<exists>s s'. boot_until_fork ''Jan 01 2021'' ''12:00:00'' boot_demo = Inr ((), s) \<and>
    interrupt (Suc (Suc 0)) 200 (cpu s) s = Inr (Jump 0x8000, s') \<and> tick s' = tick s + 1 \<and>
    displays s' (spec_show HIGH_RED BLACK (chars unknown_message) (spec_show HIGH_BLUE BLACK (handler_text ''14'')
      (boot_screen ''Jan 01 2021'' ''12:00:00'' (replicate 2000 (0, 0), 0))))"
proof -
  let ?L = "insert unknown_message (boot_literals ''Jan 01 2021'' ''12:00:00'')"
  have lits: "boot_text boot_demo l" if "l \<in> ?L \<union> set format_literals" for l
    using that by (intro boot_demo_text) (auto simp: boot_literals_def image_texts_def)
  obtain s bs t where b: "boot_until_fork ''Jan 01 2021'' ''12:00:00'' boot_demo = Inr ((), s)"
      "running s bs (0x60000 - 8152 - 36) ?L (spec_show HIGH_BLUE BLACK (handler_text ''14'')
        (boot_screen ''Jan 01 2021'' ''12:00:00'' (replicate 2000 (0, 0), 0)))"
      "(t, 24) \<in> set bs" "task_queue s [t]" "current_task s = t" "switch_eip s = switch_eip boot_demo"
      "interruption_handlers s = (setup_handlers (interruption_handlers boot_demo))(14 \<mapsto> Page_fault)"
    by (rule boot_until_fork_running [OF boot_demo_layout boot_demo_displays lits subset_insertI demo_dates]) blast+
  have N: "40000 \<le> (0x60000 - 8152 - 36 :: nat)" "52 < (200 :: nat)" by simp_all
  have blk: "(u, 24) \<in> set bs" if "u \<in> set [t]" for u using that b(3) by simp
  have i: "0 < length [t]" "current_task s = [t] ! 0" using b(5) by simp_all
  have eip: "switch_eip s = 0x8000" using b(6) by (simp add: boot_demo_def set_cursor_offset_def port_byte_out_def demo_tasks_def)
  then have e: "switch_eip s \<noteq> switched_mark" by (simp add: switched_mark_def)
  have h: "interruption_handlers s 32 = Some Timer_callback" by (simp add: b(7) setup_handlers_def)
  define cs where "cs = [(context_of (mem s) t)\<lparr>ctx_esp := cpu_esp s, ctx_ebp := cpu_ebp s, ctx_eip := switch_eip s\<rparr>]"
  have sp: "spec_switch (cpu_esp s) (cpu_ebp s) (switch_eip s) (map (context_of (mem s)) [t], 0) = (cs, 0)"
    by (simp add: spec_switch_def cs_def)
  have "ctx_eip (cs ! 0) = 0x8000" by (simp add: cs_def eip)
  with unknown_vector_runs_timer [OF b(2) N(1) insertI1 N(2) b(4) blk i e h sp, of 0 "cpu s"] b(1) show ?thesis by auto
qed

text \<open>
  (C13) A page fault is fatal and says so: with its handler registered and the console in use, the interrupt prints the
  report of the panic, in red, with the bits of the error code, the faulting address and the instruction, and
  never returns. (An address 0x80000000 is left out: the formatter negates it as a signed number, which C leaves undefined.)
\<close>

theorem page_fault_reports:
  fixes s :: "'a kernel_state_scheme"
  assumes "ready s bs 6 N L v" and "300000 \<le> N" and "report_literals \<union> {fault_message, ''./core/kernel/pages.c''} \<subseteq> L"
    and "handlers s 0 = None" and "literal s panic_type \<noteq> nullptr" and "interruption_handlers s 14 = Some Page_fault"
    and "cr2 s \<noteq> 0x80000000" and "regs_eip regs \<noteq> 0x80000000"
  shows "\<exists>s'. interrupt (Suc (Suc d)) 14 regs s = Inl (Hang s') \<and> output_only s s' \<and>
    displays s' (spec_show HIGH_RED BLACK
      (panic_text (fault_text (regs_err_code regs) (cr2 s) (regs_eip regs)) ''./core/kernel/pages.c'' 189) v)"
proof -
  let ?regs = "regs\<lparr>regs_int_no := 14\<rparr>"
  have "interrupt (Suc (Suc d)) 14 regs s = isr_handler (interrupt (Suc d)) ?regs s" by (subst interrupt.simps(2)) (simp add: gate_stub_def)
  also have "\<dots> = page_fault (interrupt (Suc d)) ?regs s"
    using assms(6) by (simp add: isr_handler_def call_handler_def del: interrupt.simps)
  finally show ?thesis using assms(7,8) by (rule_tac page_fault_prints [OF assms(1-5), of ?regs d]) auto
qed

text \<open>A console with room for more arguments in the frame of \<^verbatim>\<open>format\<close>.\<close>

lemma ready_widen:
  fixes s :: "'a kernel_state_scheme"
  assumes r: "ready s bs j N L v" and k: "k < 2 ^ 29"
    and frame: "\<And>x. in_range (format_frame s + 8) (4 * (k + 1)) x \<Longrightarrow> held_byte s bs x \<and> \<not> in_range VIDEO_MEMORY 4000 x"
    and lits: "\<And>l i. l \<in> L \<union> set format_literals \<Longrightarrow> i \<le> length l \<Longrightarrow> \<not> in_range (format_frame s + 8) (4 * (k + 1)) (literal s l + of_nat i)"
  shows "ready s bs k N L v"
proof -
  have len: "length (chars l) = length l" for l by (simp add: chars_def)
  have t: "text_at s bs k (literal s l) (chars l)" if "l \<in> L \<union> set format_literals" for l
    using r lits [OF that] that unfolding ready_def console_ok_def text_at_def console_bytes_def len by blast
  have b: "held_byte s bs x" if "console_bytes s k x" for x
    using that r frame unfolding ready_def console_ok_def console_bytes_def by blast
  have c: "\<not> in_range VIDEO_MEMORY 4000 x" if "call_bytes s 5 x" for x using that r unfolding ready_def console_ok_def by blast
  have "console_ok s bs k" using r b c frame k t unfolding ready_def console_ok_def by blast
  then show ?thesis using r t unfolding ready_def by blast
qed

text \<open>The boot image, with the screen driver and the page fault handler registered.\<close>

abbreviation fault_literals :: "string set" where
  "fault_literals \<equiv> report_literals \<union> {fault_message, ''./core/kernel/pages.c''}"

lemma early_setup_handlers: "early_setup boot_demo = Inr ((), s) \<Longrightarrow> handlers s 0 = None"
  by (rule init_interruptions_only [of "initialize_kernel_heap_handler (initialize_heap kernel_heap_start kernel_heap_size boot_demo)"])
    (auto simp: early_setup_def init_timer_def kernel_timer_step_def put_handler_def port_byte_out_def Let_def initialize_kernel_heap_handler_def
      initialize_heap_def handle_exceptions_def set_first_address_def allocation_exception_id_def boot_demo_def set_cursor_offset_def demo_tasks_def)

lemma early_setup_cpu: "early_setup boot_demo = Inr ((), s) \<Longrightarrow> cr2 s = 0 \<and> regs_eip (cpu s) = 0 \<and> header s = 0x50000"
  by (rule init_interruptions_only [of "initialize_kernel_heap_handler (initialize_heap kernel_heap_start kernel_heap_size boot_demo)"])
    (auto simp: early_setup_def init_timer_def kernel_timer_step_def put_handler_def port_byte_out_def Let_def initialize_kernel_heap_handler_def
      initialize_heap_def handle_exceptions_def set_first_address_def allocation_exception_id_def boot_demo_def set_cursor_offset_def demo_tasks_def
      kernel_heap_start_def)

lemma demo_wide_ready:
  assumes L: "L \<subseteq> set image_texts"
  obtains s where "early_setup boot_demo = Inr ((), s)" and "literal s = image_literal"
    and "ready (put_handler 48 Screen_callback s) [] 6 0x60000 L (replicate 2000 (0, 0), 0)"
proof -
  have "set format_literals \<subseteq> set image_texts" unfolding image_texts_def set_append by blast
  then have lits: "l \<in> set image_texts" if "l \<in> L \<union> set format_literals" for l using that L by blast
  then have "boot_text boot_demo l" if "l \<in> L \<union> set format_literals" for l using that boot_demo_text by blast
  then obtain s where s: "early_setup boot_demo = Inr ((), s)" "ready (put_handler 48 Screen_callback s) [] 2 0x60000 L (replicate 2000 (0, 0), 0)"
    "heap_area s = (0x50000, 0x5000c, 0xd0000)" "boot_fields s = boot_fields boot_demo"
    by (rule early_ready [OF boot_demo_layout _ boot_demo_displays]) blast+
  let ?s = "put_handler 48 Screen_callback s"
  have f: "literal ?s = image_literal" "format_frame ?s = 0x5000" "literal s = image_literal"
    using s(4) by (simp_all add: boot_fields_def boot_demo_fields) (simp_all add: put_handler_def)
  have area: "heap_area ?s = (0x50000, 0x5000c, 0xd0000)" using s(3) by (simp add: put_handler_view)
  have "ready ?s [] 6 0x60000 L (replicate 2000 (0, 0), 0)"
  proof (rule ready_widen [OF s(2)], unfold f)
    show "held_byte ?s [] x \<and> \<not> in_range VIDEO_MEMORY 4000 x" if "in_range (0x5000 + 8) (4 * (6 + 1)) x" for x
      using that area by (simp add: in_range_linear held_byte_def heap_area_def VIDEO_MEMORY_def)
    show "\<not> in_range (0x5000 + 8) (4 * (6 + 1)) (image_literal l + of_nat i)" if "l \<in> L \<union> set format_literals" "i \<le> length l" for l i
      using image_address(1) [OF lits [OF that(1)], of i] image_texts_short [OF lits [OF that(1)]] that(2) by (simp add: in_range_linear)
  qed simp
  then show thesis using that s(1) f(3) by blast
qed

lemma fault_literals_placed: "fault_literals \<subseteq> set image_texts"
  by (auto simp: report_literals_def image_texts_def)

theorem page_fault_reports_witness:
  "\<exists>s s'. early_setup boot_demo = Inr ((), s) \<and>
    interrupt (Suc (Suc 0)) 14 ((cpu s)\<lparr>regs_err_code := 2\<rparr>) (put_handler 14 Page_fault (put_handler 48 Screen_callback s)) = Inl (Hang s') \<and>
    displays s' (spec_show HIGH_RED BLACK (panic_text (fault_text 2 (cr2 s) (regs_eip (cpu s))) ''./core/kernel/pages.c'' 189) (replicate 2000 (0, 0), 0))"
proof -
  obtain s where s: "early_setup boot_demo = Inr ((), s)" "literal s = image_literal"
    and r0: "ready (put_handler 48 Screen_callback s) [] 6 0x60000 fault_literals (replicate 2000 (0, 0), 0)"
    by (rule demo_wide_ready [OF fault_literals_placed])
  let ?s = "put_handler 14 Page_fault (put_handler 48 Screen_callback s)"
  have r: "ready ?s [] 6 0x60000 fault_literals (replicate 2000 (0, 0), 0)" by (rule ready_put_handler [OF r0]) simp
  have "panic_type \<in> set image_texts" by (simp add: image_texts_def)
  from image_address(1) [OF this, of 0] have "image_literal panic_type \<noteq> nullptr" by auto
  moreover have "literal ?s = literal s" "handlers ?s = handlers s" "cr2 ?s = cr2 s" by (simp_all add: put_handler_def)
  moreover have "interruption_handlers ?s 14 = Some Page_fault" by (simp add: put_handler_def)
  ultimately show ?thesis
    using page_fault_reports [OF r _ order_refl, where d = 0 and regs = "(cpu s)\<lparr>regs_err_code := 2\<rparr>"] early_setup_handlers [OF s(1)] early_setup_cpu [OF s(1)] s by auto
qed

end
