(* ===== verification/Disk.thy ===== *)
theory Disk
  imports Screen
begin

text \<open>
  The disk routine, \<^verbatim>\<open>core/drivers/disk.asm\<close>: it programs the drive, polls its status register and moves words from the
  data port into memory. The drive is part of the device; what it promises is stated on the log of port traffic.
\<close>

section \<open>The routine\<close>

text \<open>
  The frame of \<^verbatim>\<open>pusha\<close>, as bytes from \<^verbatim>\<open>esp\<close> on. It is kept apart from the memory, as only the routine itself refers
  to it. \<^verbatim>\<open>popa\<close> skips the slot of \<^verbatim>\<open>esp\<close>.
\<close>

datatype reg = EDI | ESI | EBP | ESP | EBX | EDX | ECX | EAX

primrec reg_slot :: "reg \<Rightarrow> addr" where
  "reg_slot EDI = 0"
| "reg_slot ESI = 4"
| "reg_slot EBP = 8"
| "reg_slot ESP = 12"
| "reg_slot EBX = 16"
| "reg_slot EDX = 20"
| "reg_slot ECX = 24"
| "reg_slot EAX = 28"

definition pusha :: "(reg \<Rightarrow> u_dword) \<Rightarrow> memory" where
  "pusha regs = fold (\<lambda>r m. store32 m (reg_slot r) (regs r)) [EAX, ECX, EDX, EBX, ESP, EBP, ESI, EDI] (\<lambda>_. 0)"

definition popa :: "memory \<Rightarrow> u_dword \<Rightarrow> reg \<Rightarrow> u_dword" where
  "popa frame esp = (\<lambda>r. if r = ESP then esp else load32 frame (reg_slot r))"

text \<open>\<^verbatim>\<open>in al, dx\<close> changes the low byte of \<^verbatim>\<open>ax\<close>.\<close>

definition set_al :: "u_word \<Rightarrow> u_byte \<Rightarrow> u_word" where
  "set_al ax al = (ax AND 0xff00) OR ucast al"

text \<open>
  \<^verbatim>\<open>.busy\<close>: poll until the busy flag is clear, or an error shows. Nothing bounds the number of polls; \<open>None\<close> is the poll
  that never ends. The value is whether the drive is ready, and \<^verbatim>\<open>ax\<close>, which holds the error code on the error paths.
\<close>

partial_function (option) poll_busy :: "u_word \<Rightarrow> 'a machine_scheme \<Rightarrow> (bool \<times> u_word \<times> 'a machine_scheme) option" where
  "poll_busy ax s =
     (let al = fst (port_byte_in 0x1f7 s); s = snd (port_byte_in 0x1f7 s); ax = set_al ax al
      in if al AND 0x80 = 0 then Some (True, ax, s)
         else if al AND 0x1 \<noteq> 0 then Some (False, port_word_in 0x1f1 s)
         else if al AND 0x20 \<noteq> 0 then Some (False, 0x10, s)
         else poll_busy ax s)"

text \<open>\<^verbatim>\<open>.ready\<close>: poll until the drive has data.\<close>

partial_function (option) poll_data :: "u_word \<Rightarrow> 'a machine_scheme \<Rightarrow> (u_word \<times> 'a machine_scheme) option" where
  "poll_data ax s =
     (let al = fst (port_byte_in 0x1f7 s); s = snd (port_byte_in 0x1f7 s); ax = set_al ax al
      in if al AND 0x8 = 0 then poll_data ax s else Some (ax, s))"

text \<open>The loops \<^verbatim>\<open>.dump_offset\<close> and \<^verbatim>\<open>.dump_remains\<close>, and \<^verbatim>\<open>rep insw\<close>, for a count of words.\<close>

primrec dump_words :: "nat \<Rightarrow> u_word \<times> 'a machine_scheme \<Rightarrow> u_word \<times> 'a machine_scheme" where
  "dump_words 0 r = r"
| "dump_words (Suc n) r = dump_words n (port_word_in 0x1f0 (snd r))"

primrec rep_insw :: "addr \<Rightarrow> nat \<Rightarrow> 'a machine_scheme \<Rightarrow> 'a machine_scheme" where
  "rep_insw edi 0 s = s"
| "rep_insw edi (Suc n) s =
     (let (w, s) = port_word_in 0x1f0 s in rep_insw (edi + 2) n (s\<lparr>mem := store16 (mem s) edi w\<rparr>))"

text \<open>
  The commands to the drive: the number of sectors is the low byte of \<open>ebx\<close>, which the code has shifted to the left by
  nine, so it is always zero.
\<close>

definition sector_count :: "u_word \<Rightarrow> u_word \<Rightarrow> u_dword" where
  "sector_count num offset =
     (let ebx = push_bit 9 (ucast num + ucast offset :: u_dword) in if ebx AND 0x1ff = 0 then ebx else ebx + 1)"

definition command_drive :: "addr \<Rightarrow> u_dword \<Rightarrow> 'a machine_scheme \<Rightarrow> 'a machine_scheme" where
  "command_drive lba ebx s =
     (let s = port_byte_out 0x1f6 (ucast (drop_bit 24 lba) OR 0xe0) s;
          s = port_byte_out 0x1f2 (ucast ebx) s;
          s = port_byte_out 0x1f3 (ucast lba) s;
          s = port_byte_out 0x1f4 (ucast (drop_bit 8 lba)) s;
          s = port_byte_out 0x1f5 (ucast (drop_bit 16 lba)) s
      in port_byte_out 0x1f7 0x20 s)"

text \<open>
  What \<^verbatim>\<open>ax\<close> holds after the last command: \<^verbatim>\<open>al\<close> is the command, the rest comes from the block address.
\<close>

definition command_ax :: "addr \<Rightarrow> u_word" where
  "command_ax lba = set_al (ucast (drop_bit 16 lba)) 0x20"

text \<open>
  The end: \<^verbatim>\<open>ax\<close> goes to \<^verbatim>\<open>[esp+14]\<close>, the registers come back from the frame, \<^verbatim>\<open>esp\<close> and \<^verbatim>\<open>ebp\<close> from the pushed \<^verbatim>\<open>ebp\<close>.
\<close>

definition disk_return :: "(reg \<Rightarrow> u_dword) \<Rightarrow> memory \<Rightarrow> u_word \<Rightarrow> reg \<Rightarrow> u_dword" where
  "disk_return caller frame ax =
     (let frame = store16 frame 14 ax;
          regs = popa frame (caller ESP - 4);
          regs = regs(ESP := regs EBP)
      in regs(EBP := caller EBP, ESP := regs ESP + 4))"

text \<open>The whole routine, from the registers the caller has to those it gets back. The drive selector is not used.\<close>

definition read_disk ::
    "(reg \<Rightarrow> u_dword) \<Rightarrow> addr \<Rightarrow> bool \<Rightarrow> u_word \<Rightarrow> u_word \<Rightarrow> addr \<Rightarrow> 'a machine_scheme \<Rightarrow>
      ('a machine_scheme, reg \<Rightarrow> u_dword) result" where
  "read_disk regs lba slave num offset buffer s =
     (let frame = pusha (regs(ESP := regs ESP - 4, EBP := regs ESP - 4));
          ebx = sector_count num offset;
          s = command_drive lba ebx s
      in case poll_busy (command_ax lba) s of
           None \<Rightarrow> Inl (Hang s)
         | Some (ready, ax, s) \<Rightarrow>
             if \<not> ready then Inr (disk_return regs frame ax, s)
             else (case poll_data ax s of
                 None \<Rightarrow> Inl (Hang s)
               | Some (ax, s) \<Rightarrow>
                   (let (ax, s) = dump_words (unat (drop_bit 1 (ucast offset :: u_dword))) (ax, s);
                        s = rep_insw buffer (unat (drop_bit 1 (ucast num :: u_dword))) s;
                        ecx = drop_bit 1 (drop_bit 9 ebx - ucast num - ucast offset);
                        (ax, s) = (if ecx = 0 then (ax, s) else (0, snd (dump_words (unat ecx) (ax, s))))
                    in Inr (disk_return regs frame ax, s))))"

text \<open>The result is stored in the slot that \<^verbatim>\<open>popa\<close> skips: the caller gets its own registers back.\<close>

lemma load32_store_apart: "4 \<le> unat (b - a) \<Longrightarrow> 4 \<le> unat (a - b) \<Longrightarrow> load32 (store32 m a v) b = load32 m b"
  by (intro load32_store32_other disjoint_by_distance)

lemma slot_distance: "q \<noteq> r \<Longrightarrow> 4 \<le> unat (reg_slot q - reg_slot r)"
  by (cases q; cases r) simp_all

lemma load32_store16_esp: "q \<noteq> ESP \<Longrightarrow> load32 (store16 m 14 ax) (reg_slot q) = load32 m (reg_slot q)"
  by (cases q) (simp_all add: load32_def store16_def)

lemma pusha_slot: "load32 (pusha regs) (reg_slot r) = regs r"
proof -
  have o: "load32 (store32 m (reg_slot q) v) (reg_slot p) = (if q = p then v else load32 m (reg_slot p))" for m q p v
    using slot_distance [of p q] slot_distance [of q p] by (auto simp: load32_store_apart)
  show ?thesis unfolding pusha_def by (cases r) (simp_all add: o del: reg_slot.simps)
qed

lemma disk_return_lost:
  "disk_return regs (pusha (regs(ESP := regs ESP - 4, EBP := regs ESP - 4))) ax = regs"
proof (rule ext)
  fix r
  show "disk_return regs (pusha (regs(ESP := regs ESP - 4, EBP := regs ESP - 4))) ax r = regs r"
    by (cases r) (simp_all add: disk_return_def Let_def popa_def load32_store16_esp pusha_slot del: reg_slot.simps)
qed

section \<open>The drive\<close>

text \<open>
  What the documentation of the drive promises, on the log of port traffic. A read command gives the block address and the number of
  sectors, zero for 256. The drive hands the sectors over one by one: before each it shows that it is busy, then that it has data, and the
  host takes the 256 words of the sector once its status has shown the data. A word beyond that, a byte read of the data port, any other
  command and any command before all sectors are taken are outside what is promised: \<open>None\<close>.
\<close>

record drive =
  drive_lba :: nat
  drive_sectors :: nat
  drive_taken :: nat
  drive_granted :: nat

definition drive_idle :: "drive \<Rightarrow> bool" where
  "drive_idle d \<longleftrightarrow> drive_taken d = 256 * drive_sectors d"

definition drive_waiting :: "drive \<Rightarrow> bool" where
  "drive_waiting d \<longleftrightarrow> drive_taken d = drive_granted d \<and> drive_taken d < 256 * drive_sectors d"

fun last_out :: "u_word \<Rightarrow> io_event list \<Rightarrow> u_byte" where
  "last_out p [] = 0"
| "last_out p (Out q v # t) = (if q = p then v else last_out p t)"
| "last_out p (In q v # t) = last_out p t"
| "last_out p (InW q w # t) = last_out p t"

definition block_address :: "io_event list \<Rightarrow> nat" where
  "block_address t = unat (last_out 0x1f3 t) + 256 * unat (last_out 0x1f4 t) + 65536 * unat (last_out 0x1f5 t) +
     16777216 * (unat (last_out 0x1f6 t) mod 16)"

fun drive_event :: "io_event list \<Rightarrow> drive \<Rightarrow> io_event \<Rightarrow> drive option" where
  "drive_event t d (Out p v) =
     (if p < 0x1f0 \<or> 0x1f7 < p then Some d
      else if \<not> drive_idle d then None
      else if p < 0x1f7 then Some d
      else if v = 0x20 \<and> last_out 0x1f6 t AND 0x50 = 0x40
      then Some \<lparr>drive_lba = block_address t,
        drive_sectors = (if last_out 0x1f2 t = 0 then 256 else unat (last_out 0x1f2 t)), drive_taken = 0, drive_granted = 0\<rparr>
      else None)"
| "drive_event t d (In p v) =
     (if p = 0x1f0 then None
      else if p = 0x1f7 \<and> v AND 0x88 = 0x8 \<and> drive_waiting d then Some (d\<lparr>drive_granted := drive_granted d + 256\<rparr>)
      else Some d)"
| "drive_event t d (InW p w) =
     (if p = 0x1f0 then (if drive_taken d < drive_granted d then Some (d\<lparr>drive_taken := Suc (drive_taken d)\<rparr>) else None) else Some d)"

fun drive_after :: "io_event list \<Rightarrow> drive option" where
  "drive_after [] = Some \<lparr>drive_lba = 0, drive_sectors = 0, drive_taken = 0, drive_granted = 0\<rparr>"
| "drive_after (e # t) = (case drive_after t of None \<Rightarrow> None | Some d \<Rightarrow> drive_event t d e)"

text \<open>The log after a number of status reads, and a drive that shows its data after finitely many of them, busy and without an error before.\<close>

definition status_log :: "(io_event list \<Rightarrow> u_word \<Rightarrow> u_byte) \<Rightarrow> nat \<Rightarrow> io_event list \<Rightarrow> io_event list" where
  "status_log dev n = (\<lambda>t. In 0x1f7 (dev t 0x1f7) # t) ^^ n"

definition status :: "(io_event list \<Rightarrow> u_word \<Rightarrow> u_byte) \<Rightarrow> nat \<Rightarrow> io_event list \<Rightarrow> u_byte" where
  "status dev n t = dev (status_log dev n t) 0x1f7"

definition serves_soon :: "(io_event list \<Rightarrow> u_word \<Rightarrow> u_byte) \<Rightarrow> io_event list \<Rightarrow> bool" where
  "serves_soon dev t \<longleftrightarrow> (\<exists>n. (\<forall>m<n. status dev m t AND 0xa1 = 0x80) \<and> status dev n t AND 0x88 = 0x8)"

text \<open>
  A working drive with the contents \<open>disk\<close>: waiting, it comes to show data; as long as words of a shown sector are left, it keeps showing data
  and the data port answers with the next word of the disk.
\<close>

definition drive_serves ::
    "(io_event list \<Rightarrow> u_word \<Rightarrow> u_byte) \<Rightarrow> (io_event list \<Rightarrow> u_word \<Rightarrow> u_word) \<Rightarrow> (nat \<Rightarrow> u_byte) \<Rightarrow> bool" where
  "drive_serves dev wdev disk \<longleftrightarrow>
     (\<forall>t d. drive_after t = Some d \<longrightarrow>
        (drive_waiting d \<longrightarrow> serves_soon dev t) \<and>
        (drive_taken d < drive_granted d \<longrightarrow> dev t 0x1f7 AND 0x88 = 0x8 \<and>
          wdev t 0x1f0 = ucast (disk (512 * drive_lba d + 2 * drive_taken d))
            OR push_bit 8 (ucast (disk (512 * drive_lba d + 2 * drive_taken d + 1)))))"

section \<open>Polling\<close>

lemma status_0: "status dev 0 t = dev t 0x1f7" "status_log dev 0 t = t"
  by (simp_all add: status_def status_log_def)

lemma status_Suc:
  "status_log dev (Suc n) t = status_log dev n (In 0x1f7 (dev t 0x1f7) # t)"
  "status dev (Suc n) t = status dev n (In 0x1f7 (dev t 0x1f7) # t)"
  by (simp_all add: status_def status_log_def funpow_Suc_right del: funpow.simps)

lemma status_log_Suc: "status_log dev (Suc n) t = In 0x1f7 (status dev n t) # status_log dev n t"
  by (simp add: status_def status_log_def)

lemma status_add: "status dev m (status_log dev n t) = status dev (m + n) t"
  by (simp add: status_def status_log_def funpow_add)

lemma status_read:
  "port_byte_in 0x1f7 (s\<lparr>io_trace := status_log (device s) n t\<rparr>)
    = (status (device s) n t, s\<lparr>io_trace := status_log (device s) (Suc n) t\<rparr>)"
  by (simp add: port_byte_in_def Let_def status_log_Suc status_def)

lemma status_log_display: "crtc_reg q (status_log dev n t) = crtc_reg q t"
  by (induction n) (simp_all add: status_0 status_log_Suc)

lemma busy_bits:
  fixes al :: u_byte
  assumes "al AND 0xa1 = 0x80"
  shows "al AND 0x80 \<noteq> 0" and "al AND 0x1 = 0" and "al AND 0x20 = 0"
proof -
  have b: "al AND (0xa1 AND k) = 0x80 AND k" for k using arg_cong [OF assms, of "\<lambda>v. v AND k"] by (simp only: and.assoc)
  show "al AND 0x80 \<noteq> 0" "al AND 0x1 = 0" "al AND 0x20 = 0" using b [of "0x80"] b [of "1"] b [of "0x20"] by simp_all
qed

lemma poll_busy_skip:
  assumes "\<forall>m<n. status (device s) m (io_trace s) AND 0xa1 = 0x80"
  shows "\<exists>ax'. poll_busy ax s = poll_busy ax' (s\<lparr>io_trace := status_log (device s) n (io_trace s)\<rparr>)"
  using assms
proof (induction n)
  case 0
  then show ?case by (intro exI [of _ ax]) (simp add: status_0)
next
  case (Suc n)
  let ?s = "s\<lparr>io_trace := status_log (device s) n (io_trace s)\<rparr>"
  obtain ax' where ax': "poll_busy ax s = poll_busy ax' ?s" using Suc by auto
  have "status (device s) n (io_trace s) AND 0xa1 = 0x80" using Suc.prems by simp
  from busy_bits [OF this] have "poll_busy ax' ?s = poll_busy (set_al ax' (status (device s) n (io_trace s)))
      (s\<lparr>io_trace := status_log (device s) (Suc n) (io_trace s)\<rparr>)"
    by (subst poll_busy.simps) (simp add: Let_def status_read)
  then show ?case using ax' by metis
qed

lemma poll_busy_clear:
  assumes "\<forall>m<n. status (device s) m (io_trace s) AND 0xa1 = 0x80" and "status (device s) n (io_trace s) AND 0x80 = 0"
  shows "\<exists>ax'. poll_busy ax s = Some (True, ax', s\<lparr>io_trace := status_log (device s) (Suc n) (io_trace s)\<rparr>)"
proof -
  let ?s = "s\<lparr>io_trace := status_log (device s) n (io_trace s)\<rparr>"
  have "\<exists>ax''. poll_busy ax' ?s = Some (True, ax'', s\<lparr>io_trace := status_log (device s) (Suc n) (io_trace s)\<rparr>)" for ax'
    using assms(2)
    by (subst poll_busy.simps) (simp add: Let_def status_read)
  then show ?thesis using poll_busy_skip [OF assms(1), of ax] by metis
qed

lemma poll_busy_failed:
  assumes "\<forall>m<n. status (device s) m (io_trace s) AND 0xa1 = 0x80"
    and "status (device s) n (io_trace s) AND 0x80 \<noteq> 0" and "status (device s) n (io_trace s) AND 0x21 \<noteq> 0"
  shows "\<exists>ax' t. poll_busy ax s = Some (False, ax', s\<lparr>io_trace := t\<rparr>)"
proof -
  let ?s = "s\<lparr>io_trace := status_log (device s) n (io_trace s)\<rparr>" and ?al = "status (device s) n (io_trace s)"
  have "?al AND 0x1 \<noteq> 0 \<or> ?al AND 0x20 \<noteq> 0"
  proof -
    have "?al AND 0x21 = (?al AND 0x1) OR (?al AND 0x20)" by (simp add: bit.conj_disj_distrib [symmetric])
    then show ?thesis using assms(3) by auto
  qed
  then have "\<exists>ax'' t. poll_busy ax' ?s = Some (False, ax'', s\<lparr>io_trace := t\<rparr>)" for ax'
    using assms(2)
    by (subst poll_busy.simps) (auto simp: Let_def status_read port_word_in_def)
  then show ?thesis using poll_busy_skip [OF assms(1), of ax] by metis
qed

lemma data_bits:
  fixes al :: u_byte
  assumes "al AND 0x88 = 0x8"
  shows "al AND 0x80 = 0" and "al AND 0x8 \<noteq> 0"
proof -
  have b: "al AND (0x88 AND k) = 0x8 AND k" for k using arg_cong [OF assms, of "\<lambda>v. v AND k"] by (simp only: and.assoc)
  show "al AND 0x80 = 0" "al AND 0x8 \<noteq> 0" using b [of "0x80"] b [of "0x8"] by simp_all
qed

lemma status_log_drive:
  assumes "\<forall>m<n. status dev m t AND 0xa1 = 0x80" and "drive_after t = Some d"
  shows "drive_after (status_log dev n t) = Some d"
  using assms
proof (induction n)
  case 0
  then show ?case by (simp add: status_0)
next
  case (Suc n)
  have "status dev n t AND 0xa1 = 0x80" using Suc.prems by simp
  then have "status dev n t AND 0x88 \<noteq> 0x8" using busy_bits(1) data_bits(1) by blast
  then show ?case using Suc by (simp add: status_log_Suc)
qed

text \<open>A serving drive is found ready, and has its sector ready.\<close>

lemma poll_busy_served:
  assumes "drive_serves (device s) wdev disk" and "drive_after (io_trace s) = Some d" and "drive_waiting d"
  obtains ax' t where "poll_busy ax s = Some (True, ax', s\<lparr>io_trace := t\<rparr>)"
    and "drive_after t = Some (d\<lparr>drive_granted := drive_granted d + 256\<rparr>)" and "\<And>q. crtc_reg q t = crtc_reg q (io_trace s)"
proof -
  obtain n where n: "\<forall>m<n. status (device s) m (io_trace s) AND 0xa1 = 0x80" "status (device s) n (io_trace s) AND 0x88 = 0x8"
    using assms unfolding drive_serves_def serves_soon_def by blast
  obtain ax' where "poll_busy ax s = Some (True, ax', s\<lparr>io_trace := status_log (device s) (Suc n) (io_trace s)\<rparr>)"
    using poll_busy_clear [OF n(1) data_bits(1) [OF n(2)]] by blast
  moreover have "drive_after (status_log (device s) (Suc n) (io_trace s)) = Some (d\<lparr>drive_granted := drive_granted d + 256\<rparr>)"
    using status_log_drive [OF n(1) assms(2)] n(2) assms(3) by (simp add: status_log_Suc)
  ultimately show thesis using that status_log_display by metis
qed

lemma poll_data_served:
  assumes "drive_serves (device s) wdev disk" and "drive_after (io_trace s) = Some d" and "drive_taken d < drive_granted d"
  obtains ax' t where "poll_data ax s = Some (ax', s\<lparr>io_trace := t\<rparr>)"
    and "drive_after t = Some d" and "\<And>q. crtc_reg q t = crtc_reg q (io_trace s)"
proof -
  have "device s (io_trace s) 0x1f7 AND 0x88 = 0x8" using assms unfolding drive_serves_def by blast
  from data_bits(2) [OF this] have "\<exists>ax'. poll_data ax s = Some (ax', s\<lparr>io_trace := In 0x1f7 (device s (io_trace s) 0x1f7) # io_trace s\<rparr>)"
    by (subst poll_data.simps) (simp add: Let_def port_byte_in_def)
  moreover have "drive_after (In 0x1f7 (device s (io_trace s) 0x1f7) # io_trace s) = Some d" using assms(2,3) by (simp add: drive_waiting_def)
  ultimately show thesis using that by (metis crtc_reg.simps(3))
qed

section \<open>Moving the words\<close>

lemma port_word_in_eq: "port_word_in p s = (word_device s (io_trace s) p, s\<lparr>io_trace := InW p (word_device s (io_trace s) p) # io_trace s\<rparr>)"
  by (simp add: port_word_in_def Let_def)

lemma dump_words_eq:
  assumes "drive_after (io_trace s) = Some d" and "drive_taken d + n \<le> drive_granted d"
  obtains ax' t where "dump_words n (ax, s) = (ax', s\<lparr>io_trace := t\<rparr>)"
    and "drive_after t = Some (d\<lparr>drive_taken := drive_taken d + n\<rparr>)" and "\<And>q. crtc_reg q t = crtc_reg q (io_trace s)"
proof -
  have "\<exists>ax' t. dump_words n (ax, s) = (ax', s\<lparr>io_trace := t\<rparr>) \<and> drive_after t = Some (d\<lparr>drive_taken := drive_taken d + n\<rparr>) \<and>
      (\<forall>q. crtc_reg q t = crtc_reg q (io_trace s))"
    if "drive_after (io_trace s) = Some d" "drive_taken d + n \<le> drive_granted d" for d ax and s :: "'a machine_scheme"
    using that
  proof (induction n arbitrary: d ax s)
    case 0
    then show ?case by (intro exI [of _ ax] exI [of _ "io_trace s"]) simp
  next
    case (Suc n)
    let ?s = "s\<lparr>io_trace := InW 0x1f0 (word_device s (io_trace s) 0x1f0) # io_trace s\<rparr>"
    have "drive_after (io_trace ?s) = Some (d\<lparr>drive_taken := Suc (drive_taken d)\<rparr>)" using Suc.prems by simp
    from Suc.IH [OF this, of "word_device s (io_trace s) 0x1f0"] Suc.prems(2) show ?case by (auto simp: port_word_in_eq)
  qed
  from this [OF assms] that show thesis by blast
qed

lemma store16_word:
  "store16 m a (ucast x OR push_bit 8 (ucast y)) = m(a := x, a + 1 := (y :: u_byte))"
proof -
  have "ucast (ucast x OR push_bit 8 (ucast y) :: u_word) = x"
    by (rule bit_word_eqI) (simp add: bit_simps)
  moreover have "ucast (drop_bit 8 (ucast x OR push_bit 8 (ucast y) :: u_word)) = y"
    by (rule bit_word_eqI) (auto simp: bit_simps dest: bit_imp_le_length)
  ultimately show ?thesis by (simp add: store16_def)
qed

lemma rep_insw_eq:
  assumes "drive_serves (device s) (word_device s) disk" and "drive_after (io_trace s) = Some d"
    and "drive_taken d + n \<le> drive_granted d" and "n \<le> 32768"
  obtains m t where "rep_insw edi n s = s\<lparr>mem := m, io_trace := t\<rparr>" and "drive_after t = Some (d\<lparr>drive_taken := drive_taken d + n\<rparr>)"
    and "\<And>q. crtc_reg q t = crtc_reg q (io_trace s)"
    and "\<And>x. m x = (if in_range edi (2 * n) x then disk (512 * drive_lba d + 2 * drive_taken d + unat (x - edi)) else mem s x)"
proof -
  have "\<exists>m t. rep_insw edi n s = s\<lparr>mem := m, io_trace := t\<rparr> \<and> drive_after t = Some (d\<lparr>drive_taken := drive_taken d + n\<rparr>) \<and>
      (\<forall>q. crtc_reg q t = crtc_reg q (io_trace s)) \<and>
      (\<forall>x. m x = (if in_range edi (2 * n) x then disk (512 * drive_lba d + 2 * drive_taken d + unat (x - edi)) else mem s x))"
    if "drive_serves (device s) (word_device s) disk" "drive_after (io_trace s) = Some d" "drive_taken d + n \<le> drive_granted d" "n \<le> 32768"
    for d edi and s :: "'a machine_scheme"
    using that
  proof (induction n arbitrary: d s edi)
    case 0
    then show ?case by (intro exI [of _ "mem s"] exI [of _ "io_trace s"]) (simp add: in_range_def)
  next
    case (Suc n)
    let ?b = "512 * drive_lba d + 2 * drive_taken d"
    have w: "word_device s (io_trace s) 0x1f0 = ucast (disk ?b) OR push_bit 8 (ucast (disk (?b + 1)))"
      using Suc.prems(1-3) unfolding drive_serves_def by simp
    let ?t = "InW 0x1f0 (word_device s (io_trace s) 0x1f0) # io_trace s"
    let ?s = "s\<lparr>io_trace := ?t, mem := (mem s)(edi := disk ?b, edi + 1 := disk (?b + 1))\<rparr>"
    have step: "rep_insw edi (Suc n) s = rep_insw (edi + 2) n ?s"
      by (simp add: port_word_in_eq w store16_word)
    have after: "drive_after (io_trace ?s) = Some (d\<lparr>drive_taken := Suc (drive_taken d)\<rparr>)" using Suc.prems by simp
    from Suc.IH [of ?s _ "edi + 2", OF _ after] Suc.prems obtain m t where
      r: "rep_insw (edi + 2) n ?s = ?s\<lparr>mem := m, io_trace := t\<rparr>" "drive_after t = Some (d\<lparr>drive_taken := Suc (drive_taken d) + n\<rparr>)"
      "\<And>q. crtc_reg q t = crtc_reg q ?t"
      "\<And>x. m x = (if in_range (edi + 2) (2 * n) x then disk (512 * drive_lba d + 2 * Suc (drive_taken d) + unat (x - (edi + 2))) else mem ?s x)"
      by auto
    have "m x = (if in_range edi (2 * Suc n) x then disk (?b + unat (x - edi)) else mem s x)" for x
    proof -
      have split: "in_range edi (2 * Suc n) x \<longleftrightarrow> in_range edi 2 x \<or> in_range (edi + 2) (2 * n) x"
        using in_range_append [of 2 "2 * n" edi x] Suc.prems(4) by simp
      consider "in_range (edi + 2) (2 * n) x" | "\<not> in_range (edi + 2) (2 * n) x" "x = edi" | "\<not> in_range (edi + 2) (2 * n) x" "x = edi + 1"
        | "\<not> in_range (edi + 2) (2 * n) x" "\<not> in_range edi 2 x" "x \<noteq> edi" "x \<noteq> edi + 1"
        using in_range_Suc [of 0 edi x] in_range_Suc [of 1 edi x] by (auto simp: numeral_2_eq_2)
      then show ?thesis
      proof cases
        case 1
        then have "unat (x - edi) = 2 + unat (x - (edi + 2))"
          using in_range_append_offset [of edi 2 "2 * n" x] Suc.prems(4) by simp
        then show ?thesis using 1 r(4) [of x] split by (simp add: add.assoc)
      qed (use r(4) [of x] split in \<open>simp_all add: in_range_def\<close>)
    qed
    moreover have "rep_insw edi (Suc n) s = s\<lparr>mem := m, io_trace := t\<rparr>" unfolding step r(1) by simp
    moreover have "drive_after t = Some (d\<lparr>drive_taken := drive_taken d + Suc n\<rparr>)" "crtc_reg q t = crtc_reg q (io_trace s)" for q using r(2,3) by simp_all
    ultimately show ?case by blast
  qed
  from this [OF assms] that show thesis by blast
qed

section \<open>The command\<close>

lemma lba_bytes:
  fixes lba :: addr
  shows "unat (ucast (drop_bit k lba) :: u_byte) = unat lba div 2 ^ k mod 256"
  using unat_lt32 [of lba] by (simp add: unsigned_ucast_eq unsigned_drop_bit_eq drop_bit_eq_div [where ?'a = nat] take_bit_eq_mod [where ?'a = nat])

lemma base_256:
  fixes n :: nat
  shows "n mod 256 + 256 * (n div 256 mod 256) + 65536 * (n div 65536 mod 256) + 16777216 * (n div 16777216) = n"
proof -
  have "n div 65536 = n div 256 div 256" "n div 16777216 = n div 256 div 256 div 256"
    by (simp_all add: div_mult2_eq [symmetric])
  moreover have "r0 + 256 * r1 + 65536 * r2 + 16777216 * c = k" if "256 * a + r0 = k" "256 * b + r1 = a" "256 * c + r2 = b" for a b c k r0 r1 r2 :: nat
    using that by simp
  ultimately show ?thesis using mult_div_mod_eq by metis
qed

lemma command_drive_eq:
  assumes lba: "unat lba < 2 ^ 28" and d: "drive_after (io_trace s) = Some d" "drive_idle d" and b0: "(ucast ebx :: u_byte) = 0"
  obtains t where "command_drive lba ebx s = s\<lparr>io_trace := t\<rparr>"
    and "drive_after t = Some \<lparr>drive_lba = unat lba, drive_sectors = 256, drive_taken = 0, drive_granted = 0\<rparr>"
    and "\<And>q. crtc_reg q t = crtc_reg q (io_trace s)"
proof -
  define t where "t = io_trace (command_drive lba ebx s)"
  have "(unat (ucast (drop_bit 24 lba) OR 0xe0 :: u_byte)) mod 16 = unat (ucast (drop_bit 24 lba) :: u_byte) mod 16"
  proof -
    have "take_bit 4 (ucast (drop_bit 24 lba) OR 0xe0 :: u_byte) = take_bit 4 (ucast (drop_bit 24 lba))" by simp
    then have "unat (take_bit 4 (ucast (drop_bit 24 lba) OR 0xe0 :: u_byte)) = unat (take_bit 4 (ucast (drop_bit 24 lba) :: u_byte))" by simp
    then show ?thesis by (simp only: unsigned_take_bit_eq take_bit_eq_mod [where ?'a = nat]) simp
  qed
  also have "\<dots> = unat lba div 16777216" using lba by (simp add: lba_bytes)
  finally have top: "(unat (ucast (drop_bit 24 lba) OR 0xe0 :: u_byte)) mod 16 = unat lba div 16777216" .
  have b: "unat (ucast lba :: u_byte) = unat lba mod 256" using lba_bytes [of 0 lba] by simp
  have sel: "(ucast (drop_bit 24 lba) OR 0xe0 :: u_byte) AND 0x50 = 0x40"
  proof -
    let ?x = "ucast (drop_bit 24 lba) :: u_byte"
    have "unat (take_bit 4 ?x) = unat ?x" using lba by (simp add: unsigned_take_bit_eq take_bit_eq_mod [where ?'a = nat] lba_bytes)
    then have "take_bit 4 ?x = ?x" by (simp only: word_unat_eq_iff)
    then have "?x AND 0x50 = ?x AND (mask 4 AND 0x50)" by (simp only: take_bit_eq_mask and.assoc [symmetric])
    then have "?x AND 0x50 = 0" by (simp add: mask_eq_exp_minus_1)
    then show ?thesis by (simp add: bit.conj_disj_distrib2)
  qed
  have "drive_after t = Some \<lparr>drive_lba = unat lba, drive_sectors = 256, drive_taken = 0, drive_granted = 0\<rparr>"
    using base_256 [of "unat lba"] d b0
    by (simp add: t_def command_drive_def Let_def port_byte_out_def block_address_def top b lba_bytes sel)
  then show thesis by (rule_tac that [of t]) (simp_all add: t_def command_drive_def Let_def port_byte_out_def)
qed

text \<open>The shift to the left: no sector count, and nothing to drain after the last word.\<close>

lemma shift_back:
  assumes "unat x < 131072"
  shows "drop_bit 9 (push_bit 9 x) = (x :: u_dword)"
proof -
  have "unat (push_bit 9 x) = 512 * unat x" using assms by (simp add: push_bit_eq_mult unat_word_ariths)
  then have "unat (drop_bit 9 (push_bit 9 x)) = unat x" using assms by (simp add: unsigned_drop_bit_eq drop_bit_eq_div [where ?'a = nat] take_bit_eq_mod [where ?'a = nat])
  then show ?thesis by (simp only: word_unat_eq_iff)
qed

lemma sector_count_zero:
  "(ucast (sector_count num offset) :: u_byte) = 0" "drop_bit 9 (sector_count num offset) - ucast num - ucast offset = 0"
proof -
  let ?x = "ucast num + ucast offset :: u_dword"
  have "push_bit 9 ?x AND 0x1ff = 0"
  proof -
    have m: "(0x1ff :: u_dword) = mask 9" by (simp add: mask_eq_exp_minus_1)
    show ?thesis unfolding m by (rule bit_word_eqI) (auto simp: bit_simps)
  qed
  then have c: "sector_count num offset = push_bit 9 ?x" by (simp add: sector_count_def)
  show "(ucast (sector_count num offset) :: u_byte) = 0"
    unfolding c by (rule bit_word_eqI) (auto simp: bit_simps)
  have "unat (ucast num :: u_dword) < 65536" "unat (ucast offset :: u_dword) < 65536"
    using unsigned_less [of num, where ?'a = nat] unsigned_less [of offset, where ?'a = nat] by (simp_all add: unsigned_ucast_eq take_bit_nat_eq_self)
  then have "unat ?x < 131072" by (subst unat_plus_small) simp_all
  then have "drop_bit 9 (push_bit 9 ?x) = ?x" by (rule shift_back)
  then show "drop_bit 9 (sector_count num offset) - ucast num - ucast offset = 0" unfolding c by simp
qed

section \<open>Reading\<close>

lemma read_disk_started:
  assumes serves: "drive_serves (device s) (word_device s) disk" and lba: "unat lba < 2 ^ 28"
    and idle: "drive_after (io_trace s) = Some d" "drive_idle d"
  obtains ax t where "read_disk regs lba slave num offset buffer s =
      Inr (regs, rep_insw buffer (unat num div 2) (snd (dump_words (unat offset div 2) (ax, s\<lparr>io_trace := t\<rparr>))))"
    and "\<And>q. crtc_reg q t = crtc_reg q (io_trace s)"
    and "drive_after t = Some \<lparr>drive_lba = unat lba, drive_sectors = 256, drive_taken = 0, drive_granted = 256\<rparr>"
proof -
  let ?ebx = "sector_count num offset" and ?d = "\<lambda>g. \<lparr>drive_lba = unat lba, drive_sectors = 256, drive_taken = 0, drive_granted = g\<rparr>"
  have half: "unat (drop_bit 1 (ucast v :: u_dword)) = unat v div 2" for v :: u_word
    using unsigned_less [of v, where ?'a = nat]
    by (simp add: unsigned_drop_bit_eq drop_bit_eq_div [where ?'a = nat] take_bit_eq_mod [where ?'a = nat] unsigned_ucast_eq)
  obtain t1 where c: "command_drive lba ?ebx s = s\<lparr>io_trace := t1\<rparr>" "drive_after t1 = Some (?d 0)" "\<And>q. crtc_reg q t1 = crtc_reg q (io_trace s)"
    by (rule command_drive_eq [OF lba idle sector_count_zero(1)]) blast
  have b0: "drive_serves (device (s\<lparr>io_trace := t1\<rparr>)) (word_device s) disk" "drive_after (io_trace (s\<lparr>io_trace := t1\<rparr>)) = Some (?d 0)" "drive_waiting (?d 0)"
    using serves c(2) by (simp_all add: drive_waiting_def)
  obtain ax2 t2 where b: "poll_busy (command_ax lba) (s\<lparr>io_trace := t1\<rparr>) = Some (True, ax2, s\<lparr>io_trace := t2\<rparr>)" "drive_after t2 = Some (?d 256)"
    "\<And>q. crtc_reg q t2 = crtc_reg q t1"
    by (rule poll_busy_served [OF b0, of "command_ax lba"]) simp
  have d0: "drive_serves (device (s\<lparr>io_trace := t2\<rparr>)) (word_device s) disk" "drive_after (io_trace (s\<lparr>io_trace := t2\<rparr>)) = Some (?d 256)"
    "drive_taken (?d 256) < drive_granted (?d 256)" using serves b(2) by simp_all
  obtain ax3 t3 where p: "poll_data ax2 (s\<lparr>io_trace := t2\<rparr>) = Some (ax3, s\<lparr>io_trace := t3\<rparr>)" "drive_after t3 = Some (?d 256)"
    "\<And>q. crtc_reg q t3 = crtc_reg q t2"
    by (rule poll_data_served [OF d0, of ax2]) simp
  have "read_disk regs lba slave num offset buffer s =
      Inr (regs, rep_insw buffer (unat num div 2) (snd (dump_words (unat offset div 2) (ax3, s\<lparr>io_trace := t3\<rparr>))))"
    using c(1) b(1) p(1) by (simp add: read_disk_def Let_def split_def half [unfolded One_nat_def] sector_count_zero(2) disk_return_lost)
  then show thesis using that c(3) b(3) p(2,3) by simp
qed

lemma read_disk_eq:
  assumes serves: "drive_serves (device s) (word_device s) disk" and lba: "unat lba < 2 ^ 28"
    and idle: "drive_after (io_trace s) = Some d" "drive_idle d" and one: "unat offset div 2 + unat num div 2 \<le> 256"
  obtains m t where "read_disk regs lba slave num offset buffer s = Inr (regs, s\<lparr>mem := m, io_trace := t\<rparr>)"
    and "\<And>q. crtc_reg q t = crtc_reg q (io_trace s)"
    and "drive_after t = Some \<lparr>drive_lba = unat lba, drive_sectors = 256, drive_taken = unat offset div 2 + unat num div 2, drive_granted = 256\<rparr>"
    and "\<And>x. m x = (if in_range buffer (2 * (unat num div 2)) x
      then disk (512 * unat lba + 2 * (unat offset div 2) + unat (x - buffer)) else mem s x)"
proof -
  let ?n = "unat num div 2" and ?o = "unat offset div 2"
  let ?d = "\<lambda>n. \<lparr>drive_lba = unat lba, drive_sectors = 256, drive_taken = n, drive_granted = 256\<rparr>"
  obtain ax t where st: "read_disk regs lba slave num offset buffer s = Inr (regs, rep_insw buffer ?n (snd (dump_words ?o (ax, s\<lparr>io_trace := t\<rparr>))))"
    "\<And>q. crtc_reg q t = crtc_reg q (io_trace s)" "drive_after t = Some (?d 0)"
    by (rule read_disk_started [OF serves lba idle, where regs = regs and slave = slave and num = num and offset = offset and buffer = buffer]) blast
  have o0: "drive_after (io_trace (s\<lparr>io_trace := t\<rparr>)) = Some (?d 0)" "drive_taken (?d 0) + ?o \<le> drive_granted (?d 0)" using st(3) one by simp_all
  obtain ax4 t4 where o: "dump_words ?o (ax, s\<lparr>io_trace := t\<rparr>) = (ax4, s\<lparr>io_trace := t4\<rparr>)" "drive_after t4 = Some (?d ?o)"
    "\<And>q. crtc_reg q t4 = crtc_reg q t"
    by (rule dump_words_eq [OF o0, of ax]) simp
  let ?s4 = "s\<lparr>io_trace := t4\<rparr>"
  have pre: "drive_serves (device ?s4) (word_device ?s4) disk" "drive_after (io_trace ?s4) = Some (?d ?o)"
    "drive_taken (?d ?o) + ?n \<le> drive_granted (?d ?o)" "?n \<le> 32768"
    using serves o(2) one by simp_all
  obtain m t5 where r: "rep_insw buffer ?n ?s4 = s\<lparr>mem := m, io_trace := t5\<rparr>" "drive_after t5 = Some (?d (?o + ?n))"
    "\<And>q. crtc_reg q t5 = crtc_reg q t4"
    "\<And>x. m x = (if in_range buffer (2 * ?n) x then disk (512 * unat lba + 2 * ?o + unat (x - buffer)) else mem s x)"
    by (rule rep_insw_eq [OF pre, of buffer]) simp
  have "read_disk regs lba slave num offset buffer s = Inr (regs, s\<lparr>mem := m, io_trace := t5\<rparr>)" using st(1) o(1) r(1) by simp
  then show thesis using that st(2) o(3) r(2-4) by simp
qed

text \<open>
  The routine asks for the status before the first sector only. A call for more than that sector takes words the drive has not
  shown, which leaves what the drive promises, and still returns as after a successful read.
\<close>

definition overdraws :: "nat \<Rightarrow> io_event list \<Rightarrow> bool" where
  "overdraws n t \<longleftrightarrow> (case drive_after t of None \<Rightarrow> True | Some d \<Rightarrow> drive_taken d \<le> drive_granted d \<and> drive_granted d < drive_taken d + n)"

lemma overdraws_step: "overdraws (Suc n) t \<Longrightarrow> overdraws n (InW 0x1f0 w # t)"
  by (auto simp: overdraws_def split: option.splits)

lemma overdraws_0: "overdraws 0 t \<Longrightarrow> drive_after t = None"
  by (auto simp: overdraws_def split: option.splits)

lemma dump_words_over: "overdraws (n + k) (io_trace (snd r)) \<Longrightarrow> overdraws k (io_trace (snd (dump_words n r)))"
  by (induction n arbitrary: r) (simp_all add: port_word_in_eq overdraws_step)

lemma rep_insw_over: "overdraws n (io_trace s) \<Longrightarrow> overdraws 0 (io_trace (rep_insw edi n s))"
  by (induction n arbitrary: edi s) (simp_all add: port_word_in_eq overdraws_step)

lemma read_disk_unpolled:
  assumes serves: "drive_serves (device s) (word_device s) disk" and lba: "unat lba < 2 ^ 28"
    and idle: "drive_after (io_trace s) = Some d" "drive_idle d" and more: "256 < unat offset div 2 + unat num div 2"
  shows "\<exists>s'. read_disk regs lba slave num offset buffer s = Inr (regs, s') \<and> drive_after (io_trace s') = None"
proof -
  obtain ax t where st: "read_disk regs lba slave num offset buffer s =
      Inr (regs, rep_insw buffer (unat num div 2) (snd (dump_words (unat offset div 2) (ax, s\<lparr>io_trace := t\<rparr>))))"
    "drive_after t = Some \<lparr>drive_lba = unat lba, drive_sectors = 256, drive_taken = 0, drive_granted = 256\<rparr>"
    by (rule read_disk_started [OF serves lba idle, where regs = regs and slave = slave and num = num and offset = offset and buffer = buffer]) blast
  have "overdraws (unat offset div 2 + unat num div 2) (io_trace (snd (ax, s\<lparr>io_trace := t\<rparr>)))" using st(2) more by (simp add: overdraws_def)
  from overdraws_0 [OF rep_insw_over [OF dump_words_over [OF this]]] show ?thesis unfolding st(1) by blast
qed

section \<open>Drives that do not serve\<close>

lemma command_only: "\<exists>t. command_drive lba ebx s = s\<lparr>io_trace := t\<rparr>"
  by (simp add: command_drive_def Let_def port_byte_out_def) (rule exI, rule refl)

lemma poll_busy_stuck:
  assumes "\<forall>m. status (device s) m (io_trace s) AND 0xa1 = 0x80"
  shows "poll_busy ax s = None"
proof -
  have "\<not> (\<forall>m. status (device s) m (io_trace s) AND 0xa1 = 0x80)" if "poll_busy ax s = Some y" for y ax and s :: "'a machine_scheme"
    using that
  proof (rule poll_busy.raw_induct [rotated])
    fix f ax y and s :: "'a machine_scheme"
    assume IH: "\<And>ax s y. f ax s = Some y \<Longrightarrow> \<not> (\<forall>m. status (device s) m (io_trace s) AND 0xa1 = 0x80)"
      and eq: "(let al = fst (port_byte_in 0x1f7 s); s = snd (port_byte_in 0x1f7 s); ax = set_al ax al
        in if al AND 0x80 = 0 then Some (True, ax, s)
           else if al AND 0x1 \<noteq> 0 then Some (False, port_word_in 0x1f1 s)
           else if al AND 0x20 \<noteq> 0 then Some (False, 0x10, s)
           else f ax s) = Some y"
    show "\<not> (\<forall>m. status (device s) m (io_trace s) AND 0xa1 = 0x80)"
    proof
      assume stuck: "\<forall>m. status (device s) m (io_trace s) AND 0xa1 = 0x80"
      have "device s (io_trace s) 0x1f7 AND 0xa1 = 0x80" using stuck [THEN spec, of 0] by (simp add: status_0)
      from busy_bits [OF this] eq have "f (set_al ax (device s (io_trace s) 0x1f7)) (snd (port_byte_in 0x1f7 s)) = Some y"
        by (simp add: Let_def port_byte_in_def)
      from IH [OF this] stuck [THEN spec, of "Suc m" for m] show False by (simp add: port_byte_in_def Let_def status_Suc)
    qed
  qed
  then show ?thesis using assms by (metis not_None_eq)
qed

lemma poll_data_stuck:
  assumes "\<forall>m. status (device s) m (io_trace s) AND 0x8 = 0"
  shows "poll_data ax s = None"
proof -
  have "\<not> (\<forall>m. status (device s) m (io_trace s) AND 0x8 = 0)" if "poll_data ax s = Some y" for y ax and s :: "'a machine_scheme"
    using that
  proof (rule poll_data.raw_induct [rotated])
    fix f ax y and s :: "'a machine_scheme"
    assume IH: "\<And>ax s y. f ax s = Some y \<Longrightarrow> \<not> (\<forall>m. status (device s) m (io_trace s) AND 0x8 = 0)"
      and eq: "(let al = fst (port_byte_in 0x1f7 s); s = snd (port_byte_in 0x1f7 s); ax = set_al ax al
        in if al AND 0x8 = 0 then f ax s else Some (ax, s)) = Some y"
    show "\<not> (\<forall>m. status (device s) m (io_trace s) AND 0x8 = 0)"
    proof
      assume stuck: "\<forall>m. status (device s) m (io_trace s) AND 0x8 = 0"
      have "device s (io_trace s) 0x1f7 AND 0x8 = 0" using stuck [THEN spec, of 0] by (simp add: status_0)
      with eq have "f (set_al ax (device s (io_trace s) 0x1f7)) (snd (port_byte_in 0x1f7 s)) = Some y"
        by (simp add: Let_def port_byte_in_def)
      from IH [OF this] stuck [THEN spec, of "Suc m" for m] show False by (simp add: port_byte_in_def Let_def status_Suc)
    qed
  qed
  then show ?thesis using assms by (metis not_None_eq)
qed

section \<open>A drive\<close>

text \<open>The display adapter next to a drive that is busy for one poll after each command.\<close>

definition drive_ports :: "io_event list \<Rightarrow> u_word \<Rightarrow> u_byte" where
  "drive_ports t p = (if p = 0x1f7 then (case t of Out q _ # _ \<Rightarrow> if q = 0x1f7 then 0x80 else 0x58 | _ \<Rightarrow> 0x58) else vga_device t p)"

definition drive_data :: "(nat \<Rightarrow> u_byte) \<Rightarrow> io_event list \<Rightarrow> u_word \<Rightarrow> u_word" where
  "drive_data disk t p = (case drive_after t of None \<Rightarrow> 0
     | Some d \<Rightarrow> ucast (disk (512 * drive_lba d + 2 * drive_taken d)) OR push_bit 8 (ucast (disk (512 * drive_lba d + 2 * drive_taken d + 1))))"

lemma drive_ports_serve: "drive_serves drive_ports (drive_data disk) disk"
proof -
  have s: "drive_ports t 0x1f7 = 0x80 \<or> drive_ports t 0x1f7 = 0x58" for t
    by (simp add: drive_ports_def split: list.splits io_event.splits)
  have "serves_soon drive_ports t" for t
  proof (cases "drive_ports t 0x1f7 = 0x58")
    case True
    then show ?thesis unfolding serves_soon_def by (intro exI [of _ 0]) (simp add: status_0)
  next
    case False
    then have "drive_ports t 0x1f7 = 0x80" using s by blast
    moreover have "drive_ports (In 0x1f7 v # t) 0x1f7 = 0x58" for v by (simp add: drive_ports_def)
    ultimately show ?thesis unfolding serves_soon_def by (intro exI [of _ 1]) (simp add: status_0 status_Suc [of _ 0, simplified])
  qed
  moreover have "drive_ports t 0x1f7 AND 0x88 = 0x8" if "drive_after t = Some d" "drive_taken d < drive_granted d" for t d
  proof (cases "\<exists>v u. t = Out 0x1f7 v # u")
    case True
    then show ?thesis using that by (auto split: option.splits if_splits)
  next
    case False
    then have "drive_ports t 0x1f7 = 0x58" by (auto simp: drive_ports_def split: list.splits io_event.splits)
    then show ?thesis by simp
  qed
  ultimately show ?thesis unfolding drive_serves_def drive_data_def by auto
qed

text \<open>What the drive answers to the polls of a call.\<close>

definition answer :: "addr \<Rightarrow> u_word \<Rightarrow> u_word \<Rightarrow> 'a machine_scheme \<Rightarrow> nat \<Rightarrow> u_byte" where
  "answer lba num offset s n = status (device s) n (io_trace (command_drive lba (sector_count num offset) s))"

section \<open>Properties\<close>

text \<open>
  (C16) No failure of the drive reaches the caller. Whatever the drive does, a call that returns hands back the registers of the caller:
  the code put in \<^verbatim>\<open>ax\<close> is lost. An error or a drive fault shown while the drive is still busy ends the call so, with the memory untouched. A drive
  that is no longer busy and never has data, as after the usual error, and a drive that stays busy are polled for ever. A call for more than
  the first sector takes words even a working drive has not shown, which the drive does not promise, and returns in the same way.
\<close>

theorem read_disk_failures:
  "(\<forall>r s'. read_disk regs lba slave num offset buffer s = Inr (r, s') \<longrightarrow> r = regs) \<and>
    (\<forall>n. (\<forall>m<n. answer lba num offset s m AND 0xa1 = 0x80) \<and> answer lba num offset s n AND 0x80 \<noteq> 0 \<and> answer lba num offset s n AND 0x21 \<noteq> 0 \<longrightarrow>
      (\<exists>t'. read_disk regs lba slave num offset buffer s = Inr (regs, s\<lparr>io_trace := t'\<rparr>))) \<and>
    (\<forall>n. (\<forall>m<n. answer lba num offset s m AND 0xa1 = 0x80) \<and> answer lba num offset s n AND 0x80 = 0 \<and> (\<forall>m>n. answer lba num offset s m AND 0x8 = 0) \<longrightarrow>
      (\<exists>s'. read_disk regs lba slave num offset buffer s = Inl (Hang s'))) \<and>
    ((\<forall>m. answer lba num offset s m AND 0xa1 = 0x80) \<longrightarrow>
      (\<exists>s'. read_disk regs lba slave num offset buffer s = Inl (Hang s'))) \<and>
    (\<forall>disk d. drive_serves (device s) (word_device s) disk \<and> unat lba < 2 ^ 28 \<and> drive_after (io_trace s) = Some d \<and> drive_idle d \<and>
        256 < unat offset div 2 + unat num div 2 \<longrightarrow>
      (\<exists>s'. read_disk regs lba slave num offset buffer s = Inr (regs, s') \<and> drive_after (io_trace s') = None))"
proof (intro conjI allI impI)
  define t where "t = io_trace (command_drive lba (sector_count num offset) s)"
  let ?s = "s\<lparr>io_trace := t\<rparr>"
  have st: "answer lba num offset s n = status (device s) n t" for n by (simp add: answer_def t_def)
  have t: "command_drive lba (sector_count num offset) s = ?s" using command_only [of lba "sector_count num offset" s] by (auto simp: t_def)
  { fix r s'
    assume "read_disk regs lba slave num offset buffer s = Inr (r, s')"
    then show "r = regs"
      by (auto simp: read_disk_def Let_def split_def disk_return_lost split: option.splits if_splits) }
  { fix n
    assume "(\<forall>m<n. answer lba num offset s m AND 0xa1 = 0x80) \<and> answer lba num offset s n AND 0x80 \<noteq> 0 \<and> answer lba num offset s n AND 0x21 \<noteq> 0"
    then have "\<exists>ax' t'. poll_busy (command_ax lba) ?s = Some (False, ax', s\<lparr>io_trace := t'\<rparr>)" using poll_busy_failed [of n ?s] by (simp add: st)
    then show "\<exists>t'. read_disk regs lba slave num offset buffer s = Inr (regs, s\<lparr>io_trace := t'\<rparr>)"
      by (auto simp: read_disk_def Let_def t disk_return_lost) }
  { fix n
    assume a: "(\<forall>m<n. answer lba num offset s m AND 0xa1 = 0x80) \<and> answer lba num offset s n AND 0x80 = 0 \<and> (\<forall>m>n. answer lba num offset s m AND 0x8 = 0)"
    let ?s' = "s\<lparr>io_trace := status_log (device s) (Suc n) t\<rparr>"
    have "\<exists>ax'. poll_busy (command_ax lba) ?s = Some (True, ax', ?s')" using poll_busy_clear [of n ?s] a by (simp add: st)
    moreover have "poll_data ax' ?s' = None" for ax' by (rule poll_data_stuck) (use a in \<open>simp add: status_add st\<close>)
    ultimately show "\<exists>s'. read_disk regs lba slave num offset buffer s = Inl (Hang s')" by (auto simp: read_disk_def Let_def t) }
  { assume "\<forall>m. answer lba num offset s m AND 0xa1 = 0x80"
    then have "poll_busy (command_ax lba) ?s = None" by (intro poll_busy_stuck) (simp add: st)
    then show "\<exists>s'. read_disk regs lba slave num offset buffer s = Inl (Hang s')" by (simp add: read_disk_def Let_def t) }
  fix disk d
  assume "drive_serves (device s) (word_device s) disk \<and> unat lba < 2 ^ 28 \<and> drive_after (io_trace s) = Some d \<and> drive_idle d \<and>
    256 < unat offset div 2 + unat num div 2"
  then show "\<exists>s'. read_disk regs lba slave num offset buffer s = Inr (regs, s') \<and> drive_after (io_trace s') = None"
    using read_disk_unpolled [of s disk lba d offset num regs slave buffer] by blast
qed

text \<open>A fault while busy, an error with the busy flag clear, a drive that stays busy, and two sectors from a working drive.\<close>

theorem read_disk_failures_witness:
  "(\<exists>t. read_disk (\<lambda>_. 7) 0 False 512 0 0x9000 (demo_screen\<lparr>device := (\<lambda>_ _. 0xa0)\<rparr>) = Inr (\<lambda>_. 7, demo_screen\<lparr>device := (\<lambda>_ _. 0xa0), io_trace := t\<rparr>)) \<and>
   (\<exists>s'. read_disk (\<lambda>_. 7) 0 False 512 0 0x9000 (demo_screen\<lparr>device := (\<lambda>_ _. 0x51)\<rparr>) = Inl (Hang s')) \<and>
   (\<exists>s'. read_disk (\<lambda>_. 7) 0 False 512 0 0x9000 (demo_screen\<lparr>device := (\<lambda>_ _. 0x80)\<rparr>) = Inl (Hang s')) \<and>
   (\<exists>s'. read_disk (\<lambda>_. 7) 0 False 1024 0 0x9000 (demo_screen\<lparr>device := drive_ports, word_device := drive_data of_nat\<rparr>) = Inr (\<lambda>_. 7, s') \<and>
      drive_after (io_trace s') = None)"
proof -
  let ?s = "\<lambda>v. demo_screen\<lparr>device := (\<lambda>_ _. v)\<rparr>"
  let ?t = "demo_screen\<lparr>device := drive_ports, word_device := drive_data of_nat\<rparr>"
  let ?d = "\<lparr>drive_lba = 0, drive_sectors = 0, drive_taken = 0, drive_granted = 0\<rparr>"
  note f = read_disk_failures [where regs = "\<lambda>_. 7" and lba = 0 and slave = False and offset = 0 and buffer = "0x9000"]
  have "drive_after (io_trace ?t) = Some ?d"
    by (simp add: demo_screen_def set_cursor_offset_def port_byte_out_def REG_SCREEN_CTRL_def REG_SCREEN_DATA_def)
  then have "\<exists>s'. read_disk (\<lambda>_. 7) 0 False 1024 0 0x9000 ?t = Inr (\<lambda>_. 7, s') \<and> drive_after (io_trace s') = None"
    using f [where num = 1024 and s = ?t, THEN conjunct2, THEN conjunct2, THEN conjunct2, THEN conjunct2, THEN spec, THEN spec, of of_nat ?d]
      drive_ports_serve by (simp add: drive_idle_def)
  moreover note f = f [where num = 512]
  have st: "answer 0 512 0 (?s v) m = v" for v m by (simp add: answer_def status_def)
  ultimately show ?thesis
    using f [of "?s 0xa0", THEN conjunct2, THEN conjunct1, THEN spec, of 0] f [of "?s 0x51", THEN conjunct2, THEN conjunct2, THEN conjunct1, THEN spec, of 0]
      f [of "?s 0x80", THEN conjunct2, THEN conjunct2, THEN conjunct2, THEN conjunct1] by (simp add: st)
qed

end
