(* ===== verification/Modules.thy ===== *)
theory Modules
  imports Dispatch Disk
begin

text \<open>
  Loading a module (\<^verbatim>\<open>core/kernel/modules.c\<close>): a block of the heap, filled by the disk routine, between two messages.
\<close>

definition place_module :: "u_dword \<Rightarrow> 'a kernel_state_scheme \<Rightarrow> addr \<times> 'a kernel_state_scheme" where
  "place_module n s = (modules_placement s, s\<lparr>modules_placement := modules_placement s + n\<rparr>)"

text \<open>The three checks of the arguments have empty branches. What the compiled code has in the registers at the call of the disk routine the C
  source does not say; the model takes those of the processor state. The value of the call is the low byte of \<^verbatim>\<open>eax\<close> after it.\<close>

definition call_registers :: "registers \<Rightarrow> reg \<Rightarrow> u_dword" where
  "call_registers regs r = (case r of EDI \<Rightarrow> regs_edi regs | ESI \<Rightarrow> regs_esi regs | EBP \<Rightarrow> regs_ebp regs | ESP \<Rightarrow> regs_esp_plus regs
     | EBX \<Rightarrow> regs_ebx regs | EDX \<Rightarrow> regs_edx regs | ECX \<Rightarrow> regs_ecx regs | EAX \<Rightarrow> regs_eax regs)"

definition load_module :: "u_word \<Rightarrow> u_word \<Rightarrow> 'a kernel_state_scheme \<Rightarrow> ('a kernel_state_scheme, addr) result" where
  "load_module offset num s =
     and_then (ralloc (ucast num) s) (\<lambda>place s.
     and_then (info raise (''Loading module at offset %d, length %d to memory address: %h'' @ newline)
       [ucast offset, ucast num, place] s) (\<lambda>_ s.
     and_then (read_disk (call_registers (cpu s)) (ucast (offset div 512)) False num offset place s) (\<lambda>regs s.
     and_then (info raise (''Reading result: %d'' @ newline) [ucast (ucast (regs EAX) :: u_byte)] s) (\<lambda>_ s. Inr (place, s)))))"

section \<open>The messages\<close>

definition loading_text :: "u_word \<Rightarrow> u_word \<Rightarrow> addr \<Rightarrow> u_byte list" where
  "loading_text offset num place = chars ''Loading module at offset '' @ number_chars DECIMAL (ucast offset) @ chars '', length '' @
     number_chars DECIMAL (ucast num) @ chars '' to memory address: '' @ number_chars HEXADECIMAL place @ chars newline"

definition result_text :: "u_byte \<Rightarrow> u_byte list" where
  "result_text res = chars ''Reading result: '' @ number_chars DECIMAL (ucast res) @ chars newline"

lemma loading_message_text:
  "message_text fp (\<lambda>_. []) [ucast offset, ucast num, place] (chars loading_message) = loading_text offset num place"
  "place \<noteq> 0x80000000 \<Longrightarrow> message_ok (\<lambda>_. []) s bs [ucast offset, ucast num, place] (chars loading_message) 0"
proof -
  let ?args = "[ucast offset, ucast num, place] :: u_dword list"
  have c: "chars loading_message = chars ''Loading module at offset '' @ 37 # 100 # chars '', length '' @ 37 # 100 #
      chars '' to memory address: '' @ 37 # 104 # chars newline"
    by (simp add: chars_def of_char_def)
  have p: "37 \<notin> set (chars ''Loading module at offset '')" "37 \<notin> set (chars '', length '')" "37 \<notin> set (chars '' to memory address: '')"
    by (simp_all add: chars_def of_char_def)
  have d: "render txt 100 n = Some (number_chars DECIMAL n)" "render txt 104 n = Some (number_chars HEXADECIMAL n)" "directive 104" for "txt" n
    by (simp_all add: render_def directive_def chars_def of_char_def)
  have e: "spec_format fp txt arg (chars newline) k = chars newline" "message_ok txt s bs args (chars newline) k" for "txt" arg args k
    by (simp_all add: chars_def)
  show "message_text fp (\<lambda>_. []) ?args (chars loading_message) = loading_text offset num place"
    unfolding message_text_def c loading_text_def by (simp add: spec_format_prefix p d e)
  show "message_ok (\<lambda>_. []) s bs ?args (chars loading_message) 0" if "place \<noteq> 0x80000000"
    unfolding c using that by (simp add: message_ok_prefix p d directive_letters e of_char_def ucast_not_min)
qed

lemma module_texts:
  "length (loading_text offset num place) \<le> 200" "8 \<notin> set (loading_text offset num place)"
  "length (result_text res) \<le> 200" "8 \<notin> set (result_text res)"
proof -
  have len: "length (chars x) = length x" for x by (simp add: chars_def)
  show "length (loading_text offset num place) \<le> 200" "length (result_text res) \<le> 200"
    using length_number_chars [of DECIMAL "ucast offset"] length_number_chars [of DECIMAL "ucast num"] length_number_chars [of HEXADECIMAL place]
      length_number_chars [of DECIMAL "ucast res"]
    by (simp_all add: loading_text_def result_text_def len)
  show "8 \<notin> set (loading_text offset num place)" "8 \<notin> set (result_text res)"
    by (simp_all add: loading_text_def result_text_def number_chars_plain) (simp_all add: chars_def of_char_def)
qed

lemma result_message_text:
  "message_text fp (\<lambda>_. []) [ucast res] (chars result_message) = result_text res"
  "message_ok (\<lambda>_. []) s bs [ucast res] (chars result_message) 0"
proof -
  have p: "37 \<notin> set (chars ''Reading result: '')" "37 \<notin> set (chars newline)" by (simp_all add: chars_def of_char_def)
  show "message_text fp (\<lambda>_. []) [ucast res] (chars result_message) = result_text res" "message_ok (\<lambda>_. []) s bs [ucast res] (chars result_message) 0"
    using decimal_message(1) [OF p, of fp "\<lambda>_. []" "ucast res"] decimal_message(2) [OF p ucast_not_min(1), of "\<lambda>_. []" s bs res] by (simp_all add: result_text_def)
qed

section \<open>Allocating and filling\<close>

text \<open>A new block is no part of the console.\<close>

lemma ralloc_ready:
  fixes s :: "'a kernel_state_scheme"
  assumes r: "ready s bs k N L v" and room: "unat n + 12 \<le> N"
  obtains p s' bs' where "ralloc n s = Inr (p, s')" and "made s bs p n s' bs'" and "output_only s s'"
    and "ready s' bs' k (N - (unat n + 12)) L v"
    and "\<And>x. in_range p (unat n) x \<Longrightarrow> \<not> held_byte s bs x \<and> \<not> console_bytes s k x \<and> \<not> in_range VIDEO_MEMORY 4000 x"
    and "\<And>l i. l \<in> L \<union> set format_literals \<Longrightarrow> i \<le> length l \<Longrightarrow> \<not> in_range p (unat n) (literal s l + of_nat i)"
proof -
  have r': "console_ok s bs k" "reserve s bs N" "\<And>l. l \<in> L \<Longrightarrow> text_at s bs k (literal s l) (chars l)" using r by (auto simp: ready_def)
  note c = console_okD [OF r'(1)]
  obtain p s' bs' where a: "ralloc n s = Inr (p, s')" "made s bs p n s' bs'" "reserve s' bs' (N - (unat n + 12))"
    by (rule made_alloc [OF c(1) r'(2) room])
  note md = madeD [OF a(2)]
  have s': "s' = s\<lparr>mem := mem s'\<rparr>" using md(5) by (rule mem_only_trans [rotated]) simp
  have io: "io_trace s' = io_trace s" by (subst s') simp
  have fresh: "\<not> held_byte s bs x \<and> \<not> console_bytes s k x" if "in_range p (unat n) x" for x using that md(7) c(2) by blast
  have "console_bytes s k x" if "in_range VIDEO_MEMORY 4000 x" for x using that by (simp add: console_bytes_def screen_bytes_def in_range_def)
  then have video: "\<not> in_range VIDEO_MEMORY 4000 x" if "in_range p (unat n) x" for x using that fresh by blast
  have lits: "\<not> in_range p (unat n) (literal s l + of_nat i)" if "l \<in> L \<union> set format_literals" "i \<le> length l" for l i
  proof -
    have "text_at s bs k (literal s l) (chars l)" using that(1) r'(3) c(8) by blast
    then show ?thesis using that(2) fresh by (auto simp: text_at_def held_string_def chars_def)
  qed
  have "ready s' bs' k (N - (unat n + 12)) L v"
    by (rule ready_transfer [OF r output_io_only [OF mem_only [OF s']], where W = "\<lambda>_. False"]) (use md a(3) io in auto)
  then show thesis using that [OF a(1,2) mem_only [OF s']] fresh video lits by blast
qed

text \<open>Writing to a block leaves the console as it was.\<close>

lemma filled_ready:
  fixes s s' :: "'a kernel_state_scheme"
  assumes r: "ready s bs k N L v" and only: "io_only s s'" "\<And>q. crtc_reg q (io_trace s') = crtc_reg q (io_trace s)"
    and out: "\<And>x. \<not> W x \<Longrightarrow> mem s' x = mem s x" and W: "\<And>x. W x \<Longrightarrow> held_byte s bs x \<and> \<not> in_range VIDEO_MEMORY 4000 x"
    and lits: "\<And>l i. l \<in> L \<union> set format_literals \<Longrightarrow> i \<le> length l \<Longrightarrow> \<not> W (literal s l + of_nat i)"
  shows "ready s' bs k N L v" and "held_byte s' bs x \<longleftrightarrow> held_byte s bs x"
proof -
  have ok: "heap_ok s bs" "reserve s bs N" using r by (auto simp: ready_def console_ok_def)
  have "mem s' x = mem s x" if "\<not> held_byte s bs x" for x using that out W by blast
  note w = held_write [OF ok(1), of "mem s'", OF this]
  have "mem s' = mem (s\<lparr>mem := mem s'\<rparr>)" "header s' = header (s\<lparr>mem := mem s'\<rparr>)" using io_only_fields(1) [OF only(1)] by simp_all
  note hv = heap_view [OF this]
  show held: "held_byte s' bs x \<longleftrightarrow> held_byte s bs x" for x using hv(2) w(2) by blast
  show "ready s' bs k N L v"
    using w(1,5) hv held out W ok(2) lits by (intro ready_transfer [OF r only, where W = W]) simp_all
qed

lemma module_fields:
  fixes s s' :: "'a kernel_state_scheme"
  assumes "output_only s s'"
  shows "device s' = device s" and "word_device s' = word_device s" and "cpu s' = cpu s"
  by (subst output_io_only [OF assms, unfolded io_only_def], simp)+

text \<open>The drive takes no notice of the display.\<close>

lemma other_ports_drive:
  assumes "\<forall>e \<in> set es. event_port e < 0x1f0 \<or> 0x1f7 < event_port e"
  shows "drive_after (es @ t) = drive_after t"
  using assms
proof (induction es)
  case (Cons e es)
  have "event_port e < 0x1f0 \<or> 0x1f7 < event_port e" using Cons.prems by simp
  then have "drive_event u d e = Some d" for u d by (cases e) auto
  then show ?case using Cons by (simp split: option.splits)
qed simp

lemma output_drive: "output_only s s' \<Longrightarrow> drive_after (io_trace s') = drive_after (io_trace s)"
  by (force simp: output_only_def display_ports_def REG_SCREEN_CTRL_def REG_SCREEN_DATA_def intro: other_ports_drive)

text \<open>A heap that starts below the video memory has its blocks there.\<close>

lemma block_below_video:
  assumes "heap_ok s bs" and "(p, n) \<in> set bs" and "unat (header s) < unat VIDEO_MEMORY"
  shows "unat p \<le> unat VIDEO_MEMORY"
proof -
  note ok = heap_okD [OF assms(1)]
  note lay = heap_invD(2) [OF ok(1)]
  obtain i where i: "i < length bs" "bs ! i = (p, n)" using assms(2) by (auto simp: in_set_conv_nth)
  have "usable_end s \<le> unat VIDEO_MEMORY" using assms(3) by (simp add: usable_end_def)
  then show ?thesis using ok(2) i(2) layout_bounds(1) [OF lay i(1)] block_below_last [OF lay i(1)] by auto
qed

lemma load_module_fills:
  fixes s :: "'a kernel_state_scheme"
  assumes r: "ready s bs k N L v" and k: "3 \<le> k" and N: "unat num + 80000 \<le> N" and L: "loading_message \<in> L" "result_message \<in> L"
    and drive: "drive_serves (device s) (word_device s) disk" "drive_after (io_trace s) = Some d" "drive_idle d"
    and one: "unat offset div 2 + unat num div 2 \<le> 256" and low: "unat (header s) < unat VIDEO_MEMORY"
  obtains place s' bs' where "load_module offset num s = Inr (place, s')" and "heap_ok s' bs'"
    and "mset bs' = add_mset (place, ucast num) (mset bs)"
    and "displays s' (spec_show HIGH_BLUE BLACK (result_text (ucast (regs_eax (cpu s)))) (spec_show HIGH_BLUE BLACK (loading_text offset num place) v))"
    and "\<And>i. i < 2 * (unat num div 2) \<Longrightarrow>
      mem s' (place + of_nat i) = disk (512 * (unat offset div 512) + 2 * (unat offset div 2) + i)"
    and "\<And>x. held_byte s bs x \<Longrightarrow> \<not> console_bytes s k x \<Longrightarrow> mem s' x = mem s x"
    and "drive_after (io_trace s') = Some \<lparr>drive_lba = unat offset div 512, drive_sectors = 256,
      drive_taken = unat offset div 2 + unat num div 2, drive_granted = 256\<rparr>"
proof -
  have lt: "unat num < 65536" using unsigned_less [of num, where ?'a = nat] by simp
  then have sz: "unat (ucast num :: u_dword) = unat num" by (simp add: unsigned_ucast_eq take_bit_nat_eq_self)
  have room: "unat (ucast num :: u_dword) + 12 \<le> N" using N sz by simp
  obtain p s1 bs1 where a: "ralloc (ucast num) s = Inr (p, s1)" "made s bs p (ucast num) s1 bs1" "output_only s s1"
      "ready s1 bs1 k (N - (unat num + 12)) L v"
    and fresh: "\<And>x. in_range p (unat num) x \<Longrightarrow> \<not> held_byte s bs x \<and> \<not> console_bytes s k x \<and> \<not> in_range VIDEO_MEMORY 4000 x"
    and lits: "\<And>l i. l \<in> L \<union> set format_literals \<Longrightarrow> i \<le> length l \<Longrightarrow> \<not> in_range p (unat num) (literal s l + of_nat i)"
    by (rule ralloc_ready [OF r room, unfolded sz]) blast
  note md = madeD [OF a(2), unfolded sz]
  let ?N = "N - (unat num + 12)" and ?W = "in_range p (unat num)" and ?v = "spec_show HIGH_BLUE BLACK (loading_text offset num p) v"
  have budget: "32 + format_budget 61 200 \<le> ?N" using N by (simp add: format_budget_def)
  have "unat p \<le> unat VIDEO_MEMORY" by (rule block_below_video [OF md(1,9)]) (use low md(5) in auto)
  then have min: "p \<noteq> 0x80000000" by (auto simp: VIDEO_MEMORY_def)
  have small: "length [ucast offset, ucast num, p :: u_dword] \<le> k" "length loading_message \<le> 61" "length [ucast (ucast (regs_eax (cpu s)) :: u_byte) :: u_dword] \<le> k"
    "length result_message \<le> 61" "(200 :: nat) < 2 ^ 30" "(61 :: nat) < 2 ^ 30" using k by simp_all
  obtain s2 where s2: "info raise loading_message [ucast offset, ucast num, p] s1 = Inr ((), s2)" "output_only s1 s2" "ready s2 bs1 k ?N L ?v"
    "\<And>x. held_byte s1 bs1 x \<Longrightarrow> \<not> console_bytes s1 k x \<Longrightarrow> mem s2 x = mem s1 x" "\<And>x. held_byte s2 bs1 x \<longleftrightarrow> held_byte s1 bs1 x"
    unfolding raise_eq
    by (rule text_line [OF a(4) L(1) small(2,1) loading_message_text(2) [OF min] loading_message_text(1) module_texts(1,2) small(5,6) budget, of HIGH_BLUE 169]) blast
  have dev: "device s2 = device s" "word_device s2 = word_device s" "cpu s2 = cpu s"
    using module_fields [OF a(3)] module_fields [OF s2(2)] by simp_all
  have in_range_mono: "?W x" if "in_range p (2 * (unat num div 2)) x" for x using that by (auto simp: in_range_def)
  have lba: "unat (ucast (offset div 512) :: addr) = unat offset div 512" "unat offset div 512 < 2 ^ 28"
    using unsigned_less [of offset, where ?'a = nat] by (simp_all add: unsigned_ucast_eq take_bit_nat_eq_self unat_div)
  let ?disk = "\<lambda>i. disk (512 * (unat offset div 512) + 2 * (unat offset div 2) + i)" and ?res = "ucast (regs_eax (cpu s)) :: u_byte"
  let ?regs = "call_registers (cpu s2)"
  have idle: "drive_after (io_trace s2) = Some d" using output_drive [OF a(3)] output_drive [OF s2(2)] drive(2) by simp
  have eax: "?regs EAX = regs_eax (cpu s)" using dev(3) by (simp add: call_registers_def)
  obtain m t where rd: "read_disk ?regs (ucast (offset div 512)) False num offset p s2 = Inr (?regs, s2\<lparr>mem := m, io_trace := t\<rparr>)"
    "\<And>q. crtc_reg q t = crtc_reg q (io_trace s2)"
    "drive_after t = Some \<lparr>drive_lba = unat offset div 512, drive_sectors = 256, drive_taken = unat offset div 2 + unat num div 2, drive_granted = 256\<rparr>"
    "\<And>x. m x = (if in_range p (2 * (unat num div 2)) x then ?disk (unat (x - p)) else mem s2 x)"
    by (rule read_disk_eq [of s2 disk "ucast (offset div 512)", unfolded lba(1), OF _ lba(2) idle drive(3) one, of ?regs False p])
      (use drive dev in auto)
  define s3 where "s3 = s2\<lparr>mem := m, io_trace := t\<rparr>"
  have d: "read_disk ?regs (ucast (offset div 512)) False num offset p s2 = Inr (?regs, s3)" "io_only s2 s3"
    "\<And>q. crtc_reg q (io_trace s3) = crtc_reg q (io_trace s2)" "\<And>i. i < 2 * (unat num div 2) \<Longrightarrow> mem s3 (p + of_nat i) = ?disk i"
    "\<And>x. \<not> ?W x \<Longrightarrow> mem s3 x = mem s2 x"
    using rd(1,2) by (simp_all add: s3_def io_only_def) (use rd(4) lt in_range_mono in \<open>auto simp: in_range_offset unat_of_nat32\<close>)
  note f = output_only_fields [OF a(3)] output_only_fields [OF s2(2)] io_only_fields [OF d(2)]
  have cb: "console_bytes s1 k x \<longleftrightarrow> console_bytes s k x" "console_bytes s3 k x \<longleftrightarrow> console_bytes s k x" for x
    by (simp_all add: console_bytes_def call_bytes_def screen_bytes_def f)
  have W: "held_byte s2 bs1 x \<and> \<not> in_range VIDEO_MEMORY 4000 x" if "?W x" for x using that md(8) s2(5) fresh by blast
  have lits2: "\<not> ?W (literal s2 l + of_nat i)" if "l \<in> L \<union> set format_literals" "i \<le> length l" for l i using lits [OF that] f by simp
  note r3 = filled_ready [where W = ?W, OF s2(3) d(2,3,5) W lits2]
  obtain s4 where s4: "info raise result_message [ucast ?res] s3 = Inr ((), s4)" "output_only s3 s4" "ready s4 bs1 k ?N L (spec_show HIGH_BLUE BLACK (result_text (ucast (regs_eax (cpu s)))) ?v)"
    "\<And>x. held_byte s3 bs1 x \<Longrightarrow> \<not> console_bytes s3 k x \<Longrightarrow> mem s4 x = mem s3 x"
    unfolding raise_eq
    by (rule text_line [OF r3(1) L(2) small(4,3) result_message_text(2,1) module_texts(3,4) small(5,6) budget, of HIGH_BLUE 169]) blast+
  have held3: "held_byte s3 bs1 x \<longleftrightarrow> held_byte s bs x \<or> ?W x" for x using r3(2) s2(5) md(8) by blast
  have "load_module offset num s = Inr (p, s4)" using a(1) s2(1) d(1) s4(1) by (simp add: load_module_def eax)
  moreover have "mem s4 (p + of_nat i) = ?disk i" if "i < 2 * (unat num div 2)" for i
  proof -
    have "?W (p + of_nat i)" using that lt by (subst in_range_offset) simp_all
    then show ?thesis using s4(4) held3 cb(2) fresh d(4) [OF that] by simp
  qed
  moreover have "mem s4 x = mem s x" if "held_byte s bs x" "\<not> console_bytes s k x" for x
    using that s4(4) [of x] held3 [of x] cb [of x] d(5) [of x] fresh [of x] s2(4) [of x] md(6) [of x] md(8) [of x] by simp blast
  moreover have "heap_ok s4 bs1" "displays s4 (spec_show HIGH_BLUE BLACK (result_text (ucast (regs_eax (cpu s)))) ?v)" using s4(3) by (simp_all add: ready_def console_ok_def)
  moreover have "drive_after (io_trace s4) = Some \<lparr>drive_lba = unat offset div 512, drive_sectors = 256,
      drive_taken = unat offset div 2 + unat num div 2, drive_granted = 256\<rparr>"
    using output_drive [OF s4(2)] rd(3) by (simp add: s3_def)
  ultimately show thesis using that md(2) by blast
qed

section \<open>A machine with a drive\<close>

lemma drive_ports_crtc: "vga_crtc drive_ports"
  using vga_device_crtc by (simp add: vga_crtc_def drive_ports_def REG_SCREEN_DATA_def)

lemma ready_devices:
  fixes s :: "'a kernel_state_scheme"
  assumes r: "ready s bs k N L v" and dev: "vga_crtc dev"
  shows "ready (s\<lparr>device := dev, word_device := wdev\<rparr>) bs k N L v"
proof -
  let ?s = "s\<lparr>device := dev, word_device := wdev\<rparr>"
  have f: "mem ?s = mem s" "header ?s = header s" by simp_all
  note hv = heap_view [OF f]
  have cb: "call_bytes ?s m x \<longleftrightarrow> call_bytes s m x" "screen_bytes ?s x \<longleftrightarrow> screen_bytes s x" "console_bytes ?s k x \<longleftrightarrow> console_bytes s k x" for m x
    by (simp_all add: call_bytes_def screen_bytes_def console_bytes_def)
  have t: "text_at ?s bs k p xs \<longleftrightarrow> text_at s bs k p xs" for p xs by (simp add: text_at_def hv cb)
  have "console_ok ?s bs k" using r dev unfolding ready_def console_ok_def hv t cb by (simp add: slot_ok_def)
  then show ?thesis using r unfolding ready_def hv t by (simp add: displays_def cursor_is_def)
qed

text \<open>The early initialisation talks to the interrupt controllers and the timer only.\<close>

lemma early_setup_drive:
  fixes s :: "'a kernel_state_scheme"
  assumes "early_setup s = Inr ((), s1)"
  shows "drive_after (io_trace s1) = drive_after (io_trace s)"
proof -
  define s0 where "s0 = initialize_kernel_heap_handler (initialize_heap kernel_heap_start kernel_heap_size s)"
  have s0: "io_trace s0 = io_trace s"
    by (simp add: s0_def initialize_kernel_heap_handler_def initialize_heap_def handle_exceptions_def set_first_address_def Let_def)
  let ?m = "device s0 (io_trace s0) 0x21"
  let ?v = "device s0 (In 0x21 ?m # io_trace s0) 0xa1"
  have i: "io_trace (init_interruptions s0) =
    [Out 0xa1 ?v, Out 0x21 ?m, Out 0xa1 0, Out 0x21 0, Out 0xa1 1, Out 0x21 1, Out 0xa1 2, Out 0x21 4,
     Out 0xa1 0x28, Out 0x21 0x20, Out 0xa0 0x11, Out 0x20 0x11, In 0xa1 ?v, In 0x21 ?m] @ io_trace s0"
    unfolding init_interruptions_eq idt_flush_def gates_installed_def
    by (simp add: Let_def remap_controllers_def port_byte_in_def port_byte_out_def)
  have "\<exists>v w. io_trace s1 = [Out 0x40 v, Out 0x40 w, Out 0x43 0x36] @ io_trace (init_interruptions s0)"
    using assms by (auto simp: early_setup_def s0_def [symmetric] init_timer_def kernel_timer_step_def put_handler_def port_byte_out_def Let_def)
  then obtain v w where "io_trace s1 = [Out 0x40 v, Out 0x40 w, Out 0x43 0x36] @ io_trace (init_interruptions s0)" by blast
  then show ?thesis unfolding i s0 by (simp only: append_assoc [symmetric]) (rule other_ports_drive, simp)
qed

section \<open>Properties\<close>

text \<open>
  (C15) Loading a module, from the driver down to the data port: with a working and idle drive, a heap that starts
  below the video memory as the kernel's does, and a module within the first sector (beyond it the disk routine takes
  words the drive has not shown, \<^verbatim>\<open>read_disk_unpolled\<close>), \<^verbatim>\<open>load_module\<close> terminates and returns the address of a new heap block
  of the given length with the words of the disk from the offset on; everything else the kernel holds is unchanged.
  The number printed as the result of reading is what \<^verbatim>\<open>eax\<close> held before the call. The drive is left in the middle of
  a transfer: 256 sectors are commanded, one is shown, and only the words asked for are taken, so it does not take the
  command of a second call.
\<close>

theorem load_module_delivers:
  fixes s :: "'a kernel_state_scheme"
  assumes "ready s bs k N L v" and "3 \<le> k" and "unat num + 80000 \<le> N" and "loading_message \<in> L" and "result_message \<in> L"
    and "drive_serves (device s) (word_device s) disk" and "drive_after (io_trace s) = Some d" and "drive_idle d"
    and "unat offset div 2 + unat num div 2 \<le> 256" and "unat (header s) < unat VIDEO_MEMORY"
  shows "\<exists>place s' bs'. load_module offset num s = Inr (place, s') \<and> heap_ok s' bs' \<and>
    mset bs' = add_mset (place, ucast num) (mset bs) \<and>
    displays s' (spec_show HIGH_BLUE BLACK (result_text (ucast (regs_eax (cpu s))))
      (spec_show HIGH_BLUE BLACK (loading_text offset num place) v)) \<and>
    (\<forall>i < 2 * (unat num div 2). mem s' (place + of_nat i) = disk (512 * (unat offset div 512) + 2 * (unat offset div 2) + i)) \<and>
    (\<forall>x. held_byte s bs x \<and> \<not> console_bytes s k x \<longrightarrow> mem s' x = mem s x) \<and>
    (\<exists>d'. drive_after (io_trace s') = Some d' \<and> \<not> drive_idle d' \<and> drive_sectors d' = 256 \<and>
      drive_taken d' = unat offset div 2 + unat num div 2 \<and> drive_granted d' = 256)"
proof -
  obtain place s' bs' where l: "load_module offset num s = Inr (place, s')" "heap_ok s' bs'" "mset bs' = add_mset (place, ucast num) (mset bs)"
    "displays s' (spec_show HIGH_BLUE BLACK (result_text (ucast (regs_eax (cpu s)))) (spec_show HIGH_BLUE BLACK (loading_text offset num place) v))"
    "\<And>i. i < 2 * (unat num div 2) \<Longrightarrow> mem s' (place + of_nat i) = disk (512 * (unat offset div 512) + 2 * (unat offset div 2) + i)"
    "\<And>x. held_byte s bs x \<Longrightarrow> \<not> console_bytes s k x \<Longrightarrow> mem s' x = mem s x"
    "drive_after (io_trace s') = Some \<lparr>drive_lba = unat offset div 512, drive_sectors = 256,
      drive_taken = unat offset div 2 + unat num div 2, drive_granted = 256\<rparr>"
    by (rule load_module_fills [OF assms]) blast
  have "\<exists>d'. drive_after (io_trace s') = Some d' \<and> \<not> drive_idle d' \<and> drive_sectors d' = 256 \<and>
      drive_taken d' = unat offset div 2 + unat num div 2 \<and> drive_granted d' = 256"
    using assms(9) l(7) by (simp add: drive_idle_def)
  then show ?thesis using l(1-6) by blast
qed

text \<open>The last 412 bytes of the first sector of a disk whose bytes count their positions.\<close>

theorem load_module_delivers_witness:
  "\<exists>s place s'. early_setup boot_demo = Inr ((), s) \<and>
    load_module 100 412 ((put_handler 48 Screen_callback s)\<lparr>device := drive_ports, word_device := drive_data of_nat\<rparr>) = Inr (place, s') \<and>
    mem s' place = 100 \<and> mem s' (place + 411) = 255"
proof -
  have "{loading_message, result_message} \<subseteq> set image_texts" by (simp add: image_texts_def)
  then obtain s where s: "early_setup boot_demo = Inr ((), s)"
    and r0: "ready (put_handler 48 Screen_callback s) [] 6 0x60000 {loading_message, result_message} (replicate 2000 (0, 0), 0)"
    by (rule demo_wide_ready)
  let ?s = "(put_handler 48 Screen_callback s)\<lparr>device := drive_ports, word_device := drive_data of_nat\<rparr>"
  let ?d = "\<lparr>drive_lba = 0, drive_sectors = 0, drive_taken = 0, drive_granted = 0\<rparr>"
  have N: "3 \<le> (6 :: nat)" "unat (412 :: u_word) + 80000 \<le> 0x60000" by simp_all
  have L: "loading_message \<in> {loading_message, result_message}" "result_message \<in> {loading_message, result_message}" by simp_all
  have "drive_after (io_trace boot_demo) = Some ?d"
    by (simp add: boot_demo_def demo_tasks_def set_cursor_offset_def port_byte_out_def REG_SCREEN_CTRL_def REG_SCREEN_DATA_def)
  then have t: "drive_after (io_trace ?s) = Some ?d" using early_setup_drive [OF s] by (simp add: put_handler_def)
  have d: "drive_serves (device ?s) (word_device ?s) of_nat" "drive_idle ?d" using drive_ports_serve by (simp_all add: drive_idle_def)
  have one: "unat (100 :: u_word) div 2 + unat (412 :: u_word) div 2 \<le> 256" by simp
  have low: "unat (header ?s) < unat VIDEO_MEMORY" using early_setup_cpu [OF s] by (simp add: put_handler_def VIDEO_MEMORY_def)
  from load_module_delivers [OF ready_devices [OF r0 drive_ports_crtc] N L d(1) t d(2) one low] obtain place s' where
    l: "load_module 100 412 ?s = Inr (place, s')"
    "\<And>i. i < 2 * (unat (412 :: u_word) div 2) \<Longrightarrow>
      mem s' (place + of_nat i) = of_nat (512 * (unat (100 :: u_word) div 512) + 2 * (unat (100 :: u_word) div 2) + i)" by blast
  from l(2) [of 0] l(2) [of 411] have "mem s' place = 100" "mem s' (place + 411) = 255" by simp_all
  with s l(1) show ?thesis by blast
qed

end
