(* ===== verification/Vfs.thy ===== *)
theory Vfs
  imports Memory
begin

text \<open>
  The virtual file system (\<^verbatim>\<open>core/drivers/vfs.c\<close>, \<^verbatim>\<open>core/drivers/vfs.h\<close>), as far as it is written: the layout of a node, the
  root pointer and six operations with empty bodies. Nothing in the kernel calls it.
\<close>

section \<open>Nodes\<close>

definition FILE :: u_byte where "FILE = 0x01"
definition DIRECTORY :: u_byte where "DIRECTORY = 0x02"
definition MOUNTPOINT :: u_byte where "MOUNTPOINT = 0x03"

definition READABLE :: u_byte where "READABLE = 0x01"
definition WRITABLE :: u_byte where "WRITABLE = 0x02"
definition EXECUTABLE :: u_byte where "EXECUTABLE = 0x03"

text \<open>The structure in memory; the compiler aligns \<^verbatim>\<open>length\<close> to four bytes.\<close>

record fs_node =
  fs_name :: "u_byte list"
  fs_type :: u_byte
  fs_flag :: u_byte
  fs_length :: u_dword

definition fs_node_size :: nat where
  "fs_node_size = 136"

definition fs_node_at :: "memory \<Rightarrow> addr \<Rightarrow> fs_node" where
  "fs_node_at m p = \<lparr>fs_name = map (\<lambda>i. m (p + of_nat i)) [0 ..< 128], fs_type = m (p + 128), fs_flag = m (p + 129), fs_length = load32 m (p + 132)\<rparr>"

section \<open>Operations\<close>

record vfs_state = machine +
  root :: addr

definition initialize_vfs :: "addr \<Rightarrow> 'a vfs_state_scheme \<Rightarrow> 'a vfs_state_scheme" where
  "initialize_vfs location s = s\<lparr>root := location\<rparr>"

text \<open>
  The bodies are empty. Four of the functions are declared to return a value and have no return statement: what a caller
  finds, \<open>left\<close>, is whatever the result register holds.
\<close>

definition vfs_read :: "addr \<Rightarrow> addr \<Rightarrow> u_dword \<Rightarrow> u_dword \<Rightarrow> addr \<Rightarrow> 'a vfs_state_scheme \<Rightarrow> addr \<times> 'a vfs_state_scheme" where
  "vfs_read left node offset num buffer s = (left, s)"

definition vfs_write :: "u_dword \<Rightarrow> addr \<Rightarrow> u_dword \<Rightarrow> u_dword \<Rightarrow> addr \<Rightarrow> 'a vfs_state_scheme \<Rightarrow> u_dword \<times> 'a vfs_state_scheme" where
  "vfs_write left node offset num buffer s = (left, s)"

definition vfs_open :: "addr \<Rightarrow> u_byte \<Rightarrow> u_byte \<Rightarrow> 'a vfs_state_scheme \<Rightarrow> 'a vfs_state_scheme" where
  "vfs_open node read write s = s"

definition vfs_close :: "addr \<Rightarrow> 'a vfs_state_scheme \<Rightarrow> 'a vfs_state_scheme" where
  "vfs_close node s = s"

definition readdir :: "addr \<Rightarrow> addr \<Rightarrow> u_dword \<Rightarrow> 'a vfs_state_scheme \<Rightarrow> addr \<times> 'a vfs_state_scheme" where
  "readdir left node index s = (left, s)"

definition finddir :: "addr \<Rightarrow> addr \<Rightarrow> addr \<Rightarrow> 'a vfs_state_scheme \<Rightarrow> addr \<times> 'a vfs_state_scheme" where
  "finddir left node name s = (left, s)"

section \<open>What holds\<close>

text \<open>A node depends on the bytes of its structure only, so mounting an image copied elsewhere gives the same root.\<close>

lemma fs_node_at_cong:
  assumes "\<And>i. i < fs_node_size \<Longrightarrow> m (p + of_nat i) = m' (p' + of_nat i)"
  shows "fs_node_at m p = fs_node_at m' p'"
proof -
  note e = assms [unfolded fs_node_size_def]
  from e [of 128] e [of 129] e [of 132] e [of 133] e [of 134] e [of 135]
  show ?thesis using e by (simp add: fs_node_at_def load32_def add.assoc)
qed

lemma initialize_vfs_copied:
  fixes s :: "'a vfs_state_scheme"
  assumes "fs_node_size \<le> unat n" and "dest = source \<or> unat n \<le> unat (dest - source)"
  shows "fs_node_at (memory_copy source dest n (mem s)) (root (initialize_vfs dest s)) = fs_node_at (mem s) source"
proof -
  have "memory_copy source dest n (mem s) (dest + of_nat i) = mem s (source + of_nat i)" if "i < fs_node_size" for i
    using that assms(1) unat_lt32 [of n] by (simp add: memory_copy_apply [OF assms(2)] in_range_offset)
  then show ?thesis by (intro fs_node_at_cong) (simp add: initialize_vfs_def)
qed

text \<open>The third access mode is not a flag of its own: it is the union of the other two.\<close>

lemma executable_is_readable_writable: "EXECUTABLE = READABLE OR WRITABLE"
  by (simp add: EXECUTABLE_def READABLE_def WRITABLE_def)

end
