(* ===== verification/Spec2Isabelle.thy ===== *)
theory Spec2Isabelle
  imports Modules Vfs
begin

text \<open>
  MushOS is a small 32-bit x86 kernel with a freestanding C library. This development translates
  the C code of both (and the assembly the C code is entangled with) into HOL and proves what makes
  its parts correct, from the byte loops of the library to the boot sequence of the kernel.

  \<^bold>\<open>The program.\<close>
  The library, \<^verbatim>\<open>src/lib/base\<close>, has raw memory routines, an exception table, a best-fit heap whose block
  headers lie in the memory it manages, strings on that heap, and a template formatter. The kernel,
  \<^verbatim>\<open>src/core\<close>, has a VGA text driver, interrupt tables and dispatch, a timer, a keyboard driver, two
  bitmap pools for page tables and frames, page tables, a round-robin scheduler, \<^verbatim>\<open>fork\<close> and a loader that reads modules
  from a disk. The two halves meet in printing: \<^verbatim>\<open>print_formatted\<close> formats a template into heap strings, pushes the arguments of
  a system call, raises interrupt 48, whose entry point runs the handler the screen driver has
  registered, and the driver writes the video memory; errors of the heap and unknown interrupts
  print in turn.

  \<^bold>\<open>How code is modelled.\<close>
  Integers have their width (\<^typ>\<open>8 word\<close>, \<^typ>\<open>16 word\<close>, \<^typ>\<open>32 word\<close>), so every wrap-around of the C code is that of
  the model; C \<^verbatim>\<open>int\<close> loop counters are natural numbers or integers where they stay in range. Memory is one
  function from 32-bit addresses to bytes; every structure the code lays over memory (heap headers,
  tasks, page entries, the descriptor table, stack frames) is read and written there, so aliasing is
  that of the program. The state is one chain of records, each component extending the one below:
  \<open>machine\<close> (memory, devices and the trace of port accesses), \<open>exc_state\<close> (exception handlers), \<open>heap_state\<close> (the
  heap pointer), \<open>int_state\<close> (interrupt handlers, descriptor table register, ticks), \<open>kernel_state\<close> (directories,
  pools, task list, processor registers). An operation takes the state and returns \<open>Inr (value, state)\<close> or
  \<open>Inl fault\<close>; a fault is \<open>Hang\<close> (the code spins for ever), \<open>Unhandled\<close> (an exception without handler) or
  \<open>Undefined\<close> (the language gives no meaning), each with the state it happened in.
  Function pointers are datatypes with one constructor per function the sources register.

  \<^bold>\<open>Theories, in the order of their imports.\<close>
  \<^item> \<open>MushPrelude\<close>: the types of \<^verbatim>\<open>generic.h\<close>, results, address ranges that are safe under wrap-around, the
    collections of rewrite rules the other theories use.
  \<^item> \<open>Memory\<close>: \<^verbatim>\<open>memory.c\<close>, \<^verbatim>\<open>math.c\<close>; loads and stores of words, and the port accesses of \<^verbatim>\<open>ports_io.h\<close>.
  \<^item> \<open>Screen\<close>: \<^verbatim>\<open>drivers/screen.c\<close>. The abstract screen is a list of 2000 cells with a cursor;
    character and string output refine operations on it, scrolling included, and touch nothing else, neither in memory nor
    (\<open>output_only\<close>) among the ports.
  \<^item> \<open>Exceptions\<close>: \<^verbatim>\<open>exceptions.c\<close> and the allocation handlers of \<^verbatim>\<open>lib/base/heap.c\<close> and \<^verbatim>\<open>core/kernel/heap.c\<close>. The
    locale \<open>handler_table\<close> is the contract of a handler table; the exception table and (in \<open>Interrupts\<close>) the
    interrupt table interpret it.
  \<^item> \<open>Heap\<close>: the functions of \<^verbatim>\<open>lib/base/heap.c\<close>. \<open>HeapLayout\<close>: the heap as a list of disjoint blocks and the
    invariant \<open>heap_inv\<close> that ties the list to the headers in memory. \<open>HeapAlloc\<close>: the search of \<^verbatim>\<open>ralloc\<close> is a fold
    over the gaps of that list. \<open>HeapOps\<close>: release, resizing and the locale \<open>allocator\<close>, what clients may rely
    on, interpreted on \<open>ralloc\<close> and \<open>unalloc\<close>. \<open>HeapProps\<close>: the properties of the heap, with \<open>heap_run\<close>, the states that
    sequences of allocations, releases, resizings and writes reach; its rules name the guards under which the code keeps the heap intact
    (a request whose size does not wrap, and room behind a block that grows in place), as the code checks neither. \<open>HeapReserve\<close>: the kernel's heap reaches over the video memory, so its
    clients' budget is measured up to address 0xb8000; the locale \<open>placed_allocator\<close> extends \<open>allocator\<close> by the
    place of the blocks and is interpreted on the same functions. \<open>HeapClient\<close>: rules for chains of
    allocations, writes and releases.
  \<^item> \<open>Strings\<close>: \<^verbatim>\<open>string.c\<close>, each function against an operation on lists of bytes.
  \<^item> \<open>Format\<close>: \<^verbatim>\<open>format.c\<close> and \<^verbatim>\<open>vararg.c\<close>, with the routines for numbers. The operations the code leaves to the floating-point
    unit (conversion, subtraction, multiplication, comparison) are a parameter, the record \<open>fpu\<close>; what \<^verbatim>\<open>float_to_string\<close> does with them is code
    of the model. \<open>Floats\<close>: the text \<^verbatim>\<open>float_to_string\<close> makes. \<open>Formatter\<close>: \<open>spec_format\<close> is the specification of the template
    language with all its directives; \<open>format_string\<close> returns a new block with the specified text and releases every intermediate string.
    Printing the least \<^verbatim>\<open>int\<close>, whose negation in \<^verbatim>\<open>number_to_string\<close> C leaves undefined, is the outcome \<open>Undefined\<close>, and the properties of
    printing leave that value out.
  \<^item> \<open>Interrupts\<close>: \<^verbatim>\<open>interruption_tables.c\<close>, \<^verbatim>\<open>interruptions.h\<close> and the chip programming of \<^verbatim>\<open>timer.c\<close>. The
    descriptor table in memory is read back the way the processor reads it.
  \<^item> \<open>Scheduler\<close>: \<^verbatim>\<open>task.h\<close> and \<^verbatim>\<open>switch_task\<close> of \<^verbatim>\<open>task.c\<close>, with \<open>kernel_state\<close>. The linked list of tasks refines a
    cyclic list; \<open>sched_run\<close> is the step relation of successive timer ticks with the contexts the tasks were suspended with, and every
    task is resumed at its instruction, with its stack registers and its page directory.
  \<^item> \<open>Console\<close>: \<^verbatim>\<open>stdio.h\<close>, \<^verbatim>\<open>syscall.h\<close>, the entry points of \<^verbatim>\<open>interruptions.asm\<close>, \<^verbatim>\<open>isr_handler\<close> and
    \<^verbatim>\<open>irq_handler\<close>, the debug, page fault and keyboard handlers and the reports of exceptions: everything that
    prints or is reached from printing.
  \<^item> \<open>Pages\<close>: \<^verbatim>\<open>pages.c\<close>, \<^verbatim>\<open>pages.h\<close> and \<^verbatim>\<open>utils.asm\<close>. \<open>Pools\<close>: the locale \<open>frame_pool\<close>, what a bitmap pool promises,
    interpreted on \<open>allocate_frame\<close> and \<open>allocate_page_folder\<close>. \<open>KernelMap\<close>: the processor's table walk as the reference
    definition \<open>translate\<close>, and the map \<^verbatim>\<open>initialise_paging\<close> builds. \<open>CloneMap\<close> and \<open>CloneDir\<close>: \<^verbatim>\<open>clone_table\<close> and \<^verbatim>\<open>clone_directory\<close>
    entry by entry: the child's directory shares every table but the one of the stack, whose five user pages
    lead to new frames with the same bytes.
  \<^item> \<open>Kernel\<close>: task creation and \<^verbatim>\<open>fork\<close>, and \<^verbatim>\<open>_start\<close> of \<^verbatim>\<open>kernel.c\<close>. \<open>Tasks\<close>: task structures in
    the queue.
  \<^item> \<open>SysCalls\<close>: the stack traffic of the system call macros. \<open>ConsoleProps\<close>: printing from the template to the
    abstract screen; \<open>ready\<close> is the state of a console that can print. \<open>KernelProps\<close>: the set-up phase on a boot
    image, and the properties of printing and system calls.
  \<^item> \<open>Boot\<close>: \<open>running\<close>, the invariant from the end of the set-up phase on, through paging, the first task and
    \<^verbatim>\<open>fork\<close>. \<open>BootProps\<close>: \<^verbatim>\<open>_start\<close> runs to its end, and what \<^verbatim>\<open>fork\<close> gives parent and child.
  \<^item> \<open>Dispatch\<close>: interrupts on the running system (the timer, vectors without entry point, page faults and the
    report of a panic).
  \<^item> \<open>Disk\<close>: \<^verbatim>\<open>drivers/disk.asm\<close>, instruction group by instruction group, with the frame of \<^verbatim>\<open>pusha\<close> the result is lost in. The
    polling loops are partial functions, so that a poll that never ends is the value \<open>None\<close>. The drive is a device that answers from
    the log of port traffic; \<open>drive_after\<close> is what the log says of its transfer, and \<open>drive_serves\<close> is the documented handshake: a drive
    shows each sector in its status before the sector's words are taken, and takes no command before. \<open>read_disk_eq\<close> is a
    read within the first sector, \<open>read_disk_unpolled\<close> a longer one, which breaks the handshake. Drives that fail or stay busy are
    treated as well. \<open>Modules\<close>: \<^verbatim>\<open>modules.c\<close>, \<^verbatim>\<open>load_module\<close> from the kernel heap down to the data port.
  \<^item> \<open>Vfs\<close>: \<^verbatim>\<open>drivers/vfs.c\<close> and \<^verbatim>\<open>vfs.h\<close>, of which only the layout of a node and the root pointer are written.

  \<^bold>\<open>Bounds.\<close>
  Loops of the source that are not bounded by their own counter carry fuel and end in a fault when it runs
  out. \<open>walk_fuel\<close> is \<open>2 ^ 32\<close>, more than there are addresses, hence blocks or pool bytes; \<open>int_fuel\<close> is
  \<open>2 ^ 31\<close>, the range of the C \<^verbatim>\<open>int\<close> that counts the characters of a string; the loop that finds the highest
  power of a base runs at most once per digit. The theorems show results, so they show that this fuel is enough.
  Interrupts nest (a handler may raise another interrupt): \<open>interrupt\<close> carries the depth, and \<open>stack_depth\<close>, 170, is
  a number of nested interrupts that overruns the 0x5000 bytes of the kernel stack, as each takes more than
  120 bytes; printing before the screen driver is registered exceeds every depth.

  \<^bold>\<open>Not modelled.\<close>
  The boot sector (16-bit assembly over the services of the BIOS); the tests; writing a word to a port, which has no
  caller; interrupts that arrive between two steps of other code (the timer is a step of its own in
  \<open>sched_run\<close>); time and the contents of the processor's caches. Paging maps the kernel identically, so
  code runs on physical addresses and \<open>translate\<close> is a reading of the tables, not a layer under every load.
  Bytes the C code reads without having written them are whatever the state holds.
\<close>

end
